(* ===== verification/Prelude.thy ===== *)
theory Prelude
  imports Main "HOL-Library.Word" "HOL-Library.Finite_Map" "HOL-Library.Multiset"
    "HOL-Library.Code_Target_Nat"
begin

text \<open>
  Shared ground of the development: the machine types of the Rust source, clock readings and
  durations, hash maps as finite maps, strings as byte lists, and the list and map lemmas the
  components use.

  \<^item> \<open>u8\<close>, \<open>u16\<close>, \<open>u32\<close>, \<open>u64\<close> are words; \<open>+\<close>, \<open>-\<close>, \<open>*\<close> on them wrap, as
    the release profile of the crate does.
  \<^item> \<open>usize\<close> values that the code only compares or counts up from a bounded quantity are
    \<open>nat\<close>; counters that the code can push past either end (atomics) are \<open>64 word\<close>.
  \<^item> an \<open>Instant\<close> and a \<open>Duration\<close> are natural numbers of nanoseconds;
    \<open>duration_since\<close> saturates at zero, as subtraction on \<open>nat\<close> does.
  \<^item> a \<open>HashMap\<close> is a finite map, its \<open>len\<close> is \<open>hash_len\<close>; a \<open>HashSet\<close> is a set.
  \<^item> a \<open>str\<close> is its UTF-8 bytes, as a \<open>string\<close> (one \<open>char\<close> is one byte).
\<close>

unbundle bit_operations_syntax

named_theorems hash_simps \<open>lookups and sizes of the finite maps that model hash maps\<close>

type_synonym u8 = "8 word"
type_synonym u16 = "16 word"
type_synonym u32 = "32 word"
type_synonym u64 = "64 word"
type_synonym u128 = "128 word"
type_synonym usize = nat
type_synonym instant = nat
type_synonym duration = nat

section \<open>Integers\<close>

definition usize_max :: nat where
  "usize_max = 2 ^ 64 - 1"

definition saturating_mul :: "usize \<Rightarrow> usize \<Rightarrow> usize" where
  "saturating_mul a b = min (a * b) usize_max"

text \<open>A \<open>Duration\<close> holds \<open>u64\<close> seconds and less than a second of nanoseconds.\<close>

definition nanos_per_sec :: nat where
  "nanos_per_sec = 1000000000"

definition secs :: "nat \<Rightarrow> duration" where
  "secs n = n * nanos_per_sec"

definition duration_max :: duration where
  "duration_max = 2 ^ 64 * nanos_per_sec - 1"

text \<open>\<open>Duration + Duration\<close> panics when the sum does not fit: \<open>None\<close>.\<close>

definition duration_add :: "duration \<Rightarrow> duration \<Rightarrow> duration option" where
  "duration_add a b = (if a + b \<le> duration_max then Some (a + b) else None)"

definition duration_since :: "instant \<Rightarrow> instant \<Rightarrow> duration" where
  "duration_since now earlier = now - earlier"

section \<open>Hash maps\<close>

definition hash_len :: "('k, 'v) fmap \<Rightarrow> nat" where
  "hash_len m = card (fmdom' m)"

lemma hash_len_fmempty [hash_simps, simp]: "hash_len fmempty = 0"
  by (simp add: hash_len_def)

lemma hash_len_upd [hash_simps]:
  "hash_len (fmupd k v m) = (if fmlookup m k = None then Suc (hash_len m) else hash_len m)"
  by (auto simp: hash_len_def card_insert_if fmdom'_notI fmdom'I)

lemma hash_len_drop [hash_simps]:
  "hash_len (fmdrop k m) = (if fmlookup m k = None then hash_len m else hash_len m - 1)"
  by (auto simp: hash_len_def card_Diff_singleton_if fmdom'_notI fmdom'I)

lemma hash_len_pos: "fmlookup m k = Some v \<Longrightarrow> 0 < hash_len m"
  by (auto simp: hash_len_def card_gt_0_iff dest: fmdom'I)

text \<open>The sum of the counters a map holds.\<close>

definition hash_total :: "('k, nat) fmap \<Rightarrow> nat" where
  "hash_total m = (\<Sum>k \<in> fmdom' m. the (fmlookup m k))"

definition count_of :: "('k, nat) fmap \<Rightarrow> 'k \<Rightarrow> nat" where
  "count_of m k = (case fmlookup m k of None \<Rightarrow> 0 | Some c \<Rightarrow> c)"

lemma count_of_simps [hash_simps]:
  "count_of fmempty k = 0"
  "count_of (fmupd k v m) k' = (if k = k' then v else count_of m k')"
  "count_of (fmdrop k m) k' = (if k = k' then 0 else count_of m k')"
  by (auto simp: count_of_def)

lemma hash_total_fmempty [hash_simps, simp]: "hash_total fmempty = 0"
  by (simp add: hash_total_def)

lemma hash_total_remove:
  "hash_total m = count_of m k + hash_total (fmdrop k m)"
proof (cases "fmlookup m k")
  case None
  then have "fmdrop k m = m" by (simp add: fmdrop_idle' fmdom'_notI)
  then show ?thesis using None by (simp add: count_of_def)
next
  case (Some c)
  have "hash_total m = the (fmlookup m k) + (\<Sum>j \<in> fmdom' m - {k}. the (fmlookup m j))"
    using Some by (simp add: hash_total_def sum.remove [of _ k] fmdom'I)
  also have "(\<Sum>j \<in> fmdom' m - {k}. the (fmlookup m j)) = hash_total (fmdrop k m)"
    unfolding hash_total_def by (rule sum.cong) auto
  finally show ?thesis using Some by (simp add: count_of_def)
qed

lemma count_of_le_total: "count_of m k \<le> hash_total m"
  using hash_total_remove [of m k] by simp

lemma hash_total_drop [hash_simps]: "hash_total (fmdrop k m) = hash_total m - count_of m k"
  using hash_total_remove [of m k] by simp

lemma hash_total_upd [hash_simps]:
  "hash_total (fmupd k v m) = hash_total m - count_of m k + v"
proof -
  have "fmdrop k (fmupd k v m) = fmdrop k m" by (simp add: fmdrop_fmupd)
  then show ?thesis
    using hash_total_remove [of "fmupd k v m" k] by (simp add: hash_simps)
qed

section \<open>Strings and bytes\<close>

definition as_bytes :: "string \<Rightarrow> u8 list" where
  "as_bytes s = map of_char s"

definition of_bytes :: "u8 list \<Rightarrow> string" where
  "of_bytes bs = map (\<lambda>b. char_of (unat b)) bs"

lemma as_bytes_simps [simp]:
  "as_bytes [] = []"
  "as_bytes (c # s) = of_char c # as_bytes s"
  "as_bytes (s @ t) = as_bytes s @ as_bytes t"
  "length (as_bytes s) = length s"
  by (simp_all add: as_bytes_def)

lemma of_bytes_simps [simp]:
  "of_bytes [] = []"
  "of_bytes (b # bs) = char_of (unat b) # of_bytes bs"
  "of_bytes (bs @ bs') = of_bytes bs @ of_bytes bs'"
  "length (of_bytes bs) = length bs"
  by (simp_all add: of_bytes_def)

lemma unat_of_char: "unat (of_char c :: u8) = of_char c"
proof -
  have "(of_char c :: nat) < 256" 
    by (subst of_char_mod_256 [symmetric]) simp
  moreover have "(of_char c :: u8) = of_nat (of_char c)"
    by (simp only: of_nat_of_char)
  ultimately show ?thesis by (simp add: unat_of_nat)
qed

lemma of_char_char_of_unat: "of_char (char_of (unat b)) = (b :: u8)"
proof -
  have "unat b < 256" using unsigned_less [of b] by simp
  then have "of_nat (of_char (char_of (unat b))) = b" by simp
  then show ?thesis by (simp only: of_nat_of_char)
qed

lemma as_bytes_of_bytes [simp]: "as_bytes (of_bytes bs) = bs"
  by (induction bs) (simp_all add: of_char_char_of_unat)

lemma of_bytes_as_bytes [simp]: "of_bytes (as_bytes s) = s"
  by (induction s) (simp_all add: unat_of_char)

end
