(* ===== verification/Syn_Error.thy ===== *)
theory Syn_Error
  imports Prelude
begin

text \<open>
  The error type of the crate (src/src/error.rs): the variants of \<open>SynError\<close>, its constructor
  functions and the \<open>Display\<close> text that the derive of \<open>thiserror\<close> generates from the
  \<open>#[error(...)]\<close> attributes. An \<open>io::Error\<close> and an \<open>AddrParseError\<close> are kept as their
  own display text. \<open>outcome\<close> is the result type of every fallible operation: the code's
  \<open>Ok\<close>, its \<open>Err\<close>, and a panic of the standard library as a third value.
\<close>

section \<open>Printing numbers and durations\<close>

definition digit_char :: "nat \<Rightarrow> char" where
  "digit_char d = ''0123456789abcdef'' ! d"

fun show_radix :: "nat \<Rightarrow> nat \<Rightarrow> string" where
  "show_radix r n =
     (if r < 2 \<or> n < r then [digit_char n] else show_radix r (n div r) @ [digit_char (n mod r)])"

declare show_radix.simps [simp del]

definition show_nat :: "nat \<Rightarrow> string" where
  "show_nat n = show_radix 10 n"

definition show_hex :: "nat \<Rightarrow> string" where
  "show_hex n = show_radix 16 n"

text \<open>\<open>Debug\<close> of a \<open>Duration\<close>: the fraction is printed without trailing zeros.\<close>

fun frac_digits :: "nat \<Rightarrow> nat \<Rightarrow> string" where
  "frac_digits fr divisor =
     (if fr = 0 \<or> divisor = 0 then []
      else digit_char (fr div divisor) # frac_digits (fr mod divisor) (divisor div 10))"

declare frac_digits.simps [simp del]

definition fmt_decimal :: "nat \<Rightarrow> nat \<Rightarrow> nat \<Rightarrow> string \<Rightarrow> string" where
  "fmt_decimal whole fr divisor postfix =
     show_nat whole @ (let ds = frac_digits fr divisor in if ds = [] then [] else ''.'' @ ds) @ postfix"

definition debug_duration :: "duration \<Rightarrow> string" where
  "debug_duration d =
     (let s = d div nanos_per_sec; n = d mod nanos_per_sec in
      if 0 < s then fmt_decimal s n (nanos_per_sec div 10) ''s''
      else if 1000000 \<le> n then fmt_decimal (n div 1000000) (n mod 1000000) 100000 ''ms''
      else if 1000 \<le> n then fmt_decimal (n div 1000) (n mod 1000) 100 (of_bytes [0xC2, 0xB5] @ ''s'')
      else fmt_decimal n 0 1 ''ns'')"

section \<open>The error type\<close>

datatype syn_error =
    Io string
  | Tls string
  | Config string
  | AddrParse string
  | Timeout duration string
  | RateLimited string string
  | Throttled string usize
  | BannedIp string
  | GuardRejected string string
  | MalformedProbe string
  | UnsupportedFeature string
  | Runtime string

fun display_error :: "syn_error \<Rightarrow> string" where
  "display_error (Io e) = ''io error: '' @ e"
| "display_error (Tls m) = ''tls error: '' @ m"
| "display_error (Config m) = ''configuration error: '' @ m"
| "display_error (AddrParse e) = ''address parse error: '' @ e"
| "display_error (Timeout after context) =
     ''timeout after '' @ debug_duration after @ '' while '' @ context"
| "display_error (RateLimited scope key) = ''rate limited: '' @ scope @ '' for '' @ key"
| "display_error (Throttled scope limit) =
     ''connection throttled: '' @ scope @ '' limit '' @ show_nat limit"
| "display_error (BannedIp ip) = ''ip banned: '' @ ip"
| "display_error (GuardRejected guard reason) =
     ''guard '' @ guard @ '' rejected connection: '' @ reason"
| "display_error (MalformedProbe m) = ''malformed probe: '' @ m"
| "display_error (UnsupportedFeature m) = ''unsupported feature: '' @ m"
| "display_error (Runtime m) = ''runtime error: '' @ m"

text \<open>
  The constructor functions; authentication and connection errors reuse the variants \<open>Config\<close> and
  \<open>Runtime\<close>. An error of the TLS library or of a joined task is its text.
\<close>

definition config_error :: "string \<Rightarrow> syn_error" where
  "config_error m = Config m"

definition tls_error :: "string \<Rightarrow> syn_error" where
  "tls_error m = Tls m"

definition runtime_error :: "string \<Rightarrow> syn_error" where
  "runtime_error m = Runtime m"

definition from_rustls_error :: "string \<Rightarrow> syn_error" where
  "from_rustls_error m = tls_error m"

definition from_join_error :: "string \<Rightarrow> syn_error" where
  "from_join_error m = runtime_error m"

definition authentication_error :: "string \<Rightarrow> syn_error" where
  "authentication_error m = Config (''authentication error: '' @ m)"

definition connection_error :: "string \<Rightarrow> syn_error" where
  "connection_error m = Runtime m"

definition guard_rejected :: "string \<Rightarrow> string \<Rightarrow> syn_error" where
  "guard_rejected guard reason = GuardRejected guard reason"

definition rate_limited :: "string \<Rightarrow> string \<Rightarrow> syn_error" where
  "rate_limited scope key = RateLimited scope key"

definition throttled :: "string \<Rightarrow> usize \<Rightarrow> syn_error" where
  "throttled scope limit = Throttled scope limit"

definition timeout :: "duration \<Rightarrow> string \<Rightarrow> syn_error" where
  "timeout after context = Timeout after context"

definition malformed_probe :: "string \<Rightarrow> syn_error" where
  "malformed_probe m = MalformedProbe m"

section \<open>Results\<close>

datatype 'a outcome = Ok 'a | Err syn_error | Panic string

definition is_ok :: "'a outcome \<Rightarrow> bool" where
  "is_ok r = (case r of Ok _ \<Rightarrow> True | _ \<Rightarrow> False)"

lemma is_ok_simps [simp]:
  "is_ok (Ok x)" "\<not> is_ok (Err e)" "\<not> is_ok (Panic m)"
  by (simp_all add: is_ok_def)

lemma is_okE:
  assumes "is_ok (r :: unit outcome)"
  shows "r = Ok ()"
  using assms by (cases r) simp_all

lemma digit_char_inj: "a < 16 \<Longrightarrow> b < 16 \<Longrightarrow> digit_char a = digit_char b \<Longrightarrow> a = b"
  by (simp add: digit_char_def nth_eq_iff_index_eq)

lemma show_radix_not_Nil [simp]: "show_radix r n \<noteq> []"
  by (subst show_radix.simps) simp

lemma show_nat_not_Nil [simp]: "show_nat n \<noteq> []"
  by (simp add: show_nat_def)

lemma debug_duration_examples:
  "debug_duration (secs 15) = ''15s''"
  "debug_duration 1500000 = ''1.5ms''"
  "debug_duration 2000000 = ''2ms''"
  by code_simp+

end
