(* ===== verification/Net_Addr.thy ===== *)
theory Net_Addr
  imports Syn_Error
begin

text \<open>
  Network addresses of the Rust standard library as the crate uses them: \<open>IpAddr\<close> and
  \<open>SocketAddr\<close> values, their \<open>Display\<close> texts (which the load balancer hashes and the errors
  quote) and the address parser behind \<open>str::parse::<IpAddr>\<close> (which \<open>IpPrefix::parse\<close>
  calls).
\<close>

section \<open>Addresses\<close>

datatype ip_addr = V4 u32 | V6 u128

datatype socket_addr =
    SockV4 (v4_ip: u32) (v4_port: u16)
  | SockV6 (v6_ip: u128) (v6_port: u16) (v6_flowinfo: u32) (v6_scope: u32)

fun sa_ip :: "socket_addr \<Rightarrow> ip_addr" where
  "sa_ip (SockV4 ip p) = V4 ip"
| "sa_ip (SockV6 ip p f s) = V6 ip"

fun sa_port :: "socket_addr \<Rightarrow> u16" where
  "sa_port (SockV4 ip p) = p"
| "sa_port (SockV6 ip p f s) = p"

definition ipv4_new :: "u8 \<Rightarrow> u8 \<Rightarrow> u8 \<Rightarrow> u8 \<Rightarrow> u32" where
  "ipv4_new a b c d =
     of_nat (((unat a * 256 + unat b) * 256 + unat c) * 256 + unat d)"

definition ipv6_new :: "u16 list \<Rightarrow> u128" where
  "ipv6_new segs = of_nat (foldl (\<lambda>acc s. acc * 65536 + unat s) 0 segs)"

definition octets :: "u32 \<Rightarrow> nat list" where
  "octets ip = (let n = unat ip in
     [n div 16777216, n div 65536 mod 256, n div 256 mod 256, n mod 256])"

definition segments :: "u128 \<Rightarrow> nat list" where
  "segments ip = (let n = unat ip in map (\<lambda>i. n div 65536 ^ (7 - i) mod 65536) [0..<8])"

text \<open>The order of \<open>IpAddr\<close>: every IPv4 address before every IPv6 address.\<close>

instantiation ip_addr :: linorder
begin

fun less_eq_ip_addr :: "ip_addr \<Rightarrow> ip_addr \<Rightarrow> bool" where
  "less_eq_ip_addr (V4 a) (V4 b) = (a \<le> b)"
| "less_eq_ip_addr (V4 a) (V6 b) = True"
| "less_eq_ip_addr (V6 a) (V4 b) = False"
| "less_eq_ip_addr (V6 a) (V6 b) = (a \<le> b)"

definition less_ip_addr :: "ip_addr \<Rightarrow> ip_addr \<Rightarrow> bool" where
  "less_ip_addr a b = (a \<le> b \<and> \<not> b \<le> a)"

instance
proof
  fix x y z :: ip_addr
  show "(x < y) = (x \<le> y \<and> \<not> y \<le> x)" by (simp add: less_ip_addr_def)
  show "x \<le> x" by (cases x) auto
  show "x \<le> y \<Longrightarrow> y \<le> z \<Longrightarrow> x \<le> z" by (cases x; cases y; cases z) auto
  show "x \<le> y \<Longrightarrow> y \<le> x \<Longrightarrow> x = y" by (cases x; cases y) auto
  show "x \<le> y \<or> y \<le> x" by (cases x; cases y) auto
qed

end

section \<open>Display\<close>

fun join_with :: "string \<Rightarrow> string list \<Rightarrow> string" where
  "join_with sep [] = []"
| "join_with sep [s] = s"
| "join_with sep (s # ss) = s @ sep @ join_with sep ss"

definition display_ipv4 :: "u32 \<Rightarrow> string" where
  "display_ipv4 ip = join_with ''.'' (map show_nat (octets ip))"

text \<open>The longest run of zero segments, the first one among equals: (start, length).\<close>

fun zero_span :: "nat list \<Rightarrow> nat \<Rightarrow> nat \<times> nat \<Rightarrow> nat \<times> nat \<Rightarrow> nat \<times> nat" where
  "zero_span [] i cur best = best"
| "zero_span (s # ss) i (cs, cl) (bs, bl) =
     (if s = 0 then
        let cs' = (if cl = 0 then i else cs); cl' = cl + 1 in
        zero_span ss (i + 1) (cs', cl') (if bl < cl' then (cs', cl') else (bs, bl))
      else zero_span ss (i + 1) (0, 0) (bs, bl))"

definition display_ipv6 :: "u128 \<Rightarrow> string" where
  "display_ipv6 ip =
     (let segs = segments ip; hex = (\<lambda>ss. join_with '':'' (map show_hex ss)) in
      if take 6 segs = [0, 0, 0, 0, 0, 65535] then
        ''::ffff:'' @ display_ipv4 (of_nat (segs ! 6 * 65536 + segs ! 7))
      else
        let (start, len) = zero_span segs 0 (0, 0) (0, 0) in
        if 1 < len then hex (take start segs) @ ''::'' @ hex (drop (start + len) segs)
        else hex segs)"

fun display_ip :: "ip_addr \<Rightarrow> string" where
  "display_ip (V4 ip) = display_ipv4 ip"
| "display_ip (V6 ip) = display_ipv6 ip"

fun display_socket :: "socket_addr \<Rightarrow> string" where
  "display_socket (SockV4 ip p) = display_ipv4 ip @ '':'' @ show_nat (unat p)"
| "display_socket (SockV6 ip p f s) =
     ''['' @ display_ipv6 ip @ (if s = 0 then [] else ''%'' @ show_nat (unat s)) @ '']:'' @
     show_nat (unat p)"

lemma display_examples:
  "display_ip (V4 (ipv4_new 10 0 0 1)) = ''10.0.0.1''"
  "display_ip (V6 1) = ''::1''"
  "display_socket (SockV6 0xffff7f000001 80 0 0) = ''[::ffff:127.0.0.1]:80''"
  by code_simp+

section \<open>Parsing\<close>

text \<open>
  The parser works on the remaining input; every reader returns the value and the rest, and
  \<open>None\<close> leaves the input untouched (\<open>read_atomically\<close>).
\<close>

definition digit_value :: "nat \<Rightarrow> char \<Rightarrow> nat option" where
  "digit_value radix c =
     (let b = of_char c :: nat;
          v = (if 48 \<le> b \<and> b \<le> 57 then b - 48
               else if 97 \<le> b \<and> b \<le> 122 then b - 87
               else if 65 \<le> b \<and> b \<le> 90 then b - 55 else 36)
      in if v < radix then Some v else None)"

fun read_digits :: "nat \<Rightarrow> string \<Rightarrow> nat list \<times> string" where
  "read_digits radix [] = ([], [])"
| "read_digits radix (c # cs) =
     (case digit_value radix c of
        None \<Rightarrow> ([], c # cs)
      | Some v \<Rightarrow> let (vs, rest) = read_digits radix cs in (v # vs, rest))"

definition value_of :: "nat \<Rightarrow> nat list \<Rightarrow> nat" where
  "value_of radix ds = foldl (\<lambda>acc d. acc * radix + d) 0 ds"

definition read_number :: "nat \<Rightarrow> nat \<Rightarrow> bool \<Rightarrow> nat \<Rightarrow> string \<Rightarrow> (nat \<times> string) option" where
  "read_number radix max_digits allow_zero_prefix bound s =
     (let (ds, rest) = read_digits radix s in
      if max_digits < length ds then None
      else if ds = [] then None
      else if \<not> allow_zero_prefix \<and> hd ds = 0 \<and> 1 < length ds then None
      else if value_of radix ds < bound then Some (value_of radix ds, rest) else None)"

definition read_separator ::
    "char \<Rightarrow> nat \<Rightarrow> (string \<Rightarrow> ('a \<times> string) option) \<Rightarrow> string \<Rightarrow> ('a \<times> string) option" where
  "read_separator sep i inner s =
     (if i = 0 then inner s
      else case s of [] \<Rightarrow> None | c # cs \<Rightarrow> if c = sep then inner cs else None)"

definition read_ipv4 :: "string \<Rightarrow> (nat list \<times> string) option" where
  "read_ipv4 s =
     (case read_separator CHR ''.'' 0 (read_number 10 3 False 256) s of None \<Rightarrow> None
      | Some (a, s1) \<Rightarrow> (case read_separator CHR ''.'' 1 (read_number 10 3 False 256) s1 of None \<Rightarrow> None
      | Some (b, s2) \<Rightarrow> (case read_separator CHR ''.'' 2 (read_number 10 3 False 256) s2 of None \<Rightarrow> None
      | Some (c, s3) \<Rightarrow> (case read_separator CHR ''.'' 3 (read_number 10 3 False 256) s3 of None \<Rightarrow> None
      | Some (d, s4) \<Rightarrow> Some ([a, b, c, d], s4)))))"

text \<open>
  \<open>read_groups limit i\<close> reads the groups \<open>i, \<dots>, limit - 1\<close> of an IPv6 address; the flag
  says that the last two came from an embedded IPv4 address.
\<close>

function read_groups :: "nat \<Rightarrow> nat \<Rightarrow> string \<Rightarrow> nat list \<times> bool \<times> string" where
  "read_groups limit i s =
     (if limit \<le> i then ([], False, s)
      else
        case (if i < limit - 1 then read_separator CHR '':'' i read_ipv4 s else None) of
          Some ([a, b, c, d], s') \<Rightarrow> ([a * 256 + b, c * 256 + d], True, s')
        | _ \<Rightarrow>
          (case read_separator CHR '':'' i (read_number 16 4 True 65536) s of
             None \<Rightarrow> ([], False, s)
           | Some (g, s') \<Rightarrow>
               let (gs, v4, rest) = read_groups limit (i + 1) s' in (g # gs, v4, rest)))"
  by pat_completeness auto
termination
  by (relation "measure (\<lambda>(limit, i, s). limit - i)") auto

declare read_groups.simps [simp del]

definition read_ipv6 :: "string \<Rightarrow> (nat list \<times> string) option" where
  "read_ipv6 s =
     (let (head, head_v4, s1) = read_groups 8 0 s in
      if length head = 8 then Some (head, s1)
      else if head_v4 then None
      else case s1 of
        c1 # c2 # s2 \<Rightarrow>
          if c1 = CHR '':'' \<and> c2 = CHR '':'' then
            let (tail, _, s3) = read_groups (8 - (length head + 1)) 0 s2 in
            Some (head @ replicate (8 - length head - length tail) 0 @ tail, s3)
          else None
      | _ \<Rightarrow> None)"

definition parse_ip :: "string \<Rightarrow> ip_addr option" where
  "parse_ip s =
     (case read_ipv4 s of
        Some (os, rest) \<Rightarrow>
          if rest = [] then Some (V4 (of_nat (value_of 256 os))) else None
      | None \<Rightarrow>
          (case read_ipv6 s of
             Some (gs, rest) \<Rightarrow>
               if rest = [] then Some (V6 (of_nat (value_of 65536 gs))) else None
           | None \<Rightarrow> None))"

text \<open>\<open>str::parse::<u8>\<close>: an optional \<open>+\<close>, then decimal digits, no overflow.\<close>

definition parse_u8 :: "string \<Rightarrow> nat option" where
  "parse_u8 s =
     (let digits = (case s of c # cs \<Rightarrow> if c = CHR ''+'' then cs else s | [] \<Rightarrow> []) in
      let (ds, rest) = read_digits 10 digits in
      if digits = [] \<or> rest \<noteq> [] then None
      else if value_of 10 ds < 256 then Some (value_of 10 ds) else None)"

lemma parse_examples:
  "parse_ip ''10.0.0.1'' = Some (V4 (ipv4_new 10 0 0 1))"
  "parse_ip ''010.0.0.1'' = None"
  "parse_ip ''256.0.0.1'' = None"
  "parse_ip ''::ffff:127.0.0.1'' = Some (V6 0xffff7f000001)"
  "parse_ip ''::'' = Some (V6 0)"
  "parse_ip ''1:2'' = None"
  "parse_u8 ''24'' = Some 24"
  "parse_u8 ''+8'' = Some 8"
  "parse_u8 ''256'' = None"
  "parse_u8 '''' = None"
  by code_simp+

end
