(* ===== verification/Guard_Types.thy ===== *)
theory Guard_Types
  imports Net_Addr
begin

text \<open>
  The vocabulary of the connection guards (src/src/guard/mod.rs): the context a guard is called
  with, decisions and events, and the \<open>Guard\<close> trait. A trait object is modelled by its state
  and a table of its methods, \<open>guard_ops\<close>; a method takes the clock reading of the call, the
  context and the state of the guard, and returns the outcome with the new state. The UDP
  amplification guard, defined in the same source file, is at the end.
\<close>

record guard_context =
  gc_peer_addr :: socket_addr
  gc_peer_ip :: ip_addr
  gc_local_addr :: "socket_addr option"
  gc_tls :: bool
  gc_tls_server_name :: "string option"
  gc_connected_at :: instant

definition guard_context_new ::
    "instant \<Rightarrow> socket_addr \<Rightarrow> socket_addr option \<Rightarrow> bool \<Rightarrow> guard_context" where
  "guard_context_new now peer_addr local_addr tls =
     \<lparr>gc_peer_addr = peer_addr, gc_peer_ip = sa_ip peer_addr, gc_local_addr = local_addr,
      gc_tls = tls, gc_tls_server_name = None, gc_connected_at = now\<rparr>"

text \<open>Every context of the code is built by \<open>GuardContext::new\<close>: its IP is the IP of its address.\<close>

definition context_ok :: "guard_context \<Rightarrow> bool" where
  "context_ok ctx \<longleftrightarrow> gc_peer_ip ctx = sa_ip (gc_peer_addr ctx)"

lemma context_ok_new [simp]: "context_ok (guard_context_new now peer loc tls)"
  by (simp add: context_ok_def guard_context_new_def)

lemma guard_context_new_simps [simp]:
  "gc_peer_addr (guard_context_new now peer loc tls) = peer"
  "gc_peer_ip (guard_context_new now peer loc tls) = sa_ip peer"
  by (simp_all add: guard_context_new_def)

datatype guard_decision = Allow | Deny syn_error

datatype guard_event_kind = Reserve | Established | Payload | Activity | Close

record guard_event =
  ge_guard :: string
  ge_kind :: guard_event_kind
  ge_peer_addr :: socket_addr
  ge_decision :: guard_decision
  ge_detail :: string
  ge_occurred_at :: instant

definition event_detail :: "duration \<Rightarrow> string \<Rightarrow> string" where
  "event_detail d message = message @ '' after '' @ debug_duration d"

section \<open>The Guard trait\<close>

type_synonym 'g hook = "instant \<Rightarrow> guard_context \<Rightarrow> 'g \<Rightarrow> unit outcome \<times> 'g"

record 'g guard_ops =
  guard_name :: "'g \<Rightarrow> string"
  on_reserve :: "'g hook"
  on_established :: "'g hook"
  on_payload :: "u8 list \<Rightarrow> 'g hook"
  on_activity :: "'g hook"
  on_close :: "guard_context \<Rightarrow> 'g \<Rightarrow> 'g"

text \<open>The default methods of the trait.\<close>

definition default_hook :: "'g hook" where
  "default_hook now ctx g = (Ok (), g)"

definition default_payload :: "u8 list \<Rightarrow> 'g hook" where
  "default_payload payload now ctx g = (Ok (), g)"

definition default_close :: "guard_context \<Rightarrow> 'g \<Rightarrow> 'g" where
  "default_close ctx g = g"

section \<open>The UDP amplification guard\<close>

record udp_amplification_config =
  reject_malformed_tcp_probes :: bool
  minimum_probe_bytes :: usize

definition udp_amplification_default :: udp_amplification_config where
  "udp_amplification_default = \<lparr>reject_malformed_tcp_probes = True, minimum_probe_bytes = 4\<rparr>"

definition udp_on_payload :: "udp_amplification_config \<Rightarrow> u8 list \<Rightarrow> unit outcome" where
  "udp_on_payload cfg payload =
     (if reject_malformed_tcp_probes cfg \<and> length payload < minimum_probe_bytes cfg then
        Err (malformed_probe ''payload too small to look like a real TCP conversation'')
      else if reject_malformed_tcp_probes cfg \<and>
              (case payload of [] \<Rightarrow> False | b # _ \<Rightarrow> b = 0) then
        Err (malformed_probe ''first byte looks suspiciously empty'')
      else Ok ())"

lemma udp_on_payload_ok_iff:
  "is_ok (udp_on_payload cfg payload) \<longleftrightarrow>
     reject_malformed_tcp_probes cfg \<longrightarrow>
       minimum_probe_bytes cfg \<le> length payload \<and> (payload = [] \<or> hd payload \<noteq> 0)"
  by (auto simp: udp_on_payload_def split: list.splits)

end
