(* ===== verification/Throttle.thy ===== *)
theory Throttle
  imports Guard_Types
begin

text \<open>
  The concurrent-connection limiter (src/src/guard/throttle.rs). \<open>acquire\<close> and \<open>release\<close> are
  translated statement by statement; the global counter is the atomic \<open>usize\<close> of the code and
  wraps in both directions. The abstract specification is a multiset of the addresses that hold
  a slot, and every operation refines it.
\<close>

record throttle_config =
  max_connections_per_ip :: usize
  max_connections_global :: usize

definition throttle_config_default :: throttle_config where
  "throttle_config_default =
     \<lparr>max_connections_per_ip = 1000, max_connections_global = 100000\<rparr>"

record throttle =
  th_config :: throttle_config
  th_per_ip :: "(ip_addr, usize) fmap"
  th_global :: u64

definition throttle_new :: "throttle_config \<Rightarrow> throttle" where
  "throttle_new cfg = \<lparr>th_config = cfg, th_per_ip = fmempty, th_global = 0\<rparr>"

definition th_acquire :: "ip_addr \<Rightarrow> throttle \<Rightarrow> unit outcome \<times> throttle" where
  "th_acquire ip t =
     (let cfg = th_config t;
          current_global = th_global t + 1;
          t = t\<lparr>th_global := th_global t + 1\<rparr> in
      if max_connections_global cfg < unat current_global then
        (Err (throttled ''global'' (max_connections_global cfg)),
         t\<lparr>th_global := th_global t - 1\<rparr>)
      else
        let current_ip = count_of (th_per_ip t) ip + 1;
            t = t\<lparr>th_per_ip := fmupd ip current_ip (th_per_ip t)\<rparr> in
        if max_connections_per_ip cfg < current_ip then
          (Err (throttled ''per-ip'' (max_connections_per_ip cfg)),
           t\<lparr>th_per_ip := fmupd ip (current_ip - 1) (th_per_ip t), th_global := th_global t - 1\<rparr>)
        else (Ok (), t))"

definition th_release :: "ip_addr \<Rightarrow> throttle \<Rightarrow> throttle" where
  "th_release ip t =
     (let t = t\<lparr>th_global := th_global t - 1\<rparr> in
      case fmlookup (th_per_ip t) ip of
        None \<Rightarrow> t
      | Some n \<Rightarrow>
          if 1 < n then t\<lparr>th_per_ip := fmupd ip (n - 1) (th_per_ip t)\<rparr>
          else t\<lparr>th_per_ip := fmdrop ip (th_per_ip t)\<rparr>)"

definition th_on_reserve :: "guard_context \<Rightarrow> throttle \<Rightarrow> unit outcome \<times> throttle" where
  "th_on_reserve ctx t = th_acquire (gc_peer_ip ctx) t"

definition th_on_close :: "guard_context \<Rightarrow> throttle \<Rightarrow> throttle" where
  "th_on_close ctx t = th_release (gc_peer_ip ctx) t"

section \<open>Specification: the multiset of slot holders\<close>

definition spec_acquire ::
    "throttle_config \<Rightarrow> ip_addr \<Rightarrow> ip_addr multiset \<Rightarrow> unit outcome \<times> ip_addr multiset" where
  "spec_acquire cfg ip live =
     (if max_connections_global cfg \<le> size live then
        (Err (Throttled ''global'' (max_connections_global cfg)), live)
      else if max_connections_per_ip cfg \<le> count live ip then
        (Err (Throttled ''per-ip'' (max_connections_per_ip cfg)), live)
      else (Ok (), add_mset ip live))"

text \<open>The configured limit is below the largest \<open>usize\<close>, so the counter cannot wrap; the table counts what the multiset counts.\<close>

definition th_rel :: "throttle \<Rightarrow> ip_addr multiset \<Rightarrow> bool" where
  "th_rel t live \<longleftrightarrow>
     max_connections_global (th_config t) < usize_max \<and>
     size live \<le> max_connections_global (th_config t) \<and>
     th_global t = of_nat (size live) \<and>
     (\<forall>ip. count_of (th_per_ip t) ip = count live ip)"

lemma th_rel_new:
  "max_connections_global cfg < usize_max \<Longrightarrow> th_rel (throttle_new cfg) {#}"
  by (simp add: th_rel_def throttle_new_def hash_simps)

lemma unat_of_nat_add1:
  assumes "n < usize_max"
  shows "unat (of_nat n + 1 :: u64) = n + 1"
proof -
  have "unat (of_nat (Suc n) :: u64) = Suc n"
    using assms by (simp add: usize_max_def unat_of_nat del: of_nat_Suc)
  then show ?thesis by (simp add: add.commute)
qed

lemma th_rel_global_exceeded:
  assumes "th_rel t live"
  shows "max_connections_global (th_config t) < unat (th_global t + 1) \<longleftrightarrow>
         max_connections_global (th_config t) \<le> size live"
  using assms by (auto simp: th_rel_def unat_of_nat_add1)

lemma th_acquire_refines:
  assumes "th_rel t live"
    and "th_acquire ip t = (r, t')" and "spec_acquire (th_config t) ip live = (r', live')"
  shows "r = r' \<and> th_rel t' live' \<and> th_config t' = th_config t"
  using assms th_rel_global_exceeded [OF assms(1)]
  by (auto simp: th_acquire_def spec_acquire_def Let_def throttled_def th_rel_def hash_simps
      split: if_splits)

lemma th_release_refines:
  assumes "th_rel t live" and "ip \<in># live"
  shows "th_rel (th_release ip t) (live - {#ip#}) \<and> th_config (th_release ip t) = th_config t"
proof -
  have live: "count_of (th_per_ip t) ip = count live ip" "0 < count live ip"
    using assms by (simp_all add: th_rel_def)
  then obtain n where n: "fmlookup (th_per_ip t) ip = Some n" "n = count live ip"
    by (auto simp: count_of_def count_eq_zero_iff split: option.splits)
  have size: "size (live - {#ip#}) = size live - 1" "0 < size live"
    using assms(2) by (auto simp: size_Diff_singleton nonempty_has_size [symmetric])
  have "(of_nat (size live) - 1 :: u64) = of_nat (size live - 1)"
    using size(2) by simp
  then show ?thesis
    using assms n live(2) size by (auto simp: th_release_def Let_def th_rel_def hash_simps)
qed

section \<open>Histories\<close>

text \<open>
  A history of the guard: connections ask for a slot, and a connection that was granted one
  gives it back when it closes. \<open>Release\<close> is called for addresses that hold a slot only: the
  guard stack closes a guard exactly for the reservations it accepted.
\<close>

datatype slot_call = Acquire ip_addr | Release ip_addr

inductive th_history :: "throttle_config \<Rightarrow> throttle \<Rightarrow> ip_addr multiset \<Rightarrow> bool"
  for cfg :: throttle_config where
  start: "th_history cfg (throttle_new cfg) {#}"
| grant: "th_history cfg t live \<Longrightarrow> th_acquire ip t = (Ok (), t') \<Longrightarrow>
    th_history cfg t' (add_mset ip live)"
| refuse: "th_history cfg t live \<Longrightarrow> th_acquire ip t = (Err e, t') \<Longrightarrow> th_history cfg t' live"
| give_back: "th_history cfg t live \<Longrightarrow> ip \<in># live \<Longrightarrow>
    th_history cfg (th_release ip t) (live - {#ip#})"

inductive_cases th_history_startE: "th_history cfg t {#}"

lemma th_history_rel:
  assumes "th_history cfg t live" and "max_connections_global cfg < usize_max"
  shows "th_rel t live \<and> th_config t = cfg \<and> (\<forall>ip. count live ip \<le> max_connections_per_ip cfg)"
  using assms(1)
proof (induction rule: th_history.induct)
  case start
  then show ?case using th_rel_new [OF assms(2)] by (simp add: throttle_new_def)
next
  case (grant t live ip t')
  obtain r live' where s: "spec_acquire (th_config t) ip live = (r, live')" by fastforce
  from th_acquire_refines [OF _ grant.hyps(2) s] grant.IH
  have "r = Ok ()" "th_rel t' live'" "th_config t' = cfg" by auto
  moreover from this(1) s have "live' = add_mset ip live"
    and "count live ip < max_connections_per_ip (th_config t)"
    by (auto simp: spec_acquire_def split: if_splits)
  ultimately show ?case using grant.IH by auto
next
  case (refuse t live ip e t')
  obtain r live' where s: "spec_acquire (th_config t) ip live = (r, live')" by fastforce
  from th_acquire_refines [OF _ refuse.hyps(2) s] refuse.IH
  have "r = Err e" "th_rel t' live'" "th_config t' = cfg" by auto
  moreover from this(1) s have "live' = live" by (auto simp: spec_acquire_def split: if_splits)
  ultimately show ?case using refuse.IH by auto
next
  case (give_back t live ip)
  from th_release_refines [OF _ give_back.hyps(2)] give_back.IH
  have "th_rel (th_release ip t) (live - {#ip#})" "th_config (th_release ip t) = cfg" by auto
  moreover have "count (live - {#ip#}) ip' \<le> max_connections_per_ip cfg" for ip'
  proof -
    have "count live ip' \<le> max_connections_per_ip cfg" using give_back.IH by blast
    then show ?thesis by simp
  qed
  ultimately show ?case by blast
qed

text \<open>With a positive per-address limit the table has an entry for the slot holders only.\<close>

definition th_tight :: "throttle \<Rightarrow> bool" where
  "th_tight t \<longleftrightarrow> (\<forall>ip. fmlookup (th_per_ip t) ip \<noteq> Some 0)"

lemma th_acquire_tight:
  assumes "th_tight t" "0 < max_connections_per_ip (th_config t)" "th_acquire ip t = (r, t')"
  shows "th_tight t'"
  using assms by (auto simp: th_tight_def th_acquire_def Let_def split: if_splits)

lemma th_release_tight: "th_tight t \<Longrightarrow> th_tight (th_release ip t)"
  by (auto simp: th_tight_def th_release_def Let_def split: option.splits)

lemma th_history_tight:
  assumes "th_history cfg t live" "max_connections_global cfg < usize_max"
    "0 < max_connections_per_ip cfg"
  shows "th_tight t"
  using assms(1)
proof (induction rule: th_history.induct)
  case start
  show ?case by (simp add: th_tight_def throttle_new_def)
next
  case (give_back t live ip)
  then show ?case by (blast intro: th_release_tight)
qed (use th_history_rel assms(2,3) in \<open>metis th_acquire_tight\<close>)+

lemma th_table_domain:
  assumes "th_tight t" "th_rel t live"
  shows "fmdom' (th_per_ip t) = set_mset live"
proof (rule set_eqI)
  fix ip
  have c: "count_of (th_per_ip t) ip = count live ip" using assms(2) by (simp add: th_rel_def)
  show "ip \<in> fmdom' (th_per_ip t) \<longleftrightarrow> ip \<in># live"
  proof (cases "fmlookup (th_per_ip t) ip")
    case None
    with c have "count live ip = 0" by (simp add: count_of_def)
    with None show ?thesis by (simp add: fmdom'_notI count_eq_zero_iff)
  next
    case (Some n)
    with c have "count live ip = n" by (simp add: count_of_def)
    moreover have "n \<noteq> 0" using assms(1) Some by (metis th_tight_def)
    ultimately have "0 < count live ip" by simp
    then have "ip \<in># live" by simp
    with Some show ?thesis by (simp add: fmdom'I)
  qed
qed

lemma card_set_mset_le: "card (set_mset M) \<le> size M"
  by (induction M) (auto intro: card_insert_le_m1 le_SucI simp: card_insert_if)

section \<open>Properties\<close>

lemma th_history_counts:
  assumes "th_history cfg t live" and "max_connections_global cfg < usize_max"
  shows "size live \<le> max_connections_global cfg" "count live ip \<le> max_connections_per_ip cfg"
    "unat (th_global t) = size live" "count_of (th_per_ip t) ip = count live ip"
proof -
  from th_history_rel [OF assms] have r: "th_rel t live" "th_config t = cfg"
    and c: "count live ip \<le> max_connections_per_ip cfg" by auto
  then have "size live < usize_max" using assms(2) by (auto simp: th_rel_def)
  then have "unat (of_nat (size live) :: u64) = size live"
    by (simp add: unat_of_nat usize_max_def)
  with r c show "size live \<le> max_connections_global cfg" "count live ip \<le> max_connections_per_ip cfg"
    "unat (th_global t) = size live" "count_of (th_per_ip t) ip = count live ip" by (auto simp: th_rel_def)
qed

text \<open>
  In every history of the throttle the number of connections that hold a slot never exceeds
  the global limit, nor the number of one address the per-address limit; the atomic counter and
  the per-address table count exactly the slot holders.
\<close>

theorem throttle_limits:
  assumes "th_history cfg t live" and "max_connections_global cfg < usize_max"
  shows "size live \<le> max_connections_global cfg \<and>
    count live ip \<le> max_connections_per_ip cfg \<and>
    unat (th_global t) = size live \<and> count_of (th_per_ip t) ip = count live ip"
  using th_history_counts [OF assms] by simp

definition demo_cfg :: throttle_config where
  "demo_cfg = \<lparr>max_connections_per_ip = 1, max_connections_global = 10\<rparr>"

definition demo_throttle :: throttle where
  "demo_throttle = snd (th_acquire (V4 1) (throttle_new demo_cfg))"

lemma demo_history: "th_history demo_cfg demo_throttle {#V4 1#}"
  unfolding demo_throttle_def
  by (rule th_history.grant [OF th_history.start])
     (simp add: demo_cfg_def th_acquire_def throttle_new_def hash_simps)

theorem throttle_limits_witness:
  "unat (th_global demo_throttle) = 1 \<and> count_of (th_per_ip demo_throttle) (V4 1) = 1"
  using throttle_limits [OF demo_history, of "V4 1"] by (simp add: demo_cfg_def usize_max_def)

text \<open>
  In every history a request is granted exactly when both limits have room for it, and a
  refusal names the limit that is exhausted, the global one first: the counter arithmetic of
  \<open>acquire\<close> refines the specification on the multiset of slot holders.
\<close>

theorem throttle_acquire_refines:
  assumes "th_history cfg t live" and "max_connections_global cfg < usize_max"
  shows "fst (th_acquire ip t) = fst (spec_acquire cfg ip live) \<and>
    th_rel (snd (th_acquire ip t)) (snd (spec_acquire cfg ip live))"
proof -
  from th_history_rel [OF assms] have "th_rel t live" "th_config t = cfg" by auto
  from th_acquire_refines [OF this(1), of ip "fst (th_acquire ip t)" "snd (th_acquire ip t)"
      "fst (spec_acquire cfg ip live)" "snd (spec_acquire cfg ip live)"] this(2)
  show ?thesis by simp
qed

theorem throttle_acquire_refines_witness:
  "fst (th_acquire (V4 1) demo_throttle) = Err (Throttled ''per-ip'' 1)"
  using throttle_acquire_refines [OF demo_history, of "V4 1"]
  by (simp add: demo_cfg_def usize_max_def spec_acquire_def)

text \<open>
  With a per-address limit of at least one the per-address table never has more entries than
  there are slot holders, so it is bounded by the global limit.
\<close>

theorem throttle_table_bounded:
  assumes "th_history cfg t live" and "max_connections_global cfg < usize_max"
    and "0 < max_connections_per_ip cfg"
  shows "hash_len (th_per_ip t) \<le> size live \<and> size live \<le> max_connections_global cfg"
proof -
  from th_history_rel [OF assms(1,2)] have r: "th_rel t live" "th_config t = cfg" by auto
  from th_table_domain [OF th_history_tight [OF assms] r(1)]
  have "hash_len (th_per_ip t) = card (set_mset live)" by (simp add: hash_len_def)
  then show ?thesis using r card_set_mset_le [of live] by (simp add: th_rel_def)
qed

theorem throttle_table_bounded_witness: "hash_len (th_per_ip demo_throttle) \<le> 1"
  using throttle_table_bounded [OF demo_history] by (simp add: demo_cfg_def usize_max_def)

lemma th_zero_limit_step:
  assumes "max_connections_per_ip (th_config t) = 0" "0 < max_connections_global (th_config t)"
    "th_global t = 0" "\<forall>ip. count_of (th_per_ip t) ip = 0"
  shows "snd (th_acquire ip t) = t\<lparr>th_per_ip := fmupd ip 0 (th_per_ip t)\<rparr>"
proof -
  have "t\<lparr>th_global := 0\<rparr> = t" using assms(3) by simp
  then show ?thesis
    using assms by (simp add: th_acquire_def Let_def hash_simps fmap_ext)
qed

lemma th_zero_limit_run:
  assumes "max_connections_per_ip (th_config t) = 0" "0 < max_connections_global (th_config t)"
    "th_global t = 0" "\<forall>ip. count_of (th_per_ip t) ip = 0"
  shows "fmdom' (th_per_ip (fold (\<lambda>ip t. snd (th_acquire ip t)) ips t)) =
    fmdom' (th_per_ip t) \<union> set ips"
  using assms
proof (induction ips arbitrary: t)
  case Nil
  then show ?case by simp
next
  case (Cons ip ips)
  have "\<forall>ip'. count_of (fmupd ip 0 (th_per_ip t)) ip' = 0"
    using Cons.prems(4) by (simp add: hash_simps)
  with Cons.IH [of "t\<lparr>th_per_ip := fmupd ip 0 (th_per_ip t)\<rparr>"] Cons.prems
  show ?case by (simp add: th_zero_limit_step)
qed

text \<open>
  With a per-address limit of zero nothing bounds the table: every refused address leaves an
  entry behind, although no connection holds a slot.
\<close>

theorem throttle_zero_limit_leaks:
  assumes "max_connections_per_ip cfg = 0" and "0 < max_connections_global cfg" and "distinct ips"
  shows "hash_len (th_per_ip (fold (\<lambda>ip t. snd (th_acquire ip t)) ips (throttle_new cfg))) =
    length ips"
  using th_zero_limit_run [of "throttle_new cfg" ips] assms
  by (simp add: throttle_new_def hash_len_def hash_simps distinct_card)

theorem throttle_zero_limit_leaks_witness:
  "hash_len (th_per_ip (fold (\<lambda>ip t. snd (th_acquire ip t)) [V4 1, V4 2, V4 3]
     (throttle_new \<lparr>max_connections_per_ip = 0, max_connections_global = 10\<rparr>))) = 3"
  using throttle_zero_limit_leaks
    [of "\<lparr>max_connections_per_ip = 0, max_connections_global = 10\<rparr>" "[V4 1, V4 2, V4 3]"]
  by simp

end
