(* ===== verification/Throttle_Concurrent.thy ===== *)
theory Throttle_Concurrent
  imports Throttle
begin

text \<open>
  The connection limiter under concurrency (src/src/guard/throttle.rs): \<open>acquire\<close> and \<open>release\<close> cut
  into the steps that are atomic in the code (a \<open>fetch_add\<close>, a \<open>fetch_sub\<close>, what is done under the
  lock of the table), and every interleaving of the steps of any number of calls.
\<close>

section \<open>The atomic steps\<close>

text \<open>
  Where a call stands. \<open>Locking\<close>: counted, under the global limit, about to lock the table;
  \<open>UndoGlobal\<close>: counted, over the global limit; \<open>UndoPerIp\<close>: over the limit of its address, the table
  restored but still locked, about to take the global count back; \<open>Granted\<close>: \<open>acquire\<close> has returned
  \<open>Ok\<close> and \<open>release\<close> has not begun; \<open>Returning\<close>: in \<open>release\<close>, the global count taken back.
\<close>

datatype slot_phase = Locking | UndoGlobal | UndoPerIp | Granted | Returning

definition acquire_count :: "throttle \<Rightarrow> slot_phase \<times> throttle" where
  "acquire_count t =
     (let current_global = th_global t + 1; t = t\<lparr>th_global := th_global t + 1\<rparr> in
      (if max_connections_global (th_config t) < unat current_global then UndoGlobal else Locking, t))"

definition global_sub :: "throttle \<Rightarrow> throttle" where
  "global_sub t = t\<lparr>th_global := th_global t - 1\<rparr>"

definition acquire_locked :: "ip_addr \<Rightarrow> throttle \<Rightarrow> slot_phase \<times> throttle" where
  "acquire_locked ip t =
     (let current_ip = count_of (th_per_ip t) ip + 1 in
      if max_connections_per_ip (th_config t) < current_ip
      then (UndoPerIp, t\<lparr>th_per_ip := fmupd ip (current_ip - 1) (th_per_ip t)\<rparr>)
      else (Granted, t\<lparr>th_per_ip := fmupd ip current_ip (th_per_ip t)\<rparr>))"

definition release_locked :: "ip_addr \<Rightarrow> throttle \<Rightarrow> throttle" where
  "release_locked ip t =
     (case fmlookup (th_per_ip t) ip of
        None \<Rightarrow> t
      | Some n \<Rightarrow>
          if 1 < n then t\<lparr>th_per_ip := fmupd ip (n - 1) (th_per_ip t)\<rparr>
          else t\<lparr>th_per_ip := fmdrop ip (th_per_ip t)\<rparr>)"

lemmas slot_steps = acquire_count_def global_sub_def acquire_locked_def release_locked_def Let_def

text \<open>A call whose steps are not interrupted is the sequential \<open>acquire\<close> or \<open>release\<close>.\<close>

lemma th_acquire_steps:
  "th_acquire ip t =
     (case acquire_count t of
        (UndoGlobal, t) \<Rightarrow> (Err (throttled ''global'' (max_connections_global (th_config t))), global_sub t)
      | (_, t) \<Rightarrow>
          (case acquire_locked ip t of
             (UndoPerIp, t) \<Rightarrow> (Err (throttled ''per-ip'' (max_connections_per_ip (th_config t))), global_sub t)
           | (_, t) \<Rightarrow> (Ok (), t)))"
  by (simp add: th_acquire_def slot_steps)

lemma th_release_steps: "th_release ip t = release_locked ip (global_sub t)"
  by (simp add: th_release_def slot_steps)

section \<open>Every interleaving\<close>

text \<open>
  The calls in progress and the slots held, each with its address. The table is locked while some call
  is in \<open>UndoPerIp\<close>. There are never as many calls and connections as a \<open>usize\<close> can count.
\<close>

type_synonym slot_calls = "(ip_addr \<times> slot_phase) multiset"

definition lock_free :: "slot_calls \<Rightarrow> bool" where
  "lock_free M \<longleftrightarrow> (\<forall>p \<in># M. snd p \<noteq> UndoPerIp)"

inductive th_concurrent :: "throttle_config \<Rightarrow> throttle \<Rightarrow> slot_calls \<Rightarrow> bool"
  for cfg :: throttle_config where
  start: "th_concurrent cfg (throttle_new cfg) {#}"
| counted: "th_concurrent cfg t M \<Longrightarrow> size M < usize_max \<Longrightarrow> acquire_count t = (ph, t') \<Longrightarrow>
    th_concurrent cfg t' (add_mset (ip, ph) M)"
| over_global: "th_concurrent cfg t (add_mset (ip, UndoGlobal) M) \<Longrightarrow> th_concurrent cfg (global_sub t) M"
| locked: "th_concurrent cfg t (add_mset (ip, Locking) M) \<Longrightarrow> lock_free M \<Longrightarrow>
    acquire_locked ip t = (ph, t') \<Longrightarrow> th_concurrent cfg t' (add_mset (ip, ph) M)"
| over_per_ip: "th_concurrent cfg t (add_mset (ip, UndoPerIp) M) \<Longrightarrow> th_concurrent cfg (global_sub t) M"
| returning: "th_concurrent cfg t (add_mset (ip, Granted) M) \<Longrightarrow>
    th_concurrent cfg (global_sub t) (add_mset (ip, Returning) M)"
| returned: "th_concurrent cfg t (add_mset (ip, Returning) M) \<Longrightarrow> lock_free M \<Longrightarrow>
    th_concurrent cfg (release_locked ip t) M"

text \<open>Calls in given phases: all of them, and those of one address.\<close>

definition calls_in :: "slot_phase set \<Rightarrow> slot_calls \<Rightarrow> nat" where
  "calls_in phs M = size (filter_mset (\<lambda>p. snd p \<in> phs) M)"

definition calls_of :: "ip_addr \<Rightarrow> slot_phase set \<Rightarrow> slot_calls \<Rightarrow> nat" where
  "calls_of ip phs M = size (filter_mset (\<lambda>p. fst p = ip \<and> snd p \<in> phs) M)"

lemma calls_simps [simp]:
  "calls_in phs {#} = 0" "calls_of ip phs {#} = 0"
  "calls_in phs (add_mset p M) = of_bool (snd p \<in> phs) + calls_in phs M"
  "calls_of ip phs (add_mset p M) = of_bool (fst p = ip \<and> snd p \<in> phs) + calls_of ip phs M"
  by (simp_all add: calls_in_def calls_of_def)

lemma calls_le_size: "calls_in phs M \<le> size M"
  by (simp add: calls_in_def size_filter_mset_lesseq)

lemma calls_in_mono: "A \<subseteq> B \<Longrightarrow> calls_in A M \<le> calls_in B M"
  by (induction M) auto

lemma calls_of_mono: "A \<subseteq> B \<Longrightarrow> calls_of ip A M \<le> calls_of ip B M"
  by (induction M) auto

abbreviation counted_calls :: "slot_calls \<Rightarrow> nat" where
  "counted_calls \<equiv> calls_in {Locking, UndoGlobal, UndoPerIp, Granted}"

abbreviation passed_calls :: "slot_calls \<Rightarrow> nat" where
  "passed_calls \<equiv> calls_in {Locking, UndoPerIp, Granted}"

abbreviation listed_calls :: "ip_addr \<Rightarrow> slot_calls \<Rightarrow> nat" where
  "listed_calls ip \<equiv> calls_of ip {Granted, Returning}"

definition slots_inv :: "throttle_config \<Rightarrow> throttle \<Rightarrow> slot_calls \<Rightarrow> bool" where
  "slots_inv cfg t M \<longleftrightarrow>
     th_config t = cfg \<and> size M \<le> usize_max \<and> th_global t = of_nat (counted_calls M) \<and>
     passed_calls M \<le> max_connections_global cfg \<and>
     (\<forall>ip. count_of (th_per_ip t) ip = listed_calls ip M \<and> listed_calls ip M \<le> max_connections_per_ip cfg)"

lemma slots_inv_counted:
  assumes "slots_inv cfg t M" "size M < usize_max" "acquire_count t = (ph, t')"
  shows "slots_inv cfg t' (add_mset (ip, ph) M)"
proof -
  have "counted_calls M < usize_max" using assms(2) calls_le_size [of _ M] by (meson le_less_trans)
  then have g: "unat (of_nat (counted_calls M) + 1 :: u64) = counted_calls M + 1" by (rule unat_of_nat_add1)
  moreover have "passed_calls M \<le> counted_calls M" by (rule calls_in_mono) auto
  ultimately show ?thesis
    using assms by (auto simp: slots_inv_def acquire_count_def Let_def split: if_splits)
qed

lemma slots_inv_undo:
  assumes "slots_inv cfg t (add_mset (ip, ph) M)" "ph = UndoGlobal \<or> ph = UndoPerIp"
  shows "slots_inv cfg (global_sub t) M"
  using assms by (auto simp: slots_inv_def global_sub_def)

lemma slots_inv_locked:
  assumes inv: "slots_inv cfg t (add_mset (ip, Locking) M)" and "acquire_locked ip t = (ph, t')"
  shows "slots_inv cfg t' (add_mset (ip, ph) M)"
proof -
  have "count_of (th_per_ip t) ip = listed_calls ip M" "th_config t = cfg"
    using inv by (simp_all add: slots_inv_def)
  then show ?thesis
    using assms by (auto simp: slots_inv_def acquire_locked_def Let_def hash_simps split: if_splits)
qed

lemma slots_inv_returning:
  "slots_inv cfg t (add_mset (ip, Granted) M) \<Longrightarrow> slots_inv cfg (global_sub t) (add_mset (ip, Returning) M)"
  by (auto simp: slots_inv_def global_sub_def)

lemma release_locked_count:
  assumes "0 < count_of (th_per_ip t) ip"
  shows "count_of (th_per_ip (release_locked ip t)) ip' = count_of (th_per_ip t) ip' - of_bool (ip = ip')"
    "th_config (release_locked ip t) = th_config t" "th_global (release_locked ip t) = th_global t"
  using assms by (auto simp: release_locked_def count_of_def split: option.splits)

lemma slots_inv_returned:
  assumes "slots_inv cfg t (add_mset (ip, Returning) M)"
  shows "slots_inv cfg (release_locked ip t) M"
proof -
  have "0 < count_of (th_per_ip t) ip" using assms by (simp add: slots_inv_def)
  note rel = release_locked_count [OF this]
  have "listed_calls ip' M \<le> max_connections_per_ip cfg" for ip'
    using assms unfolding slots_inv_def by (metis add_leD2 calls_simps(4))
  then show ?thesis using assms rel by (simp add: slots_inv_def)
qed

lemma th_concurrent_inv: "th_concurrent cfg t M \<Longrightarrow> slots_inv cfg t M"
proof (induction rule: th_concurrent.induct)
  case start
  show ?case by (simp add: slots_inv_def throttle_new_def hash_simps)
qed (blast intro: slots_inv_counted slots_inv_undo slots_inv_locked slots_inv_returning slots_inv_returned)+

section \<open>Properties\<close>

text \<open>
  C5. The limits of the throttle hold under concurrency: however the atomic steps of any number of
  \<open>acquire\<close> and \<open>release\<close> calls interleave, never more connections hold a slot than the global limit
  allows, nor more of one address than its limit; the atomic counter is the number of slots held and
  of acquisitions not yet decided or taken back, the table counts the slots of each address that are
  held or being returned; and when no call is in progress both are exact.
\<close>

theorem throttle_concurrent_limits:
  assumes "th_concurrent cfg t M"
  shows "calls_in {Granted} M \<le> max_connections_global cfg \<and>
    calls_of ip {Granted} M \<le> max_connections_per_ip cfg \<and>
    unat (th_global t) = calls_in {Locking, UndoGlobal, UndoPerIp, Granted} M \<and>
    count_of (th_per_ip t) ip = calls_of ip {Granted, Returning} M \<and>
    ((\<forall>p \<in># M. snd p = Granted) \<longrightarrow>
       unat (th_global t) = size M \<and> count_of (th_per_ip t) ip = size (filter_mset (\<lambda>p. fst p = ip) M))"
proof -
  have inv: "slots_inv cfg t M" by (rule th_concurrent_inv [OF assms])
  have "counted_calls M \<le> usize_max" using inv calls_le_size [of _ M] by (auto simp: slots_inv_def intro: order_trans)
  then have g: "unat (th_global t) = counted_calls M"
    using inv by (simp add: slots_inv_def usize_max_def unat_of_nat)
  have granted: "calls_in {Granted} M \<le> passed_calls M" "calls_of ip {Granted} M \<le> listed_calls ip M"
    by (rule calls_in_mono, simp, rule calls_of_mono, simp)
  have quiet: "counted_calls M = size M \<and> listed_calls ip M = size (filter_mset (\<lambda>p. fst p = ip) M)"
    if "\<forall>p \<in># M. snd p = Granted"
  proof -
    have "filter_mset (\<lambda>p. snd p \<in> {Locking, UndoGlobal, UndoPerIp, Granted}) M = filter_mset (\<lambda>_. True) M"
      "filter_mset (\<lambda>p. fst p = ip \<and> snd p \<in> {Granted, Returning}) M = filter_mset (\<lambda>p. fst p = ip) M"
      by (rule filter_mset_cong; use that in auto)+
    then show ?thesis by (simp add: calls_in_def calls_of_def)
  qed
  show ?thesis
  proof (intro conjI impI)
    show "calls_in {Granted} M \<le> max_connections_global cfg" "calls_of ip {Granted} M \<le> max_connections_per_ip cfg"
      "count_of (th_per_ip t) ip = listed_calls ip M"
      using inv granted by (auto simp: slots_inv_def intro: order_trans)
  qed (use g quiet inv in \<open>auto simp: slots_inv_def\<close>)
qed

text \<open>
  Two addresses, two slots, one slot for each address: the first address holds its slot and asks for
  another one; while that request is counted but not yet refused, the second address asks.
\<close>

definition racing_cfg :: throttle_config where
  "racing_cfg = \<lparr>max_connections_per_ip = 1, max_connections_global = 2\<rparr>"

definition racing_throttle :: throttle where
  "racing_throttle = \<lparr>th_config = racing_cfg, th_per_ip = fmupd (V4 1) 1 fmempty, th_global = 3\<rparr>"

lemma racing_run:
  "th_concurrent racing_cfg racing_throttle {#(V4 2, UndoGlobal), (V4 1, Locking), (V4 1, Granted)#}"
proof -
  let ?t = "\<lambda>m g. \<lparr>th_config = racing_cfg, th_per_ip = m, th_global = g\<rparr>"
  let ?held = "fmupd (V4 1) 1 fmempty"
  have "th_concurrent racing_cfg (?t fmempty 0) {#}"
    using th_concurrent.start [of racing_cfg] by (simp add: throttle_new_def)
  then have "th_concurrent racing_cfg (?t fmempty 1) {#(V4 1, Locking)#}"
    by (rule th_concurrent.counted) (simp_all add: acquire_count_def racing_cfg_def usize_max_def)
  then have "th_concurrent racing_cfg (?t ?held 1) {#(V4 1, Granted)#}"
    by (rule th_concurrent.locked) (simp_all add: acquire_locked_def racing_cfg_def lock_free_def hash_simps)
  then have "th_concurrent racing_cfg (?t ?held 2) {#(V4 1, Locking), (V4 1, Granted)#}"
    by (rule th_concurrent.counted) (simp_all add: acquire_count_def racing_cfg_def usize_max_def)
  then have "th_concurrent racing_cfg (?t ?held 3) {#(V4 2, UndoGlobal), (V4 1, Locking), (V4 1, Granted)#}"
    by (rule th_concurrent.counted) (simp_all add: acquire_count_def racing_cfg_def usize_max_def)
  then show ?thesis by (simp add: racing_throttle_def)
qed

theorem throttle_concurrent_limits_witness:
  "unat (th_global racing_throttle) = 3 \<and> count_of (th_per_ip racing_throttle) (V4 1) = 1 \<and>
   calls_in {Granted} {#(V4 2, UndoGlobal), (V4 1, Locking), (V4 1, Granted)#} \<le> 2"
  using throttle_concurrent_limits [OF racing_run, of "V4 1"] by (simp add: racing_cfg_def)

text \<open>
  The refusal of the second address in that run is one that no order of whole calls gives: with the
  first slot held, it is granted both before and after the second request of the first address.
\<close>

lemma throttle_refuses_spuriously:
  fixes t1 :: throttle
  defines "t1 \<equiv> snd (th_acquire (V4 1) (throttle_new racing_cfg))"
  shows "th_concurrent racing_cfg racing_throttle {#(V4 2, UndoGlobal), (V4 1, Locking), (V4 1, Granted)#} \<and>
    fst (th_acquire (V4 2) t1) = Ok () \<and> fst (th_acquire (V4 2) (snd (th_acquire (V4 1) t1))) = Ok ()"
  using racing_run
  by (simp add: t1_def th_acquire_def throttle_new_def racing_cfg_def hash_simps Let_def)

end
