(* ===== verification/Float64.thy ===== *)
theory Float64
  imports Complex_Main Prelude "HOL-Library.Log_Nat"
begin

text \<open>
  The \<open>f64\<close> arithmetic of the token buckets (guard/rate\_limiter.rs) and of the latency averages
  (metrics.rs). A finite non-negative \<open>f64\<close> is the rational it denotes; every arithmetic
  operation of the source is the exact rational operation followed by \<open>f64_round\<close>, the
  round-to-nearest, ties-to-even rounding to a 53-bit significand that IEEE 754 prescribes. The
  values of the code are zero or lie between \<open>1e-9\<close> and \<open>2 ^ 97\<close>, so neither subnormals
  nor overflow to infinity occur and the exponent range is left unbounded.
\<close>

section \<open>Rounding\<close>

text \<open>The binary exponent: \<open>2 ^ e \<le> x < 2 ^ (e + 1)\<close>.\<close>

definition f64_exponent :: "rat \<Rightarrow> int" where
  "f64_exponent x =
     (if 1 \<le> x then int (floorlog 2 (nat \<lfloor>x\<rfloor>)) - 1
      else - int (floorlog 2 (nat (\<lceil>1 / x\<rceil> - 1))))"

definition round_half_even :: "rat \<Rightarrow> int" where
  "round_half_even q =
     (let f = \<lfloor>q\<rfloor>; r = q - of_int f in
      if r < 1 / 2 then f else if 1 / 2 < r then f + 1 else if even f then f else f + 1)"

definition f64_round :: "rat \<Rightarrow> rat" where
  "f64_round x =
     (if x \<le> 0 then 0
      else let u = 2 powi (f64_exponent x - 52) in of_int (round_half_even (x / u)) * u)"

definition f64_add :: "rat \<Rightarrow> rat \<Rightarrow> rat" where
  "f64_add a b = f64_round (a + b)"

definition f64_sub :: "rat \<Rightarrow> rat \<Rightarrow> rat" where
  "f64_sub a b = f64_round (a - b)"

definition f64_mul :: "rat \<Rightarrow> rat \<Rightarrow> rat" where
  "f64_mul a b = f64_round (a * b)"

definition f64_div :: "rat \<Rightarrow> rat \<Rightarrow> rat" where
  "f64_div a b = f64_round (a / b)"

definition f64_of_nat :: "nat \<Rightarrow> rat" where
  "f64_of_nat n = f64_round (of_nat n)"

text \<open>\<open>Duration::as_secs_f64\<close>: the seconds plus the nanoseconds divided by \<open>1e9\<close>.\<close>

definition as_secs_f64 :: "duration \<Rightarrow> rat" where
  "as_secs_f64 d =
     f64_add (f64_of_nat (d div nanos_per_sec))
       (f64_div (f64_of_nat (d mod nanos_per_sec)) (of_nat nanos_per_sec))"

section \<open>Laws\<close>

lemma two_power_le_of_nat: "2 ^ k \<le> n \<Longrightarrow> (2::rat) ^ k \<le> of_nat n"
  using of_nat_mono [of "2 ^ k" n, where ?'a = rat] by simp

lemma of_nat_less_two_power: "n < 2 ^ k \<Longrightarrow> of_nat n + 1 \<le> (2::rat) ^ k"
  using of_nat_mono [of "Suc n" "2 ^ k", where ?'a = rat] by simp

lemma f64_exponent_bounds:
  assumes "0 < x"
  shows "2 powi f64_exponent x \<le> x" and "x < 2 powi (f64_exponent x + 1)"
proof -
  have "2 powi f64_exponent x \<le> x \<and> x < 2 powi (f64_exponent x + 1)"
  proof (cases "1 \<le> x")
    case True
    define n where "n = nat \<lfloor>x\<rfloor>"
    have n: "0 < n" "of_nat n \<le> x" "x < of_nat n + 1"
      using True unfolding n_def by linarith+
    let ?k = "floorlog 2 n"
    have b: "2 ^ (?k - 1) \<le> n" "n < 2 ^ ?k"
      using floorlog_bounds [of n 2] n(1) by simp_all
    have k: "0 < ?k" using b n(1) by (cases ?k) auto
    have "(2::rat) ^ (?k - 1) \<le> of_nat n"
      using b(1) by (rule two_power_le_of_nat)
    moreover have "of_nat n + 1 \<le> (2::rat) ^ ?k"
      using b(2) by (rule of_nat_less_two_power)
    moreover have e: "f64_exponent x = int (?k - 1)" "f64_exponent x + 1 = int ?k"
      using True k by (simp_all add: f64_exponent_def n_def [symmetric])
    moreover have "2 powi f64_exponent x = (2::rat) ^ (?k - 1)"
      by (simp only: e(1) power_int_of_nat)
    moreover have "2 powi (f64_exponent x + 1) = (2::rat) ^ ?k"
      by (simp only: e(2) power_int_of_nat)
    ultimately show ?thesis using n by linarith
  next
    case False
    define c where "c = nat (\<lceil>1 / x\<rceil> - 1)"
    have inv: "1 < 1 / x" using False assms by simp
    have c: "0 < c" "of_nat c < 1 / x" "1 / x \<le> of_nat c + 1"
      using inv unfolding c_def by linarith+
    let ?k = "floorlog 2 c"
    have b: "2 ^ (?k - 1) \<le> c" "c < 2 ^ ?k"
      using floorlog_bounds [of c 2] c(1) by simp_all
    have k: "0 < ?k" using b c(1) by (cases ?k) auto
    have l: "(2::rat) ^ (?k - 1) \<le> of_nat c"
      using b(1) by (rule two_power_le_of_nat)
    have u: "of_nat c + 1 \<le> (2::rat) ^ ?k"
      using b(2) by (rule of_nat_less_two_power)
    have "1 / x \<le> 2 ^ ?k" using c(3) u by linarith
    then have lo: "1 / 2 ^ ?k \<le> x" using assms by (simp add: field_simps)
    have "2 ^ (?k - 1) < 1 / x" using c(2) l by linarith
    then have hi: "x < 1 / 2 ^ (?k - 1)" using assms by (simp add: field_simps)
    have e: "f64_exponent x = - int ?k" "f64_exponent x + 1 = - int (?k - 1)"
      using False k by (simp_all add: f64_exponent_def c_def [symmetric])
    have "2 powi f64_exponent x = 1 / (2::rat) ^ ?k"
      by (simp only: e(1) power_int_minus_divide power_int_of_nat)
    moreover have "2 powi (f64_exponent x + 1) = 1 / (2::rat) ^ (?k - 1)"
      by (simp only: e(2) power_int_minus_divide power_int_of_nat)
    ultimately show ?thesis using lo hi by linarith
  qed
  then show "2 powi f64_exponent x \<le> x" and "x < 2 powi (f64_exponent x + 1)" by simp_all
qed

lemma round_half_even_of_int [simp]: "round_half_even (of_int n) = n"
  by (simp add: round_half_even_def)

lemma round_half_even_mono: "p \<le> q \<Longrightarrow> round_half_even p \<le> round_half_even q"
proof -
  assume le: "p \<le> q"
  show ?thesis
  proof (cases "\<lfloor>p\<rfloor> = \<lfloor>q\<rfloor>")
    case True
    then show ?thesis using le by (auto simp: round_half_even_def Let_def)
  next
    case False
    with floor_mono [OF le] have "\<lfloor>p\<rfloor> + 1 \<le> \<lfloor>q\<rfloor>" by linarith
    then show ?thesis by (auto simp: round_half_even_def Let_def)
  qed
qed

lemma f64_exponent_mono:
  assumes "0 < x" "x \<le> y"
  shows "f64_exponent x \<le> f64_exponent y"
proof (rule ccontr)
  assume "\<not> ?thesis"
  then have "f64_exponent y + 1 \<le> f64_exponent x" by simp
  then have "(2::rat) powi (f64_exponent y + 1) \<le> 2 powi f64_exponent x"
    by (rule power_int_increasing) simp
  moreover have "0 < y" using assms by linarith
  ultimately show False
    using f64_exponent_bounds [OF assms(1)] f64_exponent_bounds [of y] assms by linarith
qed

lemma power_int_split: "(2::rat) powi (e - 52) * 2 ^ 52 = 2 powi e"
  by (simp add: power_int_diff)

lemma f64_round_in_binade:
  assumes "0 < x"
  shows "2 powi f64_exponent x \<le> f64_round x" and "f64_round x \<le> 2 powi (f64_exponent x + 1)"
proof -
  define e where "e = f64_exponent x"
  define u :: rat where "u = 2 powi (e - 52)"
  have u: "0 < u" by (simp add: u_def)
  have p: "2 powi e = of_int (2 ^ 52) * u"
    using power_int_split [of e] by (simp add: u_def mult.commute)
  have p1: "2 powi (e + 1) = of_int (2 ^ 53) * u"
    using p by (simp add: power_int_add_1)
  have "of_int (2 ^ 52) \<le> x / u" "x / u \<le> of_int (2 ^ 53)"
    using f64_exponent_bounds [OF assms] u p p1 unfolding e_def [symmetric]
    by (simp_all add: field_simps)
  from this [THEN round_half_even_mono]
  have "2 ^ 52 \<le> round_half_even (x / u)" "round_half_even (x / u) \<le> 2 ^ 53"
    by (simp_all only: round_half_even_of_int)
  then have "of_int (2 ^ 52) * u \<le> of_int (round_half_even (x / u)) * u"
    and "of_int (round_half_even (x / u)) * u \<le> of_int (2 ^ 53) * u"
    using u by (simp_all only: mult_le_cancel_right_pos of_int_le_iff)
  moreover have "f64_round x = of_int (round_half_even (x / u)) * u"
    using assms by (simp add: f64_round_def u_def e_def Let_def)
  ultimately show "2 powi f64_exponent x \<le> f64_round x"
    and "f64_round x \<le> 2 powi (f64_exponent x + 1)"
    using p p1 unfolding e_def [symmetric] by simp_all
qed

lemma f64_round_nonneg [simp]: "0 \<le> f64_round x"
proof (cases "0 < x")
  case True
  then show ?thesis using f64_round_in_binade(1) [OF True] by (meson order_trans zero_le_power_int zero_le_numeral)
next
  case False
  then show ?thesis by (simp add: f64_round_def)
qed

lemma f64_round_mono:
  assumes "x \<le> y"
  shows "f64_round x \<le> f64_round y"
proof (cases "0 < x")
  case False
  then show ?thesis by (simp add: f64_round_def [of x])
next
  case True
  then have y: "0 < y" using assms by linarith
  show ?thesis
  proof (cases "f64_exponent x = f64_exponent y")
    case same: True
    then have "x / 2 powi (f64_exponent x - 52) \<le> y / 2 powi (f64_exponent y - 52)"
      using assms by (simp add: divide_right_mono)
    then show ?thesis
      using True y same by (simp add: f64_round_def Let_def round_half_even_mono mult_right_mono)
  next
    case False
    with f64_exponent_mono [OF True assms] have "f64_exponent x + 1 \<le> f64_exponent y" by simp
    then have "(2::rat) powi (f64_exponent x + 1) \<le> 2 powi f64_exponent y"
      by (rule power_int_increasing) simp
    then show ?thesis
      using f64_round_in_binade(2) [OF True] f64_round_in_binade(1) [OF y] by linarith
  qed
qed

text \<open>Natural numbers up to \<open>2 ^ 53\<close> are exact.\<close>

lemma f64_round_of_nat:
  assumes "n \<le> 2 ^ 53"
  shows "f64_round (of_nat n) = of_nat n"
proof (cases "n = 0 \<or> n = 2 ^ 53")
  case True
  have "f64_exponent (9007199254740992) = 53"
  proof -
    have "floorlog 2 1 = 1" by (simp add: floorlog_def)
    then have "floorlog 2 (2 ^ 53) = 54" using floorlog_power [of 1 2 53] by simp
    then show ?thesis by (simp add: f64_exponent_def)
  qed
  then have "f64_round 9007199254740992 = 9007199254740992"
    by (simp add: f64_round_def Let_def round_half_even_def)
  then show ?thesis using True by (auto simp: f64_round_def)
next
  case False
  then have n: "0 < n" "n < 2 ^ 53" using assms by auto
  define e where "e = f64_exponent (of_nat n)"
  have "2 powi e \<le> (of_nat n :: rat)"
    using f64_exponent_bounds(1) [of "of_nat n"] n(1) by (simp add: e_def)
  also have "(of_nat n :: rat) < 2 powi 53"
    using of_nat_less_iff [where ?'a = rat, THEN iffD2, OF n(2)] by simp
  finally have "e < 53" by (rule power_int_le_imp_less_exp [rotated]) simp_all
  define k where "k = nat (52 - e)"
  have k: "e - 52 = - int k" using \<open>e < 53\<close> by (simp add: k_def)
  have "of_nat n / (2::rat) powi (e - 52) = of_int (int n * 2 ^ k)"
    by (simp add: k power_int_minus_divide)
  then show ?thesis
    using n(1) by (simp add: f64_round_def Let_def e_def [symmetric] del: of_int_mult)
       (simp add: k power_int_minus_divide)
qed

end
