(* ===== verification/Rate_Limiter.thy ===== *)
theory Rate_Limiter
  imports Guard_Types Float64
begin

text \<open>
  The rate limiter (src/src/guard/rate\_limiter.rs): token buckets with \<open>f64\<close> tokens, the
  bounded map of per-address buckets with first-in-first-out eviction, the global sliding window,
  and \<open>RateLimiter::allow\<close> that asks the three of them in turn. Each reading of
  \<open>Instant::now()\<close> inside \<open>allow\<close> is an argument of its own.
\<close>

section \<open>Token bucket\<close>

record rate_limiter_config =
  per_ip_capacity :: u32
  per_ip_refill_per_second :: u32
  global_capacity :: u32
  global_refill_per_second :: u32
  global_window :: duration
  global_window_limit :: usize
  max_tracked_ips :: usize

definition rate_limiter_config_default :: rate_limiter_config where
  "rate_limiter_config_default =
     \<lparr>per_ip_capacity = 100, per_ip_refill_per_second = 20, global_capacity = 1000,
      global_refill_per_second = 200, global_window = secs 10, global_window_limit = 5000,
      max_tracked_ips = 100000\<rparr>"

record token_bucket =
  tb_capacity :: u32
  tb_refill_per_second :: u32
  tb_tokens :: rat
  tb_last_refill :: instant

abbreviation f64_of_u32 :: "u32 \<Rightarrow> rat" where
  "f64_of_u32 w \<equiv> f64_of_nat (unat w)"

definition tb_new :: "instant \<Rightarrow> u32 \<Rightarrow> u32 \<Rightarrow> token_bucket" where
  "tb_new now capacity refill =
     \<lparr>tb_capacity = capacity, tb_refill_per_second = refill, tb_tokens = f64_of_u32 capacity,
      tb_last_refill = now\<rparr>"

definition tb_credit :: "instant \<Rightarrow> token_bucket \<Rightarrow> rat" where
  "tb_credit now b =
     f64_mul (as_secs_f64 (duration_since now (tb_last_refill b)))
       (f64_of_u32 (tb_refill_per_second b))"

definition tb_allow :: "instant \<Rightarrow> token_bucket \<Rightarrow> bool \<times> token_bucket" where
  "tb_allow now b =
     (let tokens = min (f64_add (tb_tokens b) (tb_credit now b)) (f64_of_u32 (tb_capacity b));
          b = b\<lparr>tb_last_refill := now, tb_tokens := tokens\<rparr> in
      if 1 \<le> tokens then (True, b\<lparr>tb_tokens := f64_sub tokens 1\<rparr>) else (False, b))"

section \<open>Bounded map of buckets\<close>

record bounded_ip_map =
  bim_map :: "(ip_addr, token_bucket) fmap"
  bim_order :: "ip_addr list"
  bim_max :: usize

definition bim_new :: "usize \<Rightarrow> bounded_ip_map" where
  "bim_new max_ips = \<lparr>bim_map = fmempty, bim_order = [], bim_max = max max_ips 1\<rparr>"

text \<open>The entry is inserted if it is missing; the caller then works on it.\<close>

definition bim_ensure :: "instant \<Rightarrow> ip_addr \<Rightarrow> u32 \<Rightarrow> u32 \<Rightarrow> bounded_ip_map \<Rightarrow> bounded_ip_map" where
  "bim_ensure now ip capacity refill m =
     (if fmlookup (bim_map m) ip \<noteq> None then m
      else
        let m = (if bim_max m \<le> hash_len (bim_map m) then
                   case bim_order m of
                     old # rest \<Rightarrow> m\<lparr>bim_order := rest, bim_map := fmdrop old (bim_map m)\<rparr>
                   | [] \<Rightarrow> m
                 else m) in
        m\<lparr>bim_map := fmupd ip (tb_new now capacity refill) (bim_map m),
          bim_order := bim_order m @ [ip]\<rparr>)"

section \<open>Rate limiter\<close>

record rate_limiter =
  rl_config :: rate_limiter_config
  rl_per_ip :: bounded_ip_map
  rl_global_bucket :: token_bucket
  rl_global_window :: "instant list"

definition rl_new :: "instant \<Rightarrow> rate_limiter_config \<Rightarrow> rate_limiter" where
  "rl_new now cfg =
     \<lparr>rl_config = cfg, rl_per_ip = bim_new (max_tracked_ips cfg),
      rl_global_bucket = tb_new now (global_capacity cfg) (global_refill_per_second cfg),
      rl_global_window = []\<rparr>"

text \<open>The sliding window: expired entries leave at the front, a granted call enters at the back.\<close>

definition window_allow :: "duration \<Rightarrow> usize \<Rightarrow> instant \<Rightarrow> instant list \<Rightarrow> bool \<times> instant list" where
  "window_allow width limit now window =
     (let window = dropWhile (\<lambda>front. width < duration_since now front) window in
      if limit \<le> length window then (False, window) else (True, window @ [now]))"

definition allow_global_window :: "instant \<Rightarrow> rate_limiter \<Rightarrow> bool \<times> rate_limiter" where
  "allow_global_window now rl =
     (let (ok, window) = window_allow (global_window (rl_config rl))
            (global_window_limit (rl_config rl)) now (rl_global_window rl) in
      (ok, rl\<lparr>rl_global_window := window\<rparr>))"

text \<open>
  \<open>allow\<close>: the four clock readings are those of the window, of the global bucket, of a new
  per-address bucket and of the per-address bucket. The last case cannot happen
  (\<open>unreachable!()\<close> in the code).
\<close>

definition rl_allow ::
    "instant \<Rightarrow> instant \<Rightarrow> instant \<Rightarrow> instant \<Rightarrow> ip_addr \<Rightarrow> rate_limiter \<Rightarrow>
     unit outcome \<times> rate_limiter" where
  "rl_allow t1 t2 t3 t4 ip rl =
     (let (ok, rl) = allow_global_window t1 rl in
      if \<not> ok then (Err (rate_limited ''global sliding window'' (display_ip ip)), rl)
      else
        let (ok, bucket) = tb_allow t2 (rl_global_bucket rl);
            rl = rl\<lparr>rl_global_bucket := bucket\<rparr> in
        if \<not> ok then (Err (rate_limited ''global token bucket'' (display_ip ip)), rl)
        else
          let m = bim_ensure t3 ip (per_ip_capacity (rl_config rl))
                    (per_ip_refill_per_second (rl_config rl)) (rl_per_ip rl) in
          case fmlookup (bim_map m) ip of
            None \<Rightarrow> (Panic ''internal error: entered unreachable code'', rl\<lparr>rl_per_ip := m\<rparr>)
          | Some entry \<Rightarrow>
              let (ok, entry) = tb_allow t4 entry;
                  rl = rl\<lparr>rl_per_ip := m\<lparr>bim_map := fmupd ip entry (bim_map m)\<rparr>\<rparr> in
              if ok then (Ok (), rl)
              else (Err (rate_limited ''per-ip token bucket'' (display_ip ip)), rl))"

definition rl_on_reserve :: "instant \<Rightarrow> guard_context \<Rightarrow> rate_limiter \<Rightarrow> unit outcome \<times> rate_limiter" where
  "rl_on_reserve now ctx rl = rl_allow now now now now (gc_peer_ip ctx) rl"

section \<open>The window\<close>

fun window_run :: "duration \<Rightarrow> usize \<Rightarrow> instant list \<Rightarrow> instant list \<Rightarrow> instant list" where
  "window_run width limit window [] = []"
| "window_run width limit window (t # ts) =
     (let (ok, window') = window_allow width limit t window in
      (if ok then [t] else []) @ window_run width limit window' ts)"

definition in_interval :: "instant \<Rightarrow> duration \<Rightarrow> instant list \<Rightarrow> nat" where
  "in_interval a width xs = length (filter (\<lambda>x. a \<le> x \<and> x \<le> a + width) xs)"

lemma in_interval_simps [simp]:
  "in_interval a width [] = 0"
  "in_interval a width (x # xs) =
     (if a \<le> x \<and> x \<le> a + width then Suc (in_interval a width xs) else in_interval a width xs)"
  by (simp_all add: in_interval_def)

lemma window_run_bound:
  assumes "sorted ts" "\<forall>x \<in> set gone. \<forall>t \<in> set ts. width < t - x"
    and "\<forall>a. in_interval a width (gone @ window) \<le> limit"
  shows "in_interval a width (gone @ window @ window_run width limit window ts) \<le> limit"
  using assms
proof (induction ts arbitrary: gone window)
  case Nil
  then show ?case by simp
next
  case (Cons t ts)
  define expired where "expired = takeWhile (\<lambda>x. width < t - x) window"
  define kept where "kept = dropWhile (\<lambda>x. width < t - x) window"
  have window: "window = expired @ kept" by (simp add: expired_def kept_def)
  have allow: "window_allow width limit t window =
      (if limit \<le> length kept then (False, kept) else (True, kept @ [t]))"
    by (simp add: window_allow_def duration_since_def kept_def Let_def)
  have later: "t \<le> u" if "u \<in> set ts" for u using Cons.prems(1) that by simp
  have exp: "\<forall>x \<in> set expired. width < t - x"
    unfolding expired_def by (meson set_takeWhileD)
  then have gone': "\<forall>x \<in> set (gone @ expired). \<forall>u \<in> set ts. width < u - x"
    using Cons.prems(2) later by (fastforce intro: less_le_trans diff_le_mono)
  show ?case
  proof (cases "limit \<le> length kept")
    case True
    have "in_interval a width ((gone @ expired) @ kept @ window_run width limit kept ts) \<le> limit"
    proof (rule Cons.IH)
      show "sorted ts" using Cons.prems(1) by simp
      show "\<forall>a. in_interval a width ((gone @ expired) @ kept) \<le> limit"
        using Cons.prems(3) window by simp
    qed (rule gone')
    then have "in_interval a width (gone @ window @ window_run width limit kept ts) \<le> limit"
      by (simp add: window)
    then show ?thesis using True
      by (auto simp: allow in_interval_def)
  next
    case False
    have new: "\<forall>a. in_interval a width ((gone @ expired) @ kept @ [t]) \<le> limit"
    proof
      fix a
      show "in_interval a width ((gone @ expired) @ kept @ [t]) \<le> limit"
      proof (cases "a \<le> t \<and> t \<le> a + width")
        case inside: True
        have "filter (\<lambda>x. a \<le> x \<and> x \<le> a + width) (gone @ expired) = []"
          using exp Cons.prems(2) inside by (force simp: filter_empty_conv)
        moreover have "length (filter (\<lambda>x. a \<le> x \<and> x \<le> a + width) kept) < limit"
          using False length_filter_le le_less_trans not_le by blast
        ultimately show ?thesis
          using inside by (simp add: in_interval_def)
      next
        case outside: False
        have "in_interval a width (gone @ window) \<le> limit" using Cons.prems(3) by blast
        with outside show ?thesis by (auto simp: in_interval_def window)
      qed
    qed
    have "in_interval a width ((gone @ expired) @ (kept @ [t]) @
        window_run width limit (kept @ [t]) ts) \<le> limit"
      by (rule Cons.IH) (use Cons.prems(1) gone' new in simp_all)
    then have "in_interval a width (gone @ window @ t # window_run width limit (kept @ [t]) ts)
        \<le> limit"
      by (simp add: window)
    then show ?thesis using False by (simp add: allow)
  qed
qed

section \<open>The token bucket\<close>

definition tb_ok :: "token_bucket \<Rightarrow> bool" where
  "tb_ok b \<longleftrightarrow> 0 \<le> tb_tokens b \<and> tb_tokens b \<le> f64_of_u32 (tb_capacity b)"

definition rat_of_u32 :: "u32 \<Rightarrow> rat" where
  "rat_of_u32 w = of_nat (unat w)"

lemma rat_of_u32_nonneg [simp]: "0 \<le> rat_of_u32 w"
  unfolding rat_of_u32_def by (rule of_nat_0_le_iff)

lemma f64_round_u32 [simp]: "f64_round (rat_of_u32 w) = rat_of_u32 w"
proof -
  have "unat w < 2 ^ 32" using unsigned_less [of w] by simp
  then show ?thesis unfolding rat_of_u32_def by (intro f64_round_of_nat) simp
qed

lemma f64_of_u32_exact [simp]: "f64_of_u32 w = rat_of_u32 w"
  unfolding f64_of_nat_def rat_of_u32_def [symmetric] by simp

lemma tb_new_ok: "tb_ok (tb_new now capacity refill)"
  by (simp add: tb_ok_def tb_new_def)

lemma f64_sub_one_le:
  assumes "t \<le> rat_of_u32 c"
  shows "f64_sub t 1 \<le> rat_of_u32 c"
proof -
  have "f64_sub t 1 \<le> f64_round (rat_of_u32 c)"
    unfolding f64_sub_def by (rule f64_round_mono) (use assms in linarith)
  then show ?thesis by simp
qed

lemma tb_allow_ok:
  assumes "tb_ok b" "tb_allow now b = (ok, b')"
  shows "tb_ok b'"
  using assms f64_sub_one_le
  by (auto simp: tb_ok_def tb_allow_def Let_def f64_add_def f64_sub_def min_def split: if_splits)

lemma tb_allow_frame:
  assumes "tb_allow now b = (ok, b')"
  shows "tb_capacity b' = tb_capacity b \<and> tb_refill_per_second b' = tb_refill_per_second b \<and>
    tb_last_refill b' = now"
  using assms by (auto simp: tb_allow_def Let_def split: if_splits)

text \<open>A run of one bucket: the number of calls it grants.\<close>

fun tb_run :: "token_bucket \<Rightarrow> instant list \<Rightarrow> nat \<times> token_bucket" where
  "tb_run b [] = (0, b)"
| "tb_run b (t # ts) =
     (let (ok, b') = tb_allow t b; (n, b'') = tb_run b' ts in (if ok then Suc n else n, b''))"

definition eps :: rat where
  "eps = 1 / 2 ^ 53"

lemma round_half_even_error: "of_int (round_half_even q) \<le> q + 1 / 2"
  unfolding round_half_even_def Let_def by (auto; linarith)

lemma f64_round_le:
  assumes "0 \<le> x"
  shows "f64_round x \<le> x * (1 + eps)"
proof (cases "x = 0")
  case True
  then show ?thesis by (simp add: f64_round_def)
next
  case False
  then have x: "0 < x" using assms by simp
  define u :: rat where "u = 2 powi (f64_exponent x - 52)"
  have u: "0 < u" by (simp add: u_def)
  have "u * 2 ^ 52 \<le> x"
    using f64_exponent_bounds(1) [OF x] power_int_split [of "f64_exponent x"] by (simp add: u_def)
  then have half: "u / 2 \<le> x * eps" by (simp add: eps_def)
  have "of_int (round_half_even (x / u)) * u \<le> (x / u + 1 / 2) * u"
    by (rule mult_right_mono [OF round_half_even_error]) (use u in simp)
  also have "\<dots> = x + u / 2" using u by (simp add: field_simps)
  finally have "of_int (round_half_even (x / u)) * u \<le> x * (1 + eps)"
    using half by (simp add: algebra_simps)
  then show ?thesis using x by (simp add: f64_round_def u_def Let_def)
qed

text \<open>
  One call: the tokens left plus the granted one exceed the tokens before by at most the credit
  and two rounding errors.
\<close>

lemma tb_allow_step:
  assumes "tb_ok b" "tb_allow now b = (ok, b')"
  shows "tb_tokens b' + of_bool ok \<le>
    tb_tokens b + tb_credit now b * (1 + eps) + 2 * eps * rat_of_u32 (tb_capacity b)"
proof -
  let ?cap = "rat_of_u32 (tb_capacity b)"
  let ?c = "tb_credit now b"
  define tokens where "tokens = min (f64_add (tb_tokens b) ?c) ?cap"
  have c: "0 \<le> ?c" by (simp add: tb_credit_def f64_mul_def)
  have b: "0 \<le> tb_tokens b" "tb_tokens b \<le> ?cap" using assms(1) by (simp_all add: tb_ok_def)
  have e: "0 < eps" by (simp add: eps_def)
  have "f64_add (tb_tokens b) ?c \<le> (tb_tokens b + ?c) * (1 + eps)"
    unfolding f64_add_def by (rule f64_round_le) (use b c in simp)
  then have t: "tokens \<le> (tb_tokens b + ?c) * (1 + eps)" "tokens \<le> ?cap"
    by (simp_all add: tokens_def min_le_iff_disj)
  have be: "tb_tokens b * eps \<le> ?cap * eps" using b(2) e by (simp add: mult_right_mono)
  have t1: "tokens \<le> tb_tokens b + ?c * (1 + eps) + eps * ?cap"
    using t(1) be by (simp add: algebra_simps)
  have eq: "tb_allow now b = (if 1 \<le> tokens
      then (True, b\<lparr>tb_last_refill := now, tb_tokens := f64_sub tokens 1\<rparr>)
      else (False, b\<lparr>tb_last_refill := now, tb_tokens := tokens\<rparr>))"
    by (simp add: tb_allow_def tokens_def Let_def)
  show ?thesis
  proof (cases "1 \<le> tokens")
    case True
    have "f64_sub tokens 1 \<le> (tokens - 1) * (1 + eps)"
      unfolding f64_sub_def by (rule f64_round_le) (use True in simp)
    also have "\<dots> \<le> tokens - 1 + eps * ?cap"
      using t(2) e mult_right_mono [of "tokens - 1" ?cap eps] by (simp add: algebra_simps)
    finally show ?thesis using True assms(2) t1 by (auto simp: eq)
  next
    case False
    have "0 \<le> eps * ?cap" using e by simp
    then have "tokens \<le> tb_tokens b + ?c * (1 + eps) + 2 * eps * ?cap" using t1 by linarith
    then show ?thesis using False assms(2) by (auto simp: eq)
  qed
qed

text \<open>The credit of a call is the exact credit, up to four roundings.\<close>

lemma as_secs_f64_le:
  "as_secs_f64 d \<le> of_nat d / of_nat nanos_per_sec * (1 + eps) ^ 2"
proof -
  let ?s = "d div nanos_per_sec" and ?n = "d mod nanos_per_sec"
  have e: "0 < eps" by (simp add: eps_def)
  have "?n < 1000000000" by (simp add: nanos_per_sec_def)
  then have n: "f64_of_nat ?n = of_nat ?n"
    unfolding f64_of_nat_def by (intro f64_round_of_nat) simp
  have "f64_of_nat ?s \<le> of_nat ?s * (1 + eps)"
    unfolding f64_of_nat_def by (rule f64_round_le) simp
  moreover have "f64_div (of_nat ?n) (of_nat nanos_per_sec)
      \<le> of_nat ?n / of_nat nanos_per_sec * (1 + eps)"
    unfolding f64_div_def by (rule f64_round_le) simp
  ultimately have sum: "f64_of_nat ?s + f64_div (of_nat ?n) (of_nat nanos_per_sec)
      \<le> (of_nat ?s + of_nat ?n / of_nat nanos_per_sec) * (1 + eps)"
    by (simp add: distrib_right)
  have "as_secs_f64 d \<le> (f64_of_nat ?s + f64_div (of_nat ?n) (of_nat nanos_per_sec)) * (1 + eps)"
    unfolding as_secs_f64_def f64_add_def n
    by (rule f64_round_le) (simp add: f64_of_nat_def f64_div_def)
  also have "\<dots> \<le> (of_nat ?s + of_nat ?n / of_nat nanos_per_sec) * (1 + eps) * (1 + eps)"
    by (rule mult_right_mono [OF sum]) (use e in simp)
  also have "of_nat ?s + of_nat ?n / of_nat nanos_per_sec = (of_nat d / of_nat nanos_per_sec :: rat)"
  proof -
    have "(of_nat d :: rat) = of_nat (?s * nanos_per_sec + ?n)" by simp
    also have "\<dots> = of_nat ?s * of_nat nanos_per_sec + of_nat ?n" by (simp only: of_nat_add of_nat_mult)
    finally show ?thesis by (simp add: nanos_per_sec_def add_divide_distrib)
  qed
  finally show ?thesis by (simp add: power2_eq_square mult.assoc)
qed

lemma tb_credit_le:
  "tb_credit now b * (1 + eps) \<le> rat_of_u32 (tb_refill_per_second b) *
     (of_nat (now - tb_last_refill b) / of_nat nanos_per_sec) * (1 + eps) ^ 4"
proof -
  let ?d = "now - tb_last_refill b" and ?r = "rat_of_u32 (tb_refill_per_second b)"
  have e: "0 < 1 + eps" by (simp add: eps_def)
  have nn: "0 \<le> as_secs_f64 ?d" by (simp add: as_secs_f64_def f64_add_def)
  have "tb_credit now b \<le> as_secs_f64 ?d * ?r * (1 + eps)"
    unfolding tb_credit_def f64_mul_def duration_since_def f64_of_u32_exact
    by (rule f64_round_le) (use nn in simp)
  also have "\<dots> \<le> of_nat ?d / of_nat nanos_per_sec * (1 + eps) ^ 2 * ?r * (1 + eps)"
    by (intro mult_right_mono as_secs_f64_le) (use e in simp_all)
  finally have "tb_credit now b * (1 + eps) \<le>
      of_nat ?d / of_nat nanos_per_sec * (1 + eps) ^ 2 * ?r * (1 + eps) * (1 + eps)"
    by (rule mult_right_mono) (use e in simp)
  moreover have "q * z ^ 2 * r * z * z = r * q * z ^ 4" for q r z :: rat
    by (simp add: power2_eq_square power4_eq_xxxx)
  ultimately show ?thesis by (simp only:)
qed

lemma tb_run_bound:
  assumes "tb_ok b" "sorted (tb_last_refill b # ts)" "tb_run b ts = (n, b')"
  shows "of_nat n + tb_tokens b' \<le> tb_tokens b +
    rat_of_u32 (tb_refill_per_second b) *
      (of_nat (last (tb_last_refill b # ts) - tb_last_refill b) / of_nat nanos_per_sec) *
      (1 + eps) ^ 4 +
    2 * eps * rat_of_u32 (tb_capacity b) * of_nat (length ts)"
  using assms
proof (induction ts arbitrary: b n)
  case Nil
  then show ?case by simp
next
  case (Cons t ts)
  obtain ok b1 where a: "tb_allow t b = (ok, b1)" by fastforce
  obtain m where r: "tb_run b1 ts = (m, b')" "n = m + of_bool ok"
    using Cons.prems(3) a by (auto split: prod.splits if_splits)
  have f: "tb_capacity b1 = tb_capacity b" "tb_refill_per_second b1 = tb_refill_per_second b"
    "tb_last_refill b1 = t"
    using tb_allow_frame [OF a] by simp_all
  let ?l = "last (t # ts)" and ?p = "tb_last_refill b"
  have le: "?p \<le> t" "t \<le> ?l"
    using Cons.prems(2) by (auto simp: sorted_append dest: last_in_set)
  have "of_nat m + tb_tokens b' \<le> tb_tokens b1 +
      rat_of_u32 (tb_refill_per_second b) * (of_nat (?l - t) / of_nat nanos_per_sec) *
      (1 + eps) ^ 4 + 2 * eps * rat_of_u32 (tb_capacity b) * of_nat (length ts)"
    using Cons.IH [OF tb_allow_ok [OF Cons.prems(1) a] _ r(1)] Cons.prems(2) f by simp
  moreover note tb_allow_step [OF Cons.prems(1) a] tb_credit_le [of t b]
  moreover have "(of_nat (?l - ?p) :: rat) = of_nat (?l - t) + of_nat (t - ?p)"
    using le by (simp flip: of_nat_add)
  ultimately show ?case
    by (simp add: r(2) algebra_simps add_divide_distrib)
qed

lemma unat_u32_le: "unat (w :: u32) \<le> 2 ^ 53"
proof -
  have "unat w < 2 ^ 32" using unsigned_less [of w] by simp
  then show ?thesis by simp
qed

lemma f64_round_0 [simp]: "f64_round 0 = 0"
  by (simp add: f64_round_def)

text \<open>A bucket that earns no credit grants exactly the tokens it holds.\<close>

lemma tb_credit_none:
  assumes "tb_refill_per_second b = 0 \<or> now \<le> tb_last_refill b"
  shows "tb_credit now b = 0"
proof -
  have "as_secs_f64 0 = 0"
    by (simp add: as_secs_f64_def f64_add_def f64_div_def f64_of_nat_def)
  moreover have "rat_of_u32 0 = 0" by (simp add: rat_of_u32_def)
  ultimately show ?thesis
    using assms unfolding tb_credit_def f64_mul_def duration_since_def f64_of_u32_exact by auto
qed

lemma tb_run_no_credit:
  assumes "tb_tokens b = of_nat k" "k \<le> unat (tb_capacity b)"
    and "tb_refill_per_second b = 0 \<or> set ts \<subseteq> {tb_last_refill b}"
  shows "fst (tb_run b ts) = min (length ts) k"
  using assms
proof (induction ts arbitrary: b k)
  case Nil
  then show ?case by simp
next
  case (Cons t ts)
  have c: "tb_credit t b = 0" by (rule tb_credit_none) (use Cons.prems(3) in auto)
  have k: "k \<le> 2 ^ 53" using Cons.prems(2) unat_u32_le [of "tb_capacity b"] by linarith
  have cap: "(of_nat k :: rat) \<le> rat_of_u32 (tb_capacity b)"
    unfolding rat_of_u32_def using Cons.prems(2) by (rule of_nat_mono)
  have "f64_add (tb_tokens b) 0 = of_nat k"
    by (simp add: f64_add_def Cons.prems(1) f64_round_of_nat [OF k])
  then have tokens: "min (f64_add (tb_tokens b) (tb_credit t b)) (rat_of_u32 (tb_capacity b)) =
      of_nat k"
    using c cap by simp
  show ?case
  proof (cases k)
    case 0
    then have a: "tb_allow t b = (False, b\<lparr>tb_last_refill := t, tb_tokens := of_nat k\<rparr>)"
      using tokens by (simp add: tb_allow_def)
    show ?thesis
      using Cons.IH [of "b\<lparr>tb_last_refill := t, tb_tokens := of_nat k\<rparr>" k] Cons.prems 0
      by (auto simp: a split: prod.splits)
  next
    case (Suc j)
    have "f64_sub (of_nat k) 1 = of_nat j"
      using f64_round_of_nat [of j] k Suc by (simp add: f64_sub_def)
    then have a: "tb_allow t b = (True, b\<lparr>tb_last_refill := t, tb_tokens := of_nat j\<rparr>)"
      using tokens Suc by (simp add: tb_allow_def)
    show ?thesis
      using Cons.IH [of "b\<lparr>tb_last_refill := t, tb_tokens := of_nat j\<rparr>" j] Cons.prems Suc
      by (auto simp: a split: prod.splits)
  qed
qed

section \<open>The map of buckets\<close>

definition bim_ok :: "bounded_ip_map \<Rightarrow> bool" where
  "bim_ok m \<longleftrightarrow> distinct (bim_order m) \<and> set (bim_order m) = fmdom' (bim_map m) \<and>
     hash_len (bim_map m) \<le> bim_max m \<and> 1 \<le> bim_max m \<and>
     (\<forall>ip b. fmlookup (bim_map m) ip = Some b \<longrightarrow> tb_ok b)"

lemma bim_new_ok: "bim_ok (bim_new n)"
  by (simp add: bim_ok_def bim_new_def)

lemma bim_full_order:
  assumes "bim_ok m" "bim_max m \<le> hash_len (bim_map m)"
  obtains old rest where "bim_order m = old # rest" "fmlookup (bim_map m) old \<noteq> None"
proof -
  from assms have "0 < card (fmdom' (bim_map m))" by (auto simp: bim_ok_def hash_len_def)
  then have "bim_order m \<noteq> []" using assms(1) by (auto simp: bim_ok_def)
  then obtain old rest where o: "bim_order m = old # rest" by (cases "bim_order m") auto
  then have "old \<in> fmdom' (bim_map m)" using assms(1) by (auto simp: bim_ok_def)
  then have "fmlookup (bim_map m) old \<noteq> None" by (auto simp: fmlookup_dom'_iff)
  with o show ?thesis by (rule that)
qed

lemma bim_ensure_ok:
  assumes ok: "bim_ok m"
  shows "bim_ok (bim_ensure now ip c r m)"
proof (cases "fmlookup (bim_map m) ip = None")
  case False
  then show ?thesis using ok by (simp add: bim_ensure_def)
next
  case new: True
  then have ip: "ip \<notin> fmdom' (bim_map m)" by (rule fmdom'_notI)
  show ?thesis
  proof (cases "bim_max m \<le> hash_len (bim_map m)")
    case True
    then obtain old rest where o: "bim_order m = old # rest" "fmlookup (bim_map m) old \<noteq> None"
      by (rule bim_full_order [OF ok])
    have "hash_len (fmdrop old (bim_map m)) < bim_max m"
      using o(2) ok True by (auto simp: bim_ok_def hash_len_drop dest: hash_len_pos)
    then show ?thesis
      using ok new ip o True tb_new_ok
      by (auto simp: bim_ok_def bim_ensure_def hash_len_upd Let_def split: if_splits)
  next
    case False
    then show ?thesis
      using ok new ip tb_new_ok
      by (auto simp: bim_ok_def bim_ensure_def hash_len_upd Let_def split: if_splits)
  qed
qed

lemma bim_ensure_present: "fmlookup (bim_map (bim_ensure now ip c r m)) ip \<noteq> None"
  by (auto simp: bim_ensure_def Let_def)

lemma bim_update_ok:
  assumes "bim_ok m" "fmlookup (bim_map m) ip = Some b0" "tb_ok b"
  shows "bim_ok (m\<lparr>bim_map := fmupd ip b (bim_map m)\<rparr>)"
  using assms by (auto simp: bim_ok_def hash_len_upd fmdom'I insert_absorb)

lemma bim_ensure_max [simp]: "bim_max (bim_ensure now ip c r m) = bim_max m"
  by (auto simp: bim_ensure_def Let_def split: list.splits)

section \<open>The limiter\<close>

definition rl_ok :: "rate_limiter \<Rightarrow> bool" where
  "rl_ok rl \<longleftrightarrow> bim_ok (rl_per_ip rl) \<and> tb_ok (rl_global_bucket rl) \<and>
     bim_max (rl_per_ip rl) = max (max_tracked_ips (rl_config rl)) 1"

lemma rl_new_ok: "rl_ok (rl_new now cfg)"
  by (simp add: rl_ok_def rl_new_def bim_new_ok tb_new_ok) (simp add: bim_new_def)

lemma allow_global_window_frame:
  "allow_global_window now rl = (ok, rl') \<Longrightarrow>
     rl_config rl' = rl_config rl \<and> rl_per_ip rl' = rl_per_ip rl \<and>
     rl_global_bucket rl' = rl_global_bucket rl"
  by (auto simp: allow_global_window_def split: prod.splits)

lemma rl_allow_ok:
  assumes "rl_ok rl" "rl_allow t1 t2 t3 t4 ip rl = (r, rl')"
  shows "rl_ok rl' \<and> rl_config rl' = rl_config rl \<and> (\<forall>msg. r \<noteq> Panic msg)"
proof -
  obtain w rl1 where w: "allow_global_window t1 rl = (w, rl1)" by fastforce
  obtain g gb where g: "tb_allow t2 (rl_global_bucket rl) = (g, gb)" by fastforce
  have gb: "tb_ok gb" using tb_allow_ok [OF _ g] assms(1) by (simp add: rl_ok_def)
  define m where "m = bim_ensure t3 ip (per_ip_capacity (rl_config rl))
    (per_ip_refill_per_second (rl_config rl)) (rl_per_ip rl)"
  have m: "bim_ok m" "bim_max m = bim_max (rl_per_ip rl)"
    using assms(1) by (simp_all add: m_def rl_ok_def bim_ensure_ok)
  obtain b where b: "fmlookup (bim_map m) ip = Some b"
    using bim_ensure_present unfolding m_def by blast
  obtain p b' where p: "tb_allow t4 b = (p, b')" by fastforce
  have "tb_ok b'" using tb_allow_ok [OF _ p] m(1) b by (auto simp: bim_ok_def)
  then have "bim_ok (m\<lparr>bim_map := fmupd ip b' (bim_map m)\<rparr>)" by (rule bim_update_ok [OF m(1) b])
  then show ?thesis
    using assms w allow_global_window_frame [OF w] g gb m b p
    by (auto simp: rl_allow_def rl_ok_def m_def [symmetric] Let_def split: if_splits)
qed

type_synonym rl_call = "instant \<times> instant \<times> instant \<times> instant \<times> ip_addr"

text \<open>A history of calls: the reading of the window's clock and the outcome of each.\<close>

fun rl_run :: "rate_limiter \<Rightarrow> rl_call list \<Rightarrow> (instant \<times> unit outcome) list \<times> rate_limiter" where
  "rl_run rl [] = ([], rl)"
| "rl_run rl ((t1, t2, t3, t4, ip) # cs) =
     (let (r, rl') = rl_allow t1 t2 t3 t4 ip rl; (rs, rl'') = rl_run rl' cs in ((t1, r) # rs, rl''))"

lemma rl_run_ok:
  assumes "rl_ok rl" "rl_run rl cs = (rs, rl')"
  shows "rl_ok rl' \<and> rl_config rl' = rl_config rl \<and> (\<forall>(t, r) \<in> set rs. \<forall>msg. r \<noteq> Panic msg)"
  using assms
proof (induction cs arbitrary: rl rs)
  case Nil
  then show ?case by simp
next
  case (Cons c cs)
  obtain t1 t2 t3 t4 ip where c: "c = (t1, t2, t3, t4, ip)" by (cases c) auto
  obtain r rl1 where a: "rl_allow t1 t2 t3 t4 ip rl = (r, rl1)" by fastforce
  obtain rs1 where rs1: "rl_run rl1 cs = (rs1, rl')" "rs = (t1, r) # rs1"
    using Cons.prems(2) a c by (auto split: prod.splits)
  show ?case
    using Cons.IH [OF _ rs1(1)] rl_allow_ok [OF Cons.prems(1) a] rs1(2) by auto
qed

definition granted_times :: "(instant \<times> unit outcome) list \<Rightarrow> instant list" where
  "granted_times rs = map fst (filter (\<lambda>(t, r). is_ok r) rs)"

lemma granted_times_simps [simp]:
  "granted_times [] = []"
  "granted_times ((t, r) # rs) = (if is_ok r then t # granted_times rs else granted_times rs)"
  by (simp_all add: granted_times_def)

lemma rl_allow_eq:
  assumes w: "allow_global_window t1 rl = (w, rl1)"
    and g: "tb_allow t2 (rl_global_bucket rl) = (g, gb)"
    and m: "m = bim_ensure t3 ip (per_ip_capacity (rl_config rl))
      (per_ip_refill_per_second (rl_config rl)) (rl_per_ip rl)"
    and b: "fmlookup (bim_map m) ip = Some b" and p: "tb_allow t4 b = (p, b')"
  shows "rl_allow t1 t2 t3 t4 ip rl =
    (if \<not> w then (Err (RateLimited ''global sliding window'' (display_ip ip)), rl1)
     else if \<not> g then
       (Err (RateLimited ''global token bucket'' (display_ip ip)), rl1\<lparr>rl_global_bucket := gb\<rparr>)
     else
       (if p then Ok () else Err (RateLimited ''per-ip token bucket'' (display_ip ip)),
        rl1\<lparr>rl_global_bucket := gb, rl_per_ip := m\<lparr>bim_map := fmupd ip b' (bim_map m)\<rparr>\<rparr>))"
  using allow_global_window_frame [OF w] g b p
  by (simp add: rl_allow_def w m rate_limited_def Let_def)

lemma rl_allow_parts:
  obtains w rl1 g gb m b p b' where
    "allow_global_window t1 rl = (w, rl1)" "tb_allow t2 (rl_global_bucket rl) = (g, gb)"
    "m = bim_ensure t3 ip (per_ip_capacity (rl_config rl))
      (per_ip_refill_per_second (rl_config rl)) (rl_per_ip rl)"
    "fmlookup (bim_map m) ip = Some b" "tb_allow t4 b = (p, b')"
proof -
  define m where "m = bim_ensure t3 ip (per_ip_capacity (rl_config rl))
    (per_ip_refill_per_second (rl_config rl)) (rl_per_ip rl)"
  obtain b where "fmlookup (bim_map m) ip = Some b"
    using bim_ensure_present unfolding m_def by blast
  with that m_def show ?thesis by (metis surj_pair)
qed

lemma rl_allow_window:
  assumes a: "rl_allow t1 t2 t3 t4 ip rl = (r, rl')"
    and ok: "window_allow (global_window (rl_config rl)) (global_window_limit (rl_config rl)) t1
      (rl_global_window rl) = (ok, window)"
  shows "rl_global_window rl' = window \<and> (is_ok r \<longrightarrow> ok)"
proof (rule rl_allow_parts [of t1 rl t2 t3 ip t4])
  fix w rl1 g gb m b p b'
  assume parts: "allow_global_window t1 rl = (w, rl1)" "tb_allow t2 (rl_global_bucket rl) = (g, gb)"
    "m = bim_ensure t3 ip (per_ip_capacity (rl_config rl))
      (per_ip_refill_per_second (rl_config rl)) (rl_per_ip rl)"
    "fmlookup (bim_map m) ip = Some b" "tb_allow t4 b = (p, b')"
  have "w = ok" "rl_global_window rl1 = window"
    using parts(1) ok by (auto simp: allow_global_window_def)
  then show ?thesis
    using a unfolding rl_allow_eq [OF parts] by (auto split: if_splits)
qed

lemma granted_in_window:
  assumes "rl_ok rl"
  shows "in_interval a width (granted_times (fst (rl_run rl cs))) \<le>
    in_interval a width (window_run (global_window (rl_config rl))
      (global_window_limit (rl_config rl)) (rl_global_window rl) (map fst cs))"
  using assms
proof (induction cs arbitrary: rl)
  case Nil
  then show ?case by simp
next
  case (Cons c cs)
  obtain t1 t2 t3 t4 ip where c: "c = (t1, t2, t3, t4, ip)" by (cases c) auto
  obtain r rl1 where a: "rl_allow t1 t2 t3 t4 ip rl = (r, rl1)" by fastforce
  obtain ok window where w: "window_allow (global_window (rl_config rl))
      (global_window_limit (rl_config rl)) t1 (rl_global_window rl) = (ok, window)" by fastforce
  from rl_allow_window [OF a w] have w1: "rl_global_window rl1 = window" "is_ok r \<Longrightarrow> ok" by auto
  from rl_allow_ok [OF Cons.prems a] have "rl_ok rl1" "rl_config rl1 = rl_config rl" by auto
  with Cons.IH [of rl1] show ?case
    using w1 by (auto simp: c a w split: prod.splits)
qed

section \<open>Properties\<close>

definition demo_rl_cfg :: rate_limiter_config where
  "demo_rl_cfg =
     \<lparr>per_ip_capacity = 1, per_ip_refill_per_second = 0, global_capacity = 10,
      global_refill_per_second = 0, global_window = secs 60, global_window_limit = 2,
      max_tracked_ips = 0\<rparr>"

definition demo_bucket :: token_bucket where
  "demo_bucket = tb_new 0 5 2"

text \<open>
  Sliding window: among calls made at non-decreasing times, no interval as long as the
  configured window contains more granted calls than the configured limit.
\<close>

theorem rate_limiter_window_bound:
  assumes "sorted (map fst cs)"
  shows "in_interval a (global_window cfg)
      (granted_times (fst (rl_run (rl_new now cfg) cs))) \<le> global_window_limit cfg"
proof -
  have "in_interval a (global_window cfg)
      ([] @ [] @ window_run (global_window cfg) (global_window_limit cfg) [] (map fst cs))
      \<le> global_window_limit cfg"
    by (rule window_run_bound) (use assms in simp_all)
  moreover have "rl_config (rl_new now cfg) = cfg" "rl_global_window (rl_new now cfg) = []"
    by (simp_all add: rl_new_def)
  ultimately show ?thesis
    using granted_in_window [OF rl_new_ok [of now cfg], of a "global_window cfg" cs] by simp
qed

theorem rate_limiter_window_bound_witness:
  "in_interval 0 (secs 60) (granted_times (fst (rl_run (rl_new 0 demo_rl_cfg)
     [(1, 1, 1, 1, V4 1), (2, 2, 2, 2, V4 2), (3, 3, 3, 3, V4 3)]))) \<le> 2"
  using rate_limiter_window_bound
    [of "[(1, 1, 1, 1, V4 1), (2, 2, 2, 2, V4 2), (3, 3, 3, 3, V4 3)]" 0 demo_rl_cfg 0]
  by (simp add: demo_rl_cfg_def)

text \<open>
  C32. Token bucket rate: over any run of calls at non-decreasing times the bucket grants at most
  the tokens it starts with plus the refill of the elapsed time, up to the \<open>f64\<close> rounding errors
  (four relative roundings of the credit, two of the capacity per call).
\<close>

theorem token_bucket_rate_bound:
  assumes "tb_ok b" and "sorted (tb_last_refill b # ts)"
  shows "of_nat (fst (tb_run b ts)) \<le> tb_tokens b +
    rat_of_u32 (tb_refill_per_second b) *
      (of_nat (last (tb_last_refill b # ts) - tb_last_refill b) / of_nat nanos_per_sec) *
      (1 + eps) ^ 4 +
    2 * eps * rat_of_u32 (tb_capacity b) * of_nat (length ts)"
proof -
  obtain n b' where r: "tb_run b ts = (n, b')" by fastforce
  have "0 \<le> tb_tokens b'"
    using assms(1) r
  proof (induction ts arbitrary: b n)
    case Nil
    then show ?case by (simp add: tb_ok_def)
  next
    case (Cons t ts)
    then show ?case by (auto split: prod.splits if_splits dest: tb_allow_ok)
  qed
  then show ?thesis using tb_run_bound [OF assms r] r by simp
qed

theorem token_bucket_rate_bound_witness:
  "of_nat (fst (tb_run demo_bucket [0, secs 1])) \<le>
     tb_tokens demo_bucket + 2 * (1 + eps) ^ 4 + 2 * eps * 5 * 2"
proof -
  have "tb_ok demo_bucket" "sorted (tb_last_refill demo_bucket # [0, secs 1])"
    by (simp_all add: demo_bucket_def tb_new_ok) (simp add: tb_new_def)
  from token_bucket_rate_bound [OF this]
  show ?thesis by (simp add: demo_bucket_def tb_new_def rat_of_u32_def secs_def nanos_per_sec_def)
qed

text \<open>
  Burst: a fresh bucket that earns no credit, because its refill is zero or because all calls
  come at the instant of its creation, grants exactly as many calls as its capacity.
\<close>

theorem token_bucket_burst:
  assumes "refill = 0 \<or> set ts \<subseteq> {now}"
  shows "fst (tb_run (tb_new now capacity refill) ts) = min (length ts) (unat capacity)"
  by (rule tb_run_no_credit) (use assms in \<open>auto simp: tb_new_def rat_of_u32_def\<close>)

theorem token_bucket_burst_witness: "fst (tb_run (tb_new 0 2 0) [7, 8, 9]) = 2"
  using token_bucket_burst [of 0 "[7, 8, 9]" 0 2] by simp

text \<open>
  After any history of calls the table of per-address buckets holds at most
  \<open>max(max_tracked_ips, 1)\<close> addresses, its eviction queue lists exactly the tracked addresses
  once each, and every bucket holds between zero tokens and its capacity; no call panics.
\<close>

theorem rate_limiter_table_bounded:
  "hash_len (bim_map (rl_per_ip (snd (rl_run (rl_new now cfg) cs)))) \<le> max (max_tracked_ips cfg) 1 \<and>
   bim_ok (rl_per_ip (snd (rl_run (rl_new now cfg) cs))) \<and>
   tb_ok (rl_global_bucket (snd (rl_run (rl_new now cfg) cs))) \<and>
   (t, Panic msg) \<notin> set (fst (rl_run (rl_new now cfg) cs))"
proof -
  obtain rs rl where r: "rl_run (rl_new now cfg) cs = (rs, rl)" by fastforce
  have "rl_config (rl_new now cfg) = cfg" by (simp add: rl_new_def)
  with rl_run_ok [OF rl_new_ok r] show ?thesis
    by (auto simp: r rl_ok_def bim_ok_def)
qed

text \<open>
  Eviction is first in, first out: a new address that meets a full table removes the address
  at the head of the queue, the one inserted first, and no other; the new address gets a full
  bucket.
\<close>

theorem rate_limiter_evicts_first_inserted:
  assumes "bim_ok m" and "fmlookup (bim_map m) ip = None" and "bim_max m \<le> hash_len (bim_map m)"
  shows "bim_order (bim_ensure now ip c r m) = tl (bim_order m) @ [ip] \<and>
    fmlookup (bim_map (bim_ensure now ip c r m)) k =
      (if k = ip then Some (tb_new now c r) else if k = hd (bim_order m) then None
       else fmlookup (bim_map m) k)"
proof -
  obtain old rest where "bim_order m = old # rest"
    using bim_full_order [OF assms(1,3)] by blast
  then show ?thesis using assms by (simp add: bim_ensure_def)
qed

theorem rate_limiter_evicts_first_inserted_witness:
  "fmlookup (bim_map (bim_ensure 1 (V4 2) 5 1 (bim_ensure 0 (V4 1) 5 1 (bim_new 0)))) (V4 1) = None"
proof -
  let ?m = "bim_ensure 0 (V4 1) 5 1 (bim_new 0)"
  have "bim_ok ?m" by (simp add: bim_new_ok bim_ensure_ok)
  moreover have "fmlookup (bim_map ?m) (V4 2) = None" "bim_max ?m \<le> hash_len (bim_map ?m)"
    "bim_order ?m = [V4 1]"
    by (simp_all add: bim_ensure_def bim_new_def hash_simps)
  ultimately show ?thesis
    using rate_limiter_evicts_first_inserted [of ?m "V4 2" 1 5 1 "V4 1"] by simp
qed

text \<open>
  A caller refused by its own bucket is charged to the shared budgets all the same: the
  call has taken a slot of the global window and a token of the global bucket.
\<close>

theorem rate_limiter_refusal_charges_global:
  assumes "rl_allow t1 t2 t3 t4 ip rl =
      (Err (RateLimited ''per-ip token bucket'' (display_ip ip)), rl')"
  shows "t1 = last (rl_global_window rl') \<and> rl_global_window rl' \<noteq> [] \<and>
    tb_allow t2 (rl_global_bucket rl) = (True, rl_global_bucket rl')"
proof (rule rl_allow_parts [of t1 rl t2 t3 ip t4])
  fix w rl1 g gb m b p b'
  assume parts: "allow_global_window t1 rl = (w, rl1)" "tb_allow t2 (rl_global_bucket rl) = (g, gb)"
    "m = bim_ensure t3 ip (per_ip_capacity (rl_config rl))
      (per_ip_refill_per_second (rl_config rl)) (rl_per_ip rl)"
    "fmlookup (bim_map m) ip = Some b" "tb_allow t4 b = (p, b')"
  from assms have "w" "g" "rl_global_window rl' = rl_global_window rl1" "rl_global_bucket rl' = gb"
    unfolding rl_allow_eq [OF parts] by (auto split: if_splits)
  moreover from this(1) parts(1) have "t1 = last (rl_global_window rl1)" "rl_global_window rl1 \<noteq> []"
    by (auto simp: allow_global_window_def window_allow_def Let_def split: if_splits)
  ultimately show ?thesis using parts(2) by simp
qed

lemma f64_round_numeral [simp]:
  "(numeral n :: nat) \<le> 2 ^ 53 \<Longrightarrow> f64_round (numeral n) = numeral n" "f64_round 1 = 1"
  using f64_round_of_nat [of "numeral n"] f64_round_of_nat [of 1] by simp_all

lemma rate_limiter_refusal_demo:
  "fst (rl_allow 2 2 2 2 (V4 1) (snd (rl_allow 1 1 1 1 (V4 1) (rl_new 0 demo_rl_cfg)))) =
     Err (RateLimited ''per-ip token bucket'' (display_ip (V4 1)))"
  by (simp add: rl_allow_def rl_new_def demo_rl_cfg_def bim_new_def bim_ensure_def tb_new_def
      allow_global_window_def window_allow_def duration_since_def tb_allow_def tb_credit_def
      f64_add_def f64_sub_def f64_mul_def f64_of_nat_def rat_of_u32_def secs_def nanos_per_sec_def
      hash_simps
      rate_limited_def)

theorem rate_limiter_refusal_charges_global_witness:
  "last (rl_global_window (snd (rl_allow 2 2 2 2 (V4 1)
     (snd (rl_allow 1 1 1 1 (V4 1) (rl_new 0 demo_rl_cfg)))))) = 2"
  using rate_limiter_refusal_charges_global [of 2 2 2 2 "V4 1"
      "snd (rl_allow 1 1 1 1 (V4 1) (rl_new 0 demo_rl_cfg))"]
    rate_limiter_refusal_demo by (metis prod.collapse)

end
