(* ===== verification/Rate_Concurrent.thy ===== *)
theory Rate_Concurrent
  imports Rate_Limiter "HOL-Library.Multiset"
begin

text \<open>
  The rate limiter under concurrency (src/src/guard/rate\_limiter.rs): \<open>allow\<close> takes two locks one after
  the other, that of the window and that of the global bucket, which it keeps while it asks the buckets
  of the addresses. Any number of calls run at the same time; between its two locks a call holds none.
\<close>

section \<open>The two critical sections\<close>

definition allow_buckets ::
    "instant \<Rightarrow> instant \<Rightarrow> instant \<Rightarrow> ip_addr \<Rightarrow> rate_limiter \<Rightarrow> unit outcome \<times> rate_limiter" where
  "allow_buckets t2 t3 t4 ip rl =
     (let (ok, bucket) = tb_allow t2 (rl_global_bucket rl);
          rl = rl\<lparr>rl_global_bucket := bucket\<rparr> in
      if \<not> ok then (Err (rate_limited ''global token bucket'' (display_ip ip)), rl)
      else
        let m = bim_ensure t3 ip (per_ip_capacity (rl_config rl))
                  (per_ip_refill_per_second (rl_config rl)) (rl_per_ip rl) in
        case fmlookup (bim_map m) ip of
          None \<Rightarrow> (Panic ''internal error: entered unreachable code'', rl\<lparr>rl_per_ip := m\<rparr>)
        | Some entry \<Rightarrow>
            let (ok, entry) = tb_allow t4 entry;
                rl = rl\<lparr>rl_per_ip := m\<lparr>bim_map := fmupd ip entry (bim_map m)\<rparr>\<rparr> in
            if ok then (Ok (), rl)
            else (Err (rate_limited ''per-ip token bucket'' (display_ip ip)), rl))"

text \<open>A call that is not interrupted between its sections is the sequential one.\<close>

lemma rl_allow_sections:
  "rl_allow t1 t2 t3 t4 ip rl =
     (case allow_global_window t1 rl of
        (False, rl) \<Rightarrow> (Err (rate_limited ''global sliding window'' (display_ip ip)), rl)
      | (True, rl) \<Rightarrow> allow_buckets t2 t3 t4 ip rl)"
  by (simp add: rl_allow_def allow_buckets_def split: prod.split bool.split)

text \<open>The sections on the rest of the limiter.\<close>

lemma allow_global_window_window:
  "allow_global_window t rl = (ok, rl') \<Longrightarrow>
   window_allow (global_window (rl_config rl)) (global_window_limit (rl_config rl)) t (rl_global_window rl) =
     (ok, rl_global_window rl')"
  by (auto simp: allow_global_window_def split: prod.splits)

lemma allow_buckets_section:
  assumes "rl_ok rl" "allow_buckets t2 t3 t4 ip rl = (r, rl')"
  shows "rl_ok rl' \<and> rl_config rl' = rl_config rl \<and> rl_global_window rl' = rl_global_window rl \<and>
    (\<forall>msg. r \<noteq> Panic msg) \<and> rl_global_bucket rl' = snd (tb_allow t2 (rl_global_bucket rl)) \<and>
    (is_ok r \<longrightarrow> fst (tb_allow t2 (rl_global_bucket rl)))"
proof -
  obtain g gb where g: "tb_allow t2 (rl_global_bucket rl) = (g, gb)" by fastforce
  have gb: "tb_ok gb" using tb_allow_ok [OF _ g] assms(1) by (simp add: rl_ok_def)
  define m where "m = bim_ensure t3 ip (per_ip_capacity (rl_config rl))
    (per_ip_refill_per_second (rl_config rl)) (rl_per_ip rl)"
  have m: "bim_ok m" "bim_max m = bim_max (rl_per_ip rl)"
    using assms(1) by (simp_all add: m_def rl_ok_def bim_ensure_ok)
  obtain b where b: "fmlookup (bim_map m) ip = Some b"
    using bim_ensure_present unfolding m_def by blast
  obtain p b' where p: "tb_allow t4 b = (p, b')" by fastforce
  have "tb_ok b'" using tb_allow_ok [OF _ p] m(1) b by (auto simp: bim_ok_def)
  then have "bim_ok (m\<lparr>bim_map := fmupd ip b' (bim_map m)\<rparr>)" by (rule bim_update_ok [OF m(1) b])
  then show ?thesis
    using assms g gb m b p
    by (auto simp: allow_buckets_def rl_ok_def m_def [symmetric] Let_def split: if_splits)
qed

section \<open>Every interleaving\<close>

text \<open>
  The limiter, the last readings of the clock under the lock of the window and under that of the
  buckets (the clock is monotonic, so that under one lock it never goes back), the calls that have passed
  the window at their time and wait for the buckets, and the calls that have returned, with the time of
  their window and their outcome.
\<close>

inductive rl_concurrent ::
    "rate_limiter_config \<Rightarrow> instant \<Rightarrow> rate_limiter \<Rightarrow> instant \<Rightarrow> instant \<Rightarrow> (instant \<times> ip_addr) multiset \<Rightarrow>
     (instant \<times> unit outcome) list \<Rightarrow> bool"
  for cfg :: rate_limiter_config and now0 :: instant where
  start: "rl_concurrent cfg now0 (rl_new now0 cfg) now0 now0 {#} []"
| turned_away: "rl_concurrent cfg now0 rl cw cb M rs \<Longrightarrow> cw \<le> t \<Longrightarrow> allow_global_window t rl = (False, rl') \<Longrightarrow>
    rl_concurrent cfg now0 rl' t cb M
      ((t, Err (rate_limited ''global sliding window'' (display_ip ip))) # rs)"
| entered: "rl_concurrent cfg now0 rl cw cb M rs \<Longrightarrow> cw \<le> t \<Longrightarrow> allow_global_window t rl = (True, rl') \<Longrightarrow>
    rl_concurrent cfg now0 rl' t cb (add_mset (t, ip) M) rs"
| decided: "rl_concurrent cfg now0 rl cw cb (add_mset (t, ip) M) rs \<Longrightarrow> cb \<le> t2 \<Longrightarrow> t \<le> t2 \<Longrightarrow> t2 \<le> t3 \<Longrightarrow> t3 \<le> t4 \<Longrightarrow>
    allow_buckets t2 t3 t4 ip rl = (r, rl') \<Longrightarrow> rl_concurrent cfg now0 rl' cw t4 M ((t, r) # rs)"

text \<open>The window after some calls, and runs with one more call.\<close>

definition window_state :: "duration \<Rightarrow> usize \<Rightarrow> instant list \<Rightarrow> instant list \<Rightarrow> instant list" where
  "window_state width limit window ts = fold (\<lambda>t w. snd (window_allow width limit t w)) ts window"

lemma window_run_snoc:
  "window_run width limit window (ts @ [t]) =
     window_run width limit window ts @
     (if fst (window_allow width limit t (window_state width limit window ts)) then [t] else [])"
  by (induction ts arbitrary: window) (simp_all add: window_state_def split_beta Let_def)

lemma tb_run_snoc:
  "tb_run b (ts @ [t]) =
     (fst (tb_run b ts) + of_bool (fst (tb_allow t (snd (tb_run b ts)))), snd (tb_allow t (snd (tb_run b ts))))"
  by (induction ts arbitrary: b) (simp_all add: split_beta Let_def)

lemma in_interval_mono:
  assumes "mset xs \<subseteq># mset ys"
  shows "in_interval a width xs \<le> in_interval a width ys"
proof -
  have "in_interval a width zs = size (filter_mset (\<lambda>x. a \<le> x \<and> x \<le> a + width) (mset zs))" for zs
    by (simp add: in_interval_def flip: mset_filter)
  then show ?thesis using multiset_filter_mono [OF assms] by (simp add: size_mset_mono)
qed

text \<open>The calls as the window and as the global bucket have seen them.\<close>

definition seen_window :: "rate_limiter_config \<Rightarrow> rate_limiter \<Rightarrow> instant \<Rightarrow> (instant \<times> ip_addr) multiset \<Rightarrow>
    (instant \<times> unit outcome) list \<Rightarrow> instant list \<Rightarrow> bool" where
  "seen_window cfg rl cw M rs ts \<longleftrightarrow> sorted ts \<and> (\<forall>t \<in> set ts. t \<le> cw) \<and>
     rl_global_window rl = window_state (global_window cfg) (global_window_limit cfg) [] ts \<and>
     mset (granted_times rs) + image_mset fst M \<subseteq># mset (window_run (global_window cfg) (global_window_limit cfg) [] ts)"

definition seen_bucket :: "rate_limiter_config \<Rightarrow> instant \<Rightarrow> rate_limiter \<Rightarrow> instant \<Rightarrow>
    (instant \<times> unit outcome) list \<Rightarrow> instant list \<Rightarrow> bool" where
  "seen_bucket cfg now0 rl cb rs ts \<longleftrightarrow> sorted (now0 # ts) \<and> (\<forall>t \<in> set (now0 # ts). t \<le> cb) \<and> length ts \<le> length rs \<and>
     (\<exists>n. tb_run (tb_new now0 (global_capacity cfg) (global_refill_per_second cfg)) ts = (n, rl_global_bucket rl) \<and>
        length (granted_times rs) \<le> n)"

definition rl_seen :: "rate_limiter_config \<Rightarrow> instant \<Rightarrow> rate_limiter \<Rightarrow> instant \<Rightarrow> instant \<Rightarrow>
    (instant \<times> ip_addr) multiset \<Rightarrow> (instant \<times> unit outcome) list \<Rightarrow> bool" where
  "rl_seen cfg now0 rl cw cb M rs \<longleftrightarrow> rl_ok rl \<and> rl_config rl = cfg \<and>
     (\<forall>(t, r) \<in> set rs. \<forall>msg. r \<noteq> Panic msg) \<and>
     (\<exists>ts. seen_window cfg rl cw M rs ts) \<and> (\<exists>ts. seen_bucket cfg now0 rl cb rs ts)"

lemma seen_window_call:
  assumes "seen_window cfg rl cw M rs ts" "cw \<le> t" "rl_config rl = cfg" "allow_global_window t rl = (ok, rl')"
  shows "seen_window cfg rl' t (if ok then add_mset (t, ip) M else M) rs (ts @ [t])"
proof -
  let ?state = "window_state (global_window cfg) (global_window_limit cfg) []"
  have w: "window_allow (global_window cfg) (global_window_limit cfg) t (?state ts) = (ok, rl_global_window rl')"
    using allow_global_window_window [OF assms(4)] assms(1,3) by (simp add: seen_window_def)
  have "?state (ts @ [t]) = rl_global_window rl'" using w by (simp add: window_state_def)
  moreover have "\<forall>x \<in> set ts. x \<le> t" using assms(1,2) by (auto simp: seen_window_def)
  ultimately show ?thesis
    using assms(1) w by (auto simp: seen_window_def sorted_append window_run_snoc)
qed

lemma seen_bucket_call:
  assumes "seen_bucket cfg now0 rl cb rs ts" "cb \<le> t2" "t2 \<le> t4"
    and "rl_global_bucket rl' = snd (tb_allow t2 (rl_global_bucket rl))"
    and "is_ok r \<longrightarrow> fst (tb_allow t2 (rl_global_bucket rl))"
  shows "seen_bucket cfg now0 rl' t4 ((t, r) # rs) (ts @ [t2])"
  using assms by (fastforce simp: seen_bucket_def sorted_append tb_run_snoc)

lemma rl_concurrent_seen: "rl_concurrent cfg now0 rl cw cb M rs \<Longrightarrow> rl_seen cfg now0 rl cw cb M rs"
proof (induction rule: rl_concurrent.induct)
  case start
  have "seen_window cfg (rl_new now0 cfg) now0 {#} [] []" "seen_bucket cfg now0 (rl_new now0 cfg) now0 [] []"
    by (simp_all add: seen_window_def seen_bucket_def window_state_def rl_new_def)
  moreover have "rl_config (rl_new now0 cfg) = cfg" by (simp add: rl_new_def)
  ultimately show ?case using rl_new_ok by (auto simp: rl_seen_def)
next
  case (turned_away rl cw cb M rs t rl' ip)
  note frame = allow_global_window_frame [OF turned_away(3)]
  obtain ts where ts: "seen_window cfg rl cw M rs ts" using turned_away.IH by (auto simp: rl_seen_def)
  obtain bs where bs: "seen_bucket cfg now0 rl cb rs bs" using turned_away.IH by (auto simp: rl_seen_def)
  have "seen_window cfg rl' t M ((t, Err e) # rs) (ts @ [t])" for e
    using seen_window_call [OF ts turned_away(2) _ turned_away(3)] turned_away.IH
    by (simp add: rl_seen_def seen_window_def)
  moreover have "seen_bucket cfg now0 rl' cb ((t, Err e) # rs) bs" for e
    using bs frame by (auto simp: seen_bucket_def)
  ultimately show ?case using turned_away.IH frame by (auto simp: rl_seen_def rl_ok_def)
next
  case (entered rl cw cb M rs t rl' ip)
  note frame = allow_global_window_frame [OF entered(3)]
  obtain ts where ts: "seen_window cfg rl cw M rs ts" using entered.IH by (auto simp: rl_seen_def)
  obtain bs where bs: "seen_bucket cfg now0 rl cb rs bs" using entered.IH by (auto simp: rl_seen_def)
  have "seen_window cfg rl' t (add_mset (t, ip) M) rs (ts @ [t])"
    using seen_window_call [OF ts entered(2) _ entered(3), of ip] entered.IH by (simp add: rl_seen_def)
  moreover have "seen_bucket cfg now0 rl' cb rs bs" using bs frame by (auto simp: seen_bucket_def)
  ultimately show ?case using entered.IH frame by (auto simp: rl_seen_def rl_ok_def)
next
  case (decided rl cw cb t ip M rs t2 t3 t4 r rl')
  have ok: "rl_ok rl" "rl_config rl = cfg" using decided.IH by (auto simp: rl_seen_def)
  note sec = allow_buckets_section [OF ok(1) decided(6)]
  obtain ts where ts: "seen_window cfg rl cw (add_mset (t, ip) M) rs ts" using decided.IH by (auto simp: rl_seen_def)
  obtain bs where bs: "seen_bucket cfg now0 rl cb rs bs" using decided.IH by (auto simp: rl_seen_def)
  have "t2 \<le> t4" using decided(4,5) by simp
  from seen_bucket_call [OF bs decided(2) this] have "seen_bucket cfg now0 rl' t4 ((t, r) # rs) (bs @ [t2])"
    using sec by blast
  moreover have drop: "A \<subseteq># B" if "add_mset t A \<subseteq># B" for A B
    by (rule subset_mset.order_trans [OF _ that]) simp
  have "seen_window cfg rl' cw M ((t, r) # rs) ts"
    using ts sec by (auto simp: seen_window_def dest: drop)
  ultimately show ?case using decided.IH sec ok by (auto simp: rl_seen_def)
qed

lemma seen_bucket_bound:
  assumes seen: "seen_bucket cfg now0 rl cb rs bs" and ok: "rl_ok rl"
  shows "of_nat (length (granted_times rs)) \<le> rat_of_u32 (global_capacity cfg) +
    rat_of_u32 (global_refill_per_second cfg) * (of_nat (cb - now0) / of_nat nanos_per_sec) * (1 + eps) ^ 4 +
    2 * eps * rat_of_u32 (global_capacity cfg) * of_nat (length rs)"
proof -
  let ?cap = "rat_of_u32 (global_capacity cfg)" and ?rate = "rat_of_u32 (global_refill_per_second cfg)"
  let ?b = "tb_new now0 (global_capacity cfg) (global_refill_per_second cfg)"
  have new: "tb_tokens ?b = ?cap" "tb_last_refill ?b = now0" "tb_capacity ?b = global_capacity cfg"
      "tb_refill_per_second ?b = global_refill_per_second cfg"
    by (simp_all add: tb_new_def)
  obtain n where bs: "sorted (now0 # bs)" "\<forall>t \<in> set (now0 # bs). t \<le> cb" "length bs \<le> length rs"
      "tb_run ?b bs = (n, rl_global_bucket rl)" "length (granted_times rs) \<le> n"
    using seen unfolding seen_bucket_def by blast
  have until: "last (now0 # bs) - now0 \<le> cb - now0"
    using bs(2) last_in_set [of "now0 # bs"] by (intro diff_le_mono) blast
  have "of_nat n + tb_tokens (rl_global_bucket rl) \<le> ?cap +
      ?rate * (of_nat (last (now0 # bs) - now0) / of_nat nanos_per_sec) * (1 + eps) ^ 4 + 2 * eps * ?cap * of_nat (length bs)"
    using tb_run_bound [OF tb_new_ok _ bs(4), unfolded new, OF bs(1)] .
  moreover have "?rate * (of_nat (last (now0 # bs) - now0) / of_nat nanos_per_sec) * (1 + eps) ^ 4 \<le>
      ?rate * (of_nat (cb - now0) / of_nat nanos_per_sec) * (1 + eps) ^ 4"
    by (intro mult_right_mono mult_left_mono divide_right_mono of_nat_mono until) (simp_all add: eps_def)
  moreover have "2 * eps * ?cap * of_nat (length bs) \<le> 2 * eps * ?cap * of_nat (length rs)"
    by (intro mult_left_mono of_nat_mono bs(3) mult_nonneg_nonneg) (simp_all add: eps_def)
  moreover have "0 \<le> tb_tokens (rl_global_bucket rl)" using ok by (simp add: rl_ok_def tb_ok_def)
  moreover have "(of_nat (length (granted_times rs)) :: rat) \<le> of_nat n" by (rule of_nat_mono [OF bs(5)])
  ultimately show ?thesis by linarith
qed

lemma seen_window_bound:
  assumes "seen_window cfg rl cw M rs ts"
  shows "in_interval a (global_window cfg) (granted_times rs) \<le> global_window_limit cfg"
proof -
  have "in_interval a (global_window cfg) ([] @ [] @ window_run (global_window cfg) (global_window_limit cfg) [] ts)
      \<le> global_window_limit cfg"
    by (rule window_run_bound) (use assms in \<open>simp_all add: seen_window_def\<close>)
  moreover have "mset (granted_times rs) \<subseteq># mset (window_run (global_window cfg) (global_window_limit cfg) [] ts)"
    using assms unfolding seen_window_def by (meson mset_subset_eq_add_left subset_mset.order_trans)
  from in_interval_mono [OF this] have "in_interval a (global_window cfg) (granted_times rs) \<le>
      in_interval a (global_window cfg) (window_run (global_window cfg) (global_window_limit cfg) [] ts)" .
  ultimately show ?thesis by simp
qed

section \<open>Properties\<close>

text \<open>
  C15. The rate limiter keeps its limits under concurrency: however the two critical sections of any
  number of calls interleave, no interval as long as the configured window contains more granted calls,
  by the time of their window, than the configured limit; all calls granted until now are at most the
  capacity of the global bucket and its refill since the limiter was made, up to the rounding of
  \<open>f64\<close>; and no call panics.
\<close>

theorem rate_limiter_concurrent_limits:
  assumes "rl_concurrent cfg now0 rl cw cb M rs"
  shows "in_interval a (global_window cfg) (granted_times rs) \<le> global_window_limit cfg \<and>
    of_nat (length (granted_times rs)) \<le> rat_of_u32 (global_capacity cfg) +
      rat_of_u32 (global_refill_per_second cfg) * (of_nat (cb - now0) / of_nat nanos_per_sec) * (1 + eps) ^ 4 +
      2 * eps * rat_of_u32 (global_capacity cfg) * of_nat (length rs) \<and>
    (\<forall>(t, r) \<in> set rs. \<forall>msg. r \<noteq> Panic msg)"
proof -
  have seen: "rl_seen cfg now0 rl cw cb M rs" by (rule rl_concurrent_seen [OF assms])
  obtain ts where ts: "seen_window cfg rl cw M rs ts" using seen unfolding rl_seen_def by (elim conjE exE)
  obtain bs where bs: "seen_bucket cfg now0 rl cb rs bs" using seen unfolding rl_seen_def by (elim conjE exE)
  have ok: "rl_ok rl" and quiet: "\<forall>(t, r) \<in> set rs. \<forall>msg. r \<noteq> Panic msg"
    using seen unfolding rl_seen_def by - (elim conjE; assumption)+
  show ?thesis by (rule conjI [OF seen_window_bound [OF ts] conjI [OF seen_bucket_bound [OF bs ok] quiet]])
qed

text \<open>
  Two calls that pass the window in one order and the buckets in the other one.
\<close>

definition overtaking :: "rate_limiter \<times> (instant \<times> unit outcome) list" where
  "overtaking =
     (let rl = rl_new 0 demo_rl_cfg;
          rl = snd (allow_global_window 1 rl);
          rl = snd (allow_global_window 2 rl);
          (r2, rl) = allow_buckets 3 3 3 (V4 2) rl;
          (r1, rl) = allow_buckets 4 4 4 (V4 1) rl in
      (rl, [(1, r1), (2, r2)]))"

theorem rate_limiter_concurrent_limits_witness:
  "in_interval 0 (secs 60) (granted_times (snd overtaking)) \<le> 2"
proof -
  let ?rl = "rl_new 0 demo_rl_cfg"
  let ?rl1 = "snd (allow_global_window 1 ?rl)"
  let ?rl2 = "snd (allow_global_window 2 ?rl1)"
  have ok: "fst (allow_global_window 1 ?rl)" "fst (allow_global_window 2 ?rl1)"
    by (simp_all add: allow_global_window_def window_allow_def rl_new_def demo_rl_cfg_def Let_def)
  have "rl_concurrent demo_rl_cfg 0 ?rl1 1 0 {#(1, V4 1)#} []"
    by (rule rl_concurrent.entered [OF rl_concurrent.start]) (use ok in \<open>simp_all add: prod_eq_iff\<close>)
  then have two: "rl_concurrent demo_rl_cfg 0 ?rl2 2 0 {#(2, V4 2), (1, V4 1)#} []"
    by (rule rl_concurrent.entered) (use ok in \<open>simp_all add: prod_eq_iff\<close>)
  obtain r2 rl3 where s2: "allow_buckets 3 3 3 (V4 2) ?rl2 = (r2, rl3)" by fastforce
  obtain r1 rl4 where s1: "allow_buckets 4 4 4 (V4 1) rl3 = (r1, rl4)" by fastforce
  have "rl_concurrent demo_rl_cfg 0 rl3 2 3 {#(1, V4 1)#} [(2, r2)]"
    by (rule rl_concurrent.decided [OF two _ _ _ _ s2]) simp_all
  then have "rl_concurrent demo_rl_cfg 0 rl4 2 4 {#} [(1, r1), (2, r2)]"
    by (rule rl_concurrent.decided [OF _ _ _ _ _ s1]) simp_all
  from rate_limiter_concurrent_limits [OF this, of 0, THEN conjunct1]
  have "in_interval 0 (secs 60) (granted_times [(1, r1), (2, r2)]) \<le> 2"
    by (simp only: demo_rl_cfg_def rate_limiter_config.simps)
  moreover have "snd overtaking = [(1, r1), (2, r2)]"
    by (simp only: overtaking_def Let_def s2 s1 prod.case snd_conv)
  ultimately show ?thesis by (simp only:)
qed

end
