(* ===== verification/Guard_Stack.thy ===== *)
theory Guard_Stack
  imports Guard_Types
begin

text \<open>
  The guard stack (src/src/guard/stack.rs): allowlist, ordered admission with rollback, the
  session of an admitted connection and its events. The stack is generic in the guards, as the
  code is: every operation takes the table of trait methods. The i-th guard visited by an
  operation is called at clock reading \<open>clk (2 * i)\<close> and its event is stamped
  \<open>clk (2 * i + 1)\<close>. The observer is the trace of the events it received.
\<close>

section \<open>Allowlist\<close>

type_synonym allowlist = "ip_addr set"

definition allow :: "ip_addr \<Rightarrow> allowlist \<Rightarrow> allowlist" where
  "allow ip ips = insert ip ips"

definition disallow :: "ip_addr \<Rightarrow> allowlist \<Rightarrow> bool \<times> allowlist" where
  "disallow ip ips = (ip \<in> ips, ips - {ip})"

definition allow_contains :: "ip_addr \<Rightarrow> allowlist \<Rightarrow> bool" where
  "allow_contains ip ips = (ip \<in> ips)"

definition allow_clear :: "allowlist \<Rightarrow> allowlist" where
  "allow_clear ips = {}"

section \<open>Stack and session\<close>

record 'g guard_stack =
  gs_guards :: "'g list"
  gs_observer :: bool
  gs_allowlist :: allowlist
  gs_events :: "guard_event list"

record guard_session =
  ss_context :: guard_context
  ss_closed :: bool
  ss_established :: bool
  ss_allowed :: bool

definition gs_new :: "'g guard_stack" where
  "gs_new = \<lparr>gs_guards = [], gs_observer = False, gs_allowlist = {}, gs_events = []\<rparr>"

definition emit :: "bool \<Rightarrow> guard_event \<Rightarrow> guard_event list \<Rightarrow> guard_event list" where
  "emit observer e events = (if observer then events @ [e] else events)"

definition allow_event :: "string \<Rightarrow> guard_event_kind \<Rightarrow> guard_context \<Rightarrow> string \<Rightarrow> instant \<Rightarrow> guard_event" where
  "allow_event name kind ctx detail now =
     \<lparr>ge_guard = name, ge_kind = kind, ge_peer_addr = gc_peer_addr ctx, ge_decision = Allow,
      ge_detail = detail, ge_occurred_at = now\<rparr>"

text \<open>The loop of \<open>reserve\<close>: \<open>accepted\<close> holds the guards that said yes, the last one first.\<close>

fun reserve_loop ::
    "'g guard_ops \<Rightarrow> bool \<Rightarrow> guard_context \<Rightarrow> (nat \<Rightarrow> instant) \<Rightarrow> nat \<Rightarrow> 'g list \<Rightarrow> 'g list \<Rightarrow>
     guard_event list \<Rightarrow> unit outcome \<times> 'g list \<times> guard_event list" where
  "reserve_loop ops obs ctx clk i accepted [] events = (Ok (), rev accepted, events)"
| "reserve_loop ops obs ctx clk i accepted (g # rest) events =
     (case on_reserve ops (clk (2 * i)) ctx g of
        (Err err, g) \<Rightarrow>
          let rolled_back = map (on_close ops ctx) accepted;
              reason = display_error err;
              name = guard_name ops g;
              event = \<lparr>ge_guard = name, ge_kind = Reserve, ge_peer_addr = gc_peer_addr ctx,
                ge_decision = Deny (guard_rejected name reason),
                ge_detail = name @ '' rejected reservation'', ge_occurred_at = clk (2 * i + 1)\<rparr> in
          (Err (guard_rejected name reason), rev rolled_back @ g # rest, emit obs event events)
      | (Panic msg, g) \<Rightarrow> (Panic msg, rev accepted @ g # rest, events)
      | (Ok _, g) \<Rightarrow>
          reserve_loop ops obs ctx clk (Suc i) (g # accepted) rest
            (emit obs (allow_event (guard_name ops g) Reserve ctx
              (guard_name ops g @ '' allowed reservation'') (clk (2 * i + 1))) events))"

definition gs_reserve ::
    "'g guard_ops \<Rightarrow> (nat \<Rightarrow> instant) \<Rightarrow> guard_context \<Rightarrow> 'g guard_stack \<Rightarrow>
     guard_session outcome \<times> 'g guard_stack" where
  "gs_reserve ops clk ctx st =
     (if allow_contains (gc_peer_ip ctx) (gs_allowlist st) then
        (Ok \<lparr>ss_context = ctx, ss_closed = False, ss_established = False, ss_allowed = True\<rparr>, st)
      else
        let (r, guards, events) =
              reserve_loop ops (gs_observer st) ctx clk 0 [] (gs_guards st) (gs_events st);
            st = st\<lparr>gs_guards := guards, gs_events := events\<rparr> in
        case r of
          Err e \<Rightarrow> (Err e, st)
        | Panic msg \<Rightarrow> (Panic msg, st)
        | Ok _ \<Rightarrow>
            (Ok \<lparr>ss_context = ctx, ss_closed = False, ss_established = False, ss_allowed = False\<rparr>, st))"

text \<open>
  The loops of \<open>mark_established\<close>, \<open>record_payload\<close> and \<open>touch\<close>: call every guard in order, emit
  an event for each, stop at the first error (the \<open>?\<close> operator).
\<close>

fun visit_guards ::
    "(nat \<Rightarrow> 'g \<Rightarrow> unit outcome \<times> 'g) \<Rightarrow> (nat \<Rightarrow> 'g \<Rightarrow> guard_event) \<Rightarrow> bool \<Rightarrow> nat \<Rightarrow> 'g list \<Rightarrow>
     guard_event list \<Rightarrow> unit outcome \<times> 'g list \<times> guard_event list" where
  "visit_guards call event obs i [] events = (Ok (), [], events)"
| "visit_guards call event obs i (g # rest) events =
     (case call i g of
        (Ok _, g) \<Rightarrow>
          (let (r, rest, events) = visit_guards call event obs (Suc i) rest (emit obs (event i g) events)
           in (r, g # rest, events))
      | (r, g) \<Rightarrow> (r, g # rest, events))"

definition visit_stack ::
    "(nat \<Rightarrow> 'g \<Rightarrow> unit outcome \<times> 'g) \<Rightarrow> (nat \<Rightarrow> 'g \<Rightarrow> guard_event) \<Rightarrow> 'g guard_stack \<Rightarrow>
     unit outcome \<times> 'g guard_stack" where
  "visit_stack call event st =
     (let (r, guards, events) = visit_guards call event (gs_observer st) 0 (gs_guards st) (gs_events st)
      in (r, st\<lparr>gs_guards := guards, gs_events := events\<rparr>))"

definition mark_established ::
    "'g guard_ops \<Rightarrow> (nat \<Rightarrow> instant) \<Rightarrow> guard_session \<Rightarrow> 'g guard_stack \<Rightarrow>
     unit outcome \<times> guard_session \<times> 'g guard_stack" where
  "mark_established ops clk ss st =
     (if ss_allowed ss then (Ok (), ss, st)
      else if ss_established ss then (Ok (), ss, st)
      else
        let ss = ss\<lparr>ss_established := True\<rparr>;
            (r, st) = visit_stack
              (\<lambda>i g. on_established ops (clk (2 * i)) (ss_context ss) g)
              (\<lambda>i g. allow_event (guard_name ops g) Established (ss_context ss)
                 (guard_name ops g @ '' saw connection established'') (clk (2 * i + 1))) st in
        (r, ss, st))"

definition payload_call ::
    "'g guard_ops \<Rightarrow> guard_context \<Rightarrow> u8 list \<Rightarrow> instant \<Rightarrow> 'g \<Rightarrow> unit outcome \<times> 'g" where
  "payload_call ops ctx payload now g =
     (case on_activity ops now ctx g of
        (Ok _, g) \<Rightarrow> on_payload ops payload now ctx g
      | (r, g) \<Rightarrow> (r, g))"

definition record_payload ::
    "'g guard_ops \<Rightarrow> (nat \<Rightarrow> instant) \<Rightarrow> u8 list \<Rightarrow> guard_session \<Rightarrow> 'g guard_stack \<Rightarrow>
     unit outcome \<times> 'g guard_stack" where
  "record_payload ops clk payload ss st =
     (if ss_allowed ss then (Ok (), st)
      else visit_stack
        (\<lambda>i g. payload_call ops (ss_context ss) payload (clk (2 * i)) g)
        (\<lambda>i g. allow_event (guard_name ops g) Payload (ss_context ss)
           (guard_name ops g @ '' inspected '' @ show_nat (length payload) @ '' payload bytes'')
           (clk (2 * i + 1))) st)"

definition touch ::
    "'g guard_ops \<Rightarrow> (nat \<Rightarrow> instant) \<Rightarrow> guard_session \<Rightarrow> 'g guard_stack \<Rightarrow>
     unit outcome \<times> 'g guard_stack" where
  "touch ops clk ss st =
     (if ss_allowed ss then (Ok (), st)
      else visit_stack
        (\<lambda>i g. on_activity ops (clk (2 * i)) (ss_context ss) g)
        (\<lambda>i g. allow_event (guard_name ops g) Activity (ss_context ss)
           (guard_name ops g @ '' saw connection activity'') (clk (2 * i + 1))) st)"

fun close_loop ::
    "'g guard_ops \<Rightarrow> bool \<Rightarrow> guard_context \<Rightarrow> (nat \<Rightarrow> instant) \<Rightarrow> nat \<Rightarrow> 'g list \<Rightarrow>
     guard_event list \<Rightarrow> 'g list \<times> guard_event list" where
  "close_loop ops obs ctx clk i [] events = ([], events)"
| "close_loop ops obs ctx clk i (g # rest) events =
     (let g = on_close ops ctx g;
          event = allow_event (guard_name ops g) Close ctx
            (guard_name ops g @ '' saw connection close'') (clk (2 * i + 1));
          (rest, events) = close_loop ops obs ctx clk (Suc i) rest (emit obs event events) in
      (g # rest, events))"

definition close_session ::
    "'g guard_ops \<Rightarrow> (nat \<Rightarrow> instant) \<Rightarrow> guard_session \<Rightarrow> 'g guard_stack \<Rightarrow> guard_session \<times> 'g guard_stack" where
  "close_session ops clk ss st =
     (if ss_allowed ss then (ss, st)
      else if ss_closed ss then (ss, st)
      else
        let ss = ss\<lparr>ss_closed := True\<rparr>;
            (guards, events) =
              close_loop ops (gs_observer st) (ss_context ss) clk 0 (gs_guards st) (gs_events st) in
        (ss, st\<lparr>gs_guards := guards, gs_events := events\<rparr>))"

text \<open>Dropping a session closes it.\<close>

definition drop_session ::
    "'g guard_ops \<Rightarrow> (nat \<Rightarrow> instant) \<Rightarrow> guard_session \<Rightarrow> 'g guard_stack \<Rightarrow> 'g guard_stack" where
  "drop_session ops clk ss st = snd (close_session ops clk ss st)"

section \<open>Builder\<close>

record 'g guard_stack_builder =
  gsb_guards :: "'g list"
  gsb_observer :: bool
  gsb_allowlist :: allowlist

definition stack_builder :: "'g guard_stack_builder" where
  "stack_builder = \<lparr>gsb_guards = [], gsb_observer = False, gsb_allowlist = {}\<rparr>"

definition builder_push :: "'g \<Rightarrow> 'g guard_stack_builder \<Rightarrow> 'g guard_stack_builder" where
  "builder_push g b = b\<lparr>gsb_guards := gsb_guards b @ [g]\<rparr>"

definition builder_observer :: "'g guard_stack_builder \<Rightarrow> 'g guard_stack_builder" where
  "builder_observer b = b\<lparr>gsb_observer := True\<rparr>"

definition builder_allowlist :: "allowlist \<Rightarrow> 'g guard_stack_builder \<Rightarrow> 'g guard_stack_builder" where
  "builder_allowlist ips b = b\<lparr>gsb_allowlist := ips\<rparr>"

definition builder_build :: "'g guard_stack_builder \<Rightarrow> 'g guard_stack" where
  "builder_build b =
     \<lparr>gs_guards = gsb_guards b, gs_observer = gsb_observer b, gs_allowlist = gsb_allowlist b, gs_events = []\<rparr>"

text \<open>The handle of the allowlist is the set its shared cell holds.\<close>

definition stack_allowlist :: "'g guard_stack \<Rightarrow> allowlist" where
  "stack_allowlist st = gs_allowlist st"

lemma builder_simps [simp]:
  "gs_guards (builder_build b) = gsb_guards b" "gs_observer (builder_build b) = gsb_observer b"
  "gs_allowlist (builder_build b) = gsb_allowlist b" "gs_events (builder_build b) = []"
  "gsb_guards stack_builder = []" "gsb_observer stack_builder = False" "gsb_allowlist stack_builder = {}"
  by (simp_all add: builder_build_def stack_builder_def)

lemma empty_build: "builder_build stack_builder = gs_new"
  by (simp add: builder_build_def stack_builder_def gs_new_def)

section \<open>What any session may do\<close>

datatype session_op =
    MarkEstablished "nat \<Rightarrow> instant"
  | RecordPayload "nat \<Rightarrow> instant" "u8 list"
  | Touch "nat \<Rightarrow> instant"

fun session_step ::
    "'g guard_ops \<Rightarrow> session_op \<Rightarrow> guard_session \<times> 'g guard_stack \<Rightarrow> guard_session \<times> 'g guard_stack" where
  "session_step ops (MarkEstablished clk) (ss, st) = snd (mark_established ops clk ss st)"
| "session_step ops (RecordPayload clk payload) (ss, st) = (ss, snd (record_payload ops clk payload ss st))"
| "session_step ops (Touch clk) (ss, st) = (ss, snd (touch ops clk ss st))"

lemma close_loop_guards: "fst (close_loop ops obs ctx clk i gs events) = map (on_close ops ctx) gs"
  by (induction gs arbitrary: i events) (simp_all add: Let_def split_beta)

lemma close_session_guards:
  "gs_guards (snd (close_session ops clk ss st)) =
     (if ss_allowed ss \<or> ss_closed ss then gs_guards st
      else map (on_close ops (ss_context ss)) (gs_guards st))"
  using close_loop_guards [of ops "gs_observer st" "ss_context ss" clk 0 "gs_guards st" "gs_events st"]
  by (auto simp: close_session_def Let_def split: prod.splits)

lemma close_session_flags:
  "ss_allowed (fst (close_session ops clk ss st)) = ss_allowed ss"
  "ss_closed (fst (close_session ops clk ss st)) \<longleftrightarrow> ss_closed ss \<or> \<not> ss_allowed ss"
  by (auto simp: close_session_def Let_def split: prod.splits)

lemma session_step_session:
  assumes "session_step ops c (ss, st) = (ss', st')"
  shows "ss_context ss' = ss_context ss \<and> ss_allowed ss' = ss_allowed ss \<and> ss_closed ss' = ss_closed ss \<and>
    (ss_established ss \<longrightarrow> ss_established ss')"
  using assms by (cases c) (auto simp: mark_established_def Let_def split: prod.splits if_splits)

lemma session_steps_context:
  "fold (session_step ops) cs (ss, st) = (ss', st') \<Longrightarrow> ss_context ss' = ss_context ss"
proof (induction cs arbitrary: ss st)
  case Nil
  then show ?case by simp
next
  case (Cons c cs)
  obtain ss1 st1 where step: "session_step ops c (ss, st) = (ss1, st1)" by fastforce
  show ?case using Cons.IH [of ss1 st1] Cons.prems step session_step_session [OF step] by simp
qed

lemma visit_guards_all:
  assumes "\<And>i g. P g \<Longrightarrow> P (snd (call i g))" "list_all P gs"
  shows "list_all P (fst (snd (visit_guards call event obs i gs events)))"
  using assms(2)
proof (induction gs arbitrary: i events)
  case Nil
  then show ?case by simp
next
  case (Cons g gs)
  then show ?case
    using assms(1) [of g i] by (auto split: prod.splits outcome.splits) (metis fst_conv snd_conv)+
qed

lemma visit_guards_once:
  assumes "\<And>i u g. P u g \<Longrightarrow> Q u (snd (call i g))" "list_all2 P us gs"
  shows "list_all2 (\<lambda>u g. P u g \<or> Q u g) us (fst (snd (visit_guards call event obs i gs events)))"
  using assms(2)
proof (induction us gs arbitrary: i events rule: list_all2_induct)
  case Nil
  then show ?case by simp
next
  case (Cons u us g gs)
  have "list_all2 (\<lambda>u g. P u g \<or> Q u g) us gs" using Cons(2) by (rule list_all2_mono) blast
  then show ?case
    using assms(1) [OF Cons(1), of i] Cons(3) [of "Suc i"]
    by (auto split: prod.splits outcome.splits) (metis fst_conv snd_conv)+
qed

lemma visit_guards_all2:
  assumes "\<And>i u g. P u g \<Longrightarrow> P u (snd (call i g))" "list_all2 P us gs"
  shows "list_all2 P us (fst (snd (visit_guards call event obs i gs events)))"
  using visit_guards_once [of P P call us gs event obs i events] assms by simp

section \<open>The contract of a guard\<close>

text \<open>
  What the stack relies on: a guard keeps its invariant; a refusal holds nothing; what an accepted
  reservation holds is given back by \<open>on_close\<close>. \<open>usage ctx g\<close> is what guard \<open>g\<close> holds that
  is visible to the connection of \<open>ctx\<close>, \<open>fresh ctx g\<close> that this connection is not known yet.
\<close>

locale undoable_guards =
  fixes ops :: "'g guard_ops"
    and inv :: "'g \<Rightarrow> bool"
    and fresh :: "guard_context \<Rightarrow> 'g \<Rightarrow> bool"
    and usage :: "guard_context \<Rightarrow> 'g \<Rightarrow> nat list"
  assumes reserve_inv: "inv g \<Longrightarrow> context_ok ctx \<Longrightarrow> inv (snd (on_reserve ops t ctx g))"
    and close_inv: "inv g \<Longrightarrow> context_ok ctx \<Longrightarrow> inv (on_close ops ctx g)"
    and refusal: "inv g \<Longrightarrow> context_ok ctx \<Longrightarrow> on_reserve ops t ctx g = (Err e, g') \<Longrightarrow>
      usage ctx g' = usage ctx g"
    and reserve_returns: "inv g \<Longrightarrow> fst (on_reserve ops t ctx g) \<noteq> Panic msg"
    and undo: "inv g \<Longrightarrow> context_ok ctx \<Longrightarrow> fresh ctx g \<Longrightarrow> on_reserve ops t ctx g = (Ok u, g') \<Longrightarrow>
      usage ctx (on_close ops ctx g') = usage ctx g"
begin

lemma reserve_loop_refused:
  assumes "context_ok ctx" "list_all (\<lambda>g. inv g \<and> fresh ctx g) todo"
    and "reserve_loop ops obs ctx clk i accepted todo events = (r, gs, events')"
    and "list_all inv accepted"
  shows "(\<forall>msg. r \<noteq> Panic msg) \<and> list_all inv gs \<and>
    (\<forall>e. r = Err e \<longrightarrow>
      map (usage ctx) gs = map (usage ctx) (rev (map (on_close ops ctx) accepted)) @ map (usage ctx) todo)"
  using assms(2-4)
proof (induction todo arbitrary: i accepted events)
  case Nil
  then show ?case by auto
next
  case (Cons g todo)
  obtain r1 g1 where step: "on_reserve ops (clk (2 * i)) ctx g = (r1, g1)" by fastforce
  have g: "inv g" "fresh ctx g" using Cons.prems(1) by simp_all
  have g1: "inv g1" using reserve_inv [OF g(1) assms(1), of "clk (2 * i)"] step by simp
  show ?case
  proof (cases r1)
    case (Ok u)
    then have "usage ctx (on_close ops ctx g1) = usage ctx g"
      using undo [OF g(1) assms(1) g(2)] step by simp
    moreover have "reserve_loop ops obs ctx clk (Suc i) (g1 # accepted) todo
        (emit obs (allow_event (guard_name ops g1) Reserve ctx
          (guard_name ops g1 @ '' allowed reservation'') (clk (2 * i + 1))) events) = (r, gs, events')"
      using Cons.prems(2) step Ok by simp
    ultimately show ?thesis using Cons.IH [of "Suc i" "g1 # accepted"] Cons.prems(1,3) g1 by simp
  next
    case (Err e)
    then have "usage ctx g1 = usage ctx g" using refusal [OF g(1) assms(1)] step by simp
    then show ?thesis
      using Cons.prems step Err g1 close_inv [OF _ assms(1)]
      by (auto simp: Let_def list_all_iff rev_map)
  next
    case (Panic msg)
    then show ?thesis using reserve_returns [OF g(1), of "clk (2 * i)" ctx msg] step by simp
  qed
qed

lemma gs_reserve_refused:
  assumes "context_ok ctx" "list_all (\<lambda>g. inv g \<and> fresh ctx g) (gs_guards st)"
    and "gs_reserve ops clk ctx st = (r, st')"
  shows "(\<forall>msg. r \<noteq> Panic msg) \<and>
    (\<forall>e. r = Err e \<longrightarrow> map (usage ctx) (gs_guards st') = map (usage ctx) (gs_guards st))"
proof -
  obtain r1 gs events where loop:
    "reserve_loop ops (gs_observer st) ctx clk 0 [] (gs_guards st) (gs_events st) = (r1, gs, events)"
    using prod_cases3 by blast
  show ?thesis
    using reserve_loop_refused [OF assms(1,2) loop] assms(3) loop
    by (auto simp: gs_reserve_def Let_def split: if_splits outcome.splits)
qed

end

text \<open>
  The life of an accepted reservation: \<open>pending ctx u g\<close> before and \<open>settled ctx u g\<close> after the
  connection is established; \<open>u\<close> is the usage that closing brings back.
\<close>

locale lifecycle_guards = undoable_guards ops inv fresh usage
  for ops :: "'g guard_ops" and inv :: "'g \<Rightarrow> bool"
    and fresh :: "guard_context \<Rightarrow> 'g \<Rightarrow> bool" and usage :: "guard_context \<Rightarrow> 'g \<Rightarrow> nat list" +
  fixes pending :: "guard_context \<Rightarrow> nat list \<Rightarrow> 'g \<Rightarrow> bool"
    and settled :: "guard_context \<Rightarrow> nat list \<Rightarrow> 'g \<Rightarrow> bool"
  assumes reserve_pending: "inv g \<Longrightarrow> context_ok ctx \<Longrightarrow> fresh ctx g \<Longrightarrow>
      on_reserve ops t ctx g = (Ok u, g') \<Longrightarrow> pending ctx (usage ctx g) g'"
    and established_settled: "pending ctx us g \<Longrightarrow> context_ok ctx \<Longrightarrow>
      settled ctx us (snd (on_established ops t ctx g))"
    and activity_pending: "pending ctx us g \<Longrightarrow> context_ok ctx \<Longrightarrow>
      pending ctx us (snd (on_activity ops t ctx g))"
    and activity_settled: "settled ctx us g \<Longrightarrow> context_ok ctx \<Longrightarrow>
      settled ctx us (snd (on_activity ops t ctx g))"
    and payload_pending: "pending ctx us g \<Longrightarrow> context_ok ctx \<Longrightarrow>
      pending ctx us (snd (on_payload ops payload t ctx g))"
    and payload_settled: "settled ctx us g \<Longrightarrow> context_ok ctx \<Longrightarrow>
      settled ctx us (snd (on_payload ops payload t ctx g))"
    and close_pending: "pending ctx us g \<Longrightarrow> context_ok ctx \<Longrightarrow> usage ctx (on_close ops ctx g) = us"
    and close_settled: "settled ctx us g \<Longrightarrow> context_ok ctx \<Longrightarrow> usage ctx (on_close ops ctx g) = us"
begin

definition open_session :: "nat list list \<Rightarrow> guard_session \<Rightarrow> 'g guard_stack \<Rightarrow> bool" where
  "open_session us ss st \<longleftrightarrow> context_ok (ss_context ss) \<and> \<not> ss_allowed ss \<and> \<not> ss_closed ss \<and>
     (if ss_established ss
      then list_all2 (\<lambda>u g. pending (ss_context ss) u g \<or> settled (ss_context ss) u g) us (gs_guards st)
      else list_all2 (pending (ss_context ss)) us (gs_guards st))"

lemma payload_call_pending:
  assumes "pending ctx us g" "context_ok ctx"
  shows "pending ctx us (snd (payload_call ops ctx payload t g))"
  using assms activity_pending [OF assms, of t] payload_pending
  by (auto simp: payload_call_def split: prod.splits outcome.splits)

lemma payload_call_settled:
  assumes "settled ctx us g" "context_ok ctx"
  shows "settled ctx us (snd (payload_call ops ctx payload t g))"
  using assms activity_settled [OF assms, of t] payload_settled
  by (auto simp: payload_call_def split: prod.splits outcome.splits)

lemma visit_stack_all2:
  assumes "\<And>i u g. P u g \<Longrightarrow> P u (snd (call i g))" "list_all2 P us (gs_guards st)"
  shows "list_all2 P us (gs_guards (snd (visit_stack call event st)))"
  using visit_guards_all2 [of P call us "gs_guards st", OF assms]
  by (simp add: visit_stack_def split_beta)

lemma session_step_open:
  assumes "open_session us ss st" "session_step ops c (ss, st) = (ss', st')"
  shows "open_session us ss' st'"
proof -
  let ?ctx = "ss_context ss"
  let ?any = "\<lambda>u g. pending ?ctx u g \<or> settled ?ctx u g"
  have ok: "context_ok ?ctx" "\<not> ss_allowed ss" "\<not> ss_closed ss"
    using assms(1) by (simp_all add: open_session_def)
  have any: "list_all2 ?any us (gs_guards st)"
    using assms(1) by (auto simp: open_session_def split: if_splits elim: list_all2_mono)
  show ?thesis
  proof (cases c)
    case (MarkEstablished clk)
    have "list_all2 ?any us (gs_guards (snd (visit_stack
        (\<lambda>i g. on_established ops (clk (2 * i)) ?ctx g) event st)))"
      if "list_all2 (pending ?ctx) us (gs_guards st)" for event
    proof -
      show ?thesis unfolding visit_stack_def
        using visit_guards_once [of "pending ?ctx" "settled ?ctx"] that established_settled [OF _ ok(1)]
        by (simp add: split_beta)
    qed
    then show ?thesis
      using assms MarkEstablished
      by (auto simp: open_session_def mark_established_def Let_def split_beta split: if_splits)
  next
    case (RecordPayload clk payload)
    then show ?thesis
      using assms payload_call_pending [OF _ ok(1)] payload_call_settled [OF _ ok(1)]
      by (auto simp: open_session_def record_payload_def intro!: visit_stack_all2 split: if_splits)
  next
    case (Touch clk)
    then show ?thesis
      using assms activity_pending [OF _ ok(1)] activity_settled [OF _ ok(1)]
      by (auto simp: open_session_def touch_def intro!: visit_stack_all2 split: if_splits)
  qed
qed

lemma session_steps_open:
  "open_session us ss st \<Longrightarrow> fold (session_step ops) cs (ss, st) = (ss', st') \<Longrightarrow> open_session us ss' st'"
proof (induction cs arbitrary: ss st)
  case Nil
  then show ?case by simp
next
  case (Cons c cs)
  obtain ss1 st1 where step: "session_step ops c (ss, st) = (ss1, st1)" by fastforce
  show ?case
    using Cons.IH [OF session_step_open [OF Cons.prems(1) step]] Cons.prems(2) step by simp
qed

lemma reserve_loop_pending:
  assumes "context_ok ctx" "list_all (\<lambda>g. inv g \<and> fresh ctx g) todo"
    and "reserve_loop ops obs ctx clk i accepted todo events = (Ok u, gs, events')"
    and "list_all2 (pending ctx) us (rev accepted)"
  shows "list_all2 (pending ctx) (us @ map (usage ctx) todo) gs"
  using assms(2-4)
proof (induction todo arbitrary: i accepted us events)
  case Nil
  then show ?case by simp
next
  case (Cons g todo)
  obtain r1 g1 where step: "on_reserve ops (clk (2 * i)) ctx g = (r1, g1)" by fastforce
  then obtain u1 where r1: "r1 = Ok u1" using Cons.prems(2) by (cases r1) (auto simp: Let_def)
  then have "pending ctx (usage ctx g) g1"
    using reserve_pending [OF _ assms(1)] step Cons.prems(1) by simp
  then have "list_all2 (pending ctx) (us @ [usage ctx g]) (rev (g1 # accepted))"
    using Cons.prems(3) by (simp add: list_all2_appendI)
  then show ?case
    using Cons.IH [of "Suc i" "g1 # accepted" _ "us @ [usage ctx g]"] Cons.prems(1,2) step r1 by simp
qed

lemma session_gives_back:
  assumes "context_ok ctx" "list_all (\<lambda>g. inv g \<and> fresh ctx g) (gs_guards st)"
    and "gs_reserve ops clk ctx st = (Ok ss, st1)"
    and "fold (session_step ops) cs (ss, st1) = (ss2, st2)"
  shows "map (usage ctx) (gs_guards (drop_session ops clk2 ss2 st2)) =
    (if ss_allowed ss then map (usage ctx) (gs_guards st1) else map (usage ctx) (gs_guards st))"
proof (cases "ss_allowed ss")
  case True
  have "ss_allowed (fst (fold (session_step ops) cs (ss, st1))) = ss_allowed ss \<and>
      (ss_allowed ss \<longrightarrow> snd (fold (session_step ops) cs (ss, st1)) = st1)" for ss st1
  proof (induction cs arbitrary: ss st1)
    case (Cons c cs)
    then show ?case by (cases c) (auto simp: mark_established_def record_payload_def touch_def split_beta)
  qed simp
  from this [of ss st1] True assms(4) show ?thesis by (simp add: drop_session_def close_session_def)
next
  case False
  obtain r1 gs events where loop:
    "reserve_loop ops (gs_observer st) ctx clk 0 [] (gs_guards st) (gs_events st) = (r1, gs, events)"
    using prod_cases3 by blast
  then have r: "r1 = Ok ()" "gs_guards st1 = gs" "ss = \<lparr>ss_context = ctx, ss_closed = False,
      ss_established = False, ss_allowed = False\<rparr>"
    using assms(3) False by (auto simp: gs_reserve_def Let_def split: if_splits outcome.splits)
  have "list_all2 (pending ctx) (map (usage ctx) (gs_guards st)) gs"
    using reserve_loop_pending [OF assms(1,2) loop [unfolded r(1)], of "[]"] by simp
  then have "open_session (map (usage ctx) (gs_guards st)) ss st1"
    using assms(1) r by (simp add: open_session_def)
  then have o: "open_session (map (usage ctx) (gs_guards st)) ss2 st2"
    using assms(4) by (rule session_steps_open)
  have ctx: "ss_context ss2 = ctx"
    using session_steps_context [OF assms(4)] r(3) by simp
  have "list_all2 (\<lambda>u g. usage ctx (on_close ops ctx g) = u) (map (usage ctx) (gs_guards st)) (gs_guards st2)"
    using o close_pending close_settled assms(1) unfolding open_session_def ctx
    by (auto split: if_splits elim!: list_all2_mono)
  then have "map (\<lambda>g. usage ctx (on_close ops ctx g)) (gs_guards st2) = map (usage ctx) (gs_guards st)"
    by (auto simp: list_all2_conv_all_nth intro: nth_equalityI)
  then show ?thesis
    using False o ctx by (simp add: drop_session_def close_session_guards open_session_def comp_def)
qed

end

end
