(* ===== verification/Ip_Ban.thy ===== *)
theory Ip_Ban
  imports Guard_Types
begin

text \<open>
  The runtime-mutable IP blocklist guard (src/src/guard/ip\_ban.rs). Its state is the set of
  banned addresses; \<open>IpBanConfig\<close> has no field.
\<close>

datatype ip_ban_config = IpBanConfig

record ip_ban =
  banned :: "ip_addr set"

definition ip_ban_new :: "ip_ban_config \<Rightarrow> ip_ban" where
  "ip_ban_new cfg = \<lparr>banned = {}\<rparr>"

definition ban :: "ip_addr \<Rightarrow> ip_ban \<Rightarrow> ip_ban" where
  "ban ip g = g\<lparr>banned := insert ip (banned g)\<rparr>"

definition unban :: "ip_addr \<Rightarrow> ip_ban \<Rightarrow> ip_ban" where
  "unban ip g = g\<lparr>banned := banned g - {ip}\<rparr>"

definition is_banned :: "ip_addr \<Rightarrow> ip_ban \<Rightarrow> bool" where
  "is_banned ip g = (ip \<in> banned g)"

definition ip_ban_on_reserve :: "guard_context \<Rightarrow> ip_ban \<Rightarrow> unit outcome" where
  "ip_ban_on_reserve ctx g =
     (if is_banned (gc_peer_ip ctx) g then Err (BannedIp (display_ip (gc_peer_ip ctx))) else Ok ())"

lemma is_banned_simps [simp]:
  "\<not> is_banned ip (ip_ban_new cfg)"
  "is_banned ip (ban ip' g) \<longleftrightarrow> ip = ip' \<or> is_banned ip g"
  "is_banned ip (unban ip' g) \<longleftrightarrow> ip \<noteq> ip' \<and> is_banned ip g"
  by (auto simp: is_banned_def ip_ban_new_def ban_def unban_def)

text \<open>A history of calls to the public interface of the ban list.\<close>

datatype ban_op = Ban ip_addr | Unban ip_addr

fun ban_call :: "ban_op \<Rightarrow> ip_ban \<Rightarrow> ip_ban" where
  "ban_call (Ban ip) g = ban ip g"
| "ban_call (Unban ip) g = unban ip g"

fun last_ban :: "ip_addr \<Rightarrow> ban_op list \<Rightarrow> bool" where
  "last_ban ip [] = False"
| "last_ban ip (Ban ip' # cs) = (if ip = ip' then True else last_ban ip cs)"
| "last_ban ip (Unban ip' # cs) = (if ip = ip' then False else last_ban ip cs)"

lemma is_banned_history:
  "is_banned ip (fold ban_call cs (ip_ban_new cfg)) = last_ban ip (rev cs)"
proof (induction cs rule: rev_induct)
  case Nil
  show ?case by simp
next
  case (snoc c cs)
  then show ?case by (cases c) auto
qed

text \<open>
  After any sequence of bans and unbans a connection is refused exactly when the last of
  them that names its address is a ban, and the error carries the displayed address.
\<close>

theorem ip_ban_last_call_decides:
  "ip_ban_on_reserve ctx (fold ban_call cs (ip_ban_new cfg)) =
     (if last_ban (gc_peer_ip ctx) (rev cs) then Err (BannedIp (display_ip (gc_peer_ip ctx))) else Ok ())"
  by (simp add: ip_ban_on_reserve_def is_banned_history)

end
