(* ===== verification/Syn_Guard.thy ===== *)
theory Syn_Guard
  imports Guard_Types
begin

text \<open>
  The SYN-flood guard (src/src/guard/syn\_guard.rs): the bookkeeping of half-open connections,
  per address and in total, with a bounded table of tracked addresses. The methods are
  translated statement by statement; \<open>while let Some(..) = pop_front()\<close> loops are recursion over
  the queue.
\<close>

record syn_guard_config =
  sg_max_half_open_per_ip :: usize
  sg_max_half_open_global :: usize
  sg_backlog_limit :: usize
  sg_syn_timeout :: duration
  sg_max_tracked_ips :: usize

definition syn_guard_config_default :: syn_guard_config where
  "syn_guard_config_default =
     \<lparr>sg_max_half_open_per_ip = 32, sg_max_half_open_global = 512, sg_backlog_limit = 1024,
      sg_syn_timeout = secs 5, sg_max_tracked_ips = 100000\<rparr>"

record half_open_state =
  ho_total :: usize
  ho_per_ip :: "(ip_addr, usize) fmap"
  ho_ip_order :: "ip_addr list"
  ho_started_at :: "(ip_addr, instant) fmap"
  ho_established :: "socket_addr set"

record syn_guard =
  sg_config :: syn_guard_config
  sg_state :: half_open_state

definition half_open_default :: half_open_state where
  "half_open_default =
     \<lparr>ho_total = 0, ho_per_ip = fmempty, ho_ip_order = [], ho_started_at = fmempty,
      ho_established = {}\<rparr>"

definition sg_new :: "syn_guard_config \<Rightarrow> syn_guard" where
  "sg_new cfg = \<lparr>sg_config = cfg, sg_state = half_open_default\<rparr>"

fun evict_loop :: "ip_addr list \<Rightarrow> half_open_state \<Rightarrow> half_open_state" where
  "evict_loop [] s = s\<lparr>ho_ip_order := []\<rparr>"
| "evict_loop (old_ip # rest) s =
     (case fmlookup (ho_per_ip s) old_ip of
        Some old_count \<Rightarrow>
          s\<lparr>ho_ip_order := rest, ho_per_ip := fmdrop old_ip (ho_per_ip s),
            ho_total := ho_total s - old_count,
            ho_started_at := fmdrop old_ip (ho_started_at s)\<rparr>
      | None \<Rightarrow> evict_loop rest s)"

definition evict_oldest_tracked_ip :: "half_open_state \<Rightarrow> half_open_state" where
  "evict_oldest_tracked_ip s = evict_loop (ho_ip_order s) s"

definition compact_threshold :: "syn_guard_config \<Rightarrow> nat" where
  "compact_threshold cfg = max (saturating_mul (sg_max_tracked_ips cfg) 4) 16"

fun compact_loop :: "ip_addr list \<Rightarrow> ip_addr set \<Rightarrow> (ip_addr, usize) fmap \<Rightarrow> ip_addr list" where
  "compact_loop [] seen per_ip = []"
| "compact_loop (ip # rest) seen per_ip =
     (if fmlookup per_ip ip \<noteq> None \<and> ip \<notin> seen then ip # compact_loop rest (insert ip seen) per_ip
      else compact_loop rest seen per_ip)"

definition maybe_compact_ip_order :: "syn_guard_config \<Rightarrow> half_open_state \<Rightarrow> half_open_state" where
  "maybe_compact_ip_order cfg s =
     (if length (ho_ip_order s) \<le> compact_threshold cfg then s
      else s\<lparr>ho_ip_order := compact_loop (ho_ip_order s) {} (ho_per_ip s)\<rparr>)"

definition ho_reserve ::
    "syn_guard_config \<Rightarrow> instant \<Rightarrow> ip_addr \<Rightarrow> half_open_state \<Rightarrow> unit outcome \<times> half_open_state" where
  "ho_reserve cfg now ip s =
     (let next_total = ho_total s + 1;
          next_ip = count_of (ho_per_ip s) ip + 1 in
      if sg_max_half_open_global cfg < next_total then
        (Err (throttled ''half-open global'' (sg_max_half_open_global cfg)), s)
      else if sg_max_half_open_per_ip cfg < next_ip then
        (Err (throttled ''half-open per-ip'' (sg_max_half_open_per_ip cfg)), s)
      else
        let is_new_ip = (fmlookup (ho_per_ip s) ip = None);
            s = (if is_new_ip \<and> sg_max_tracked_ips cfg \<le> hash_len (ho_per_ip s)
                 then evict_oldest_tracked_ip s else s);
            s = s\<lparr>ho_total := ho_total s + 1\<rparr>;
            s = (if is_new_ip then s\<lparr>ho_ip_order := ho_ip_order s @ [ip]\<rparr> else s);
            s = s\<lparr>ho_per_ip := fmupd ip next_ip (ho_per_ip s)\<rparr>;
            s = (case fmlookup (ho_started_at s) ip of
                   None \<Rightarrow> s\<lparr>ho_started_at := fmupd ip now (ho_started_at s)\<rparr>
                 | Some _ \<Rightarrow> s) in
        (Ok (), maybe_compact_ip_order cfg s))"

text \<open>The common tail of \<open>establish\<close> and \<open>close\<close>: one half-open connection less.\<close>

definition ho_release :: "syn_guard_config \<Rightarrow> ip_addr \<Rightarrow> half_open_state \<Rightarrow> half_open_state" where
  "ho_release cfg ip s =
     (let s = (if 0 < ho_total s then s\<lparr>ho_total := ho_total s - 1\<rparr> else s) in
      case fmlookup (ho_per_ip s) ip of
        None \<Rightarrow> s
      | Some n \<Rightarrow>
          if 1 < n then s\<lparr>ho_per_ip := fmupd ip (n - 1) (ho_per_ip s)\<rparr>
          else maybe_compact_ip_order cfg
            (s\<lparr>ho_per_ip := fmdrop ip (ho_per_ip s), ho_started_at := fmdrop ip (ho_started_at s)\<rparr>))"

definition ho_establish :: "syn_guard_config \<Rightarrow> socket_addr \<Rightarrow> half_open_state \<Rightarrow> half_open_state" where
  "ho_establish cfg addr s =
     (let s = ho_release cfg (sa_ip addr) s in s\<lparr>ho_established := insert addr (ho_established s)\<rparr>)"

definition ho_close :: "syn_guard_config \<Rightarrow> socket_addr \<Rightarrow> half_open_state \<Rightarrow> half_open_state" where
  "ho_close cfg addr s =
     (if addr \<in> ho_established s then s\<lparr>ho_established := ho_established s - {addr}\<rparr>
      else ho_release cfg (sa_ip addr) s)"

definition sg_on_reserve :: "instant \<Rightarrow> guard_context \<Rightarrow> syn_guard \<Rightarrow> unit outcome \<times> syn_guard" where
  "sg_on_reserve now ctx g =
     (let (r, s) = ho_reserve (sg_config g) now (gc_peer_ip ctx) (sg_state g) in
      (r, g\<lparr>sg_state := s\<rparr>))"

definition sg_on_established :: "guard_context \<Rightarrow> syn_guard \<Rightarrow> unit outcome \<times> syn_guard" where
  "sg_on_established ctx g =
     (Ok (), g\<lparr>sg_state := ho_establish (sg_config g) (gc_peer_addr ctx) (sg_state g)\<rparr>)"

definition sg_on_activity :: "instant \<Rightarrow> guard_context \<Rightarrow> syn_guard \<Rightarrow> unit outcome" where
  "sg_on_activity now ctx g =
     (case fmlookup (ho_started_at (sg_state g)) (gc_peer_ip ctx) of
        Some started_at \<Rightarrow>
          if sg_syn_timeout (sg_config g) < duration_since now started_at then
            Err (timeout (sg_syn_timeout (sg_config g)) ''waiting for a connection to settle'')
          else Ok ()
      | None \<Rightarrow> Ok ())"

definition sg_on_close :: "guard_context \<Rightarrow> syn_guard \<Rightarrow> syn_guard" where
  "sg_on_close ctx g = g\<lparr>sg_state := ho_close (sg_config g) (gc_peer_addr ctx) (sg_state g)\<rparr>"

section \<open>Invariant\<close>

definition ho_ok :: "syn_guard_config \<Rightarrow> half_open_state \<Rightarrow> bool" where
  "ho_ok cfg s \<longleftrightarrow>
     fmdom' (ho_started_at s) = fmdom' (ho_per_ip s) \<and>
     fmdom' (ho_per_ip s) \<subseteq> set (ho_ip_order s) \<and>
     (\<forall>ip. fmlookup (ho_per_ip s) ip \<noteq> Some 0) \<and>
     (\<forall>ip. count_of (ho_per_ip s) ip \<le> sg_max_half_open_per_ip cfg) \<and>
     hash_len (ho_per_ip s) \<le> max (sg_max_tracked_ips cfg) 1 \<and>
     length (ho_ip_order s) \<le> compact_threshold cfg \<and>
     ho_total s \<le> sg_max_half_open_global cfg \<and>
     ho_total s \<le> hash_total (ho_per_ip s)"

lemma compact_loop_set:
  "set (compact_loop xs seen m) = {ip \<in> set xs. fmlookup m ip \<noteq> None} - seen"
  by (induction xs arbitrary: seen) auto

lemma compact_loop_distinct: "distinct (compact_loop xs seen m)"
  by (induction xs arbitrary: seen) (auto simp: compact_loop_set)

lemma compact_length:
  "length (compact_loop xs seen m) \<le> hash_len m"
proof -
  have "length (compact_loop xs seen m) = card (set (compact_loop xs seen m))"
    by (rule distinct_card [OF compact_loop_distinct, symmetric])
  also have "\<dots> \<le> card (fmdom' m)"
    by (rule card_mono) (auto simp: compact_loop_set fmdom'_alt_def [symmetric] intro: fmdom'I)
  finally show ?thesis by (simp add: hash_len_def)
qed

lemma tracked_le_threshold:
  "n \<le> max (sg_max_tracked_ips cfg) 1 \<Longrightarrow> sg_max_tracked_ips cfg \<le> usize_max \<Longrightarrow>
     n \<le> compact_threshold cfg"
  by (auto simp: compact_threshold_def saturating_mul_def)

lemma maybe_compact_frame [simp]:
  "ho_total (maybe_compact_ip_order cfg s) = ho_total s"
  "ho_per_ip (maybe_compact_ip_order cfg s) = ho_per_ip s"
  "ho_started_at (maybe_compact_ip_order cfg s) = ho_started_at s"
  "ho_established (maybe_compact_ip_order cfg s) = ho_established s"
  by (simp_all add: maybe_compact_ip_order_def)

lemma maybe_compact_order:
  assumes "fmdom' (ho_per_ip s) \<subseteq> set (ho_ip_order s)"
    and "hash_len (ho_per_ip s) \<le> max (sg_max_tracked_ips cfg) 1"
    and "sg_max_tracked_ips cfg \<le> usize_max"
  shows "fmdom' (ho_per_ip s) \<subseteq> set (ho_ip_order (maybe_compact_ip_order cfg s)) \<and>
    length (ho_ip_order (maybe_compact_ip_order cfg s)) \<le> compact_threshold cfg"
  using assms compact_length [of "ho_ip_order s" "{}" "ho_per_ip s"] tracked_le_threshold [of _ cfg]
  by (auto simp: maybe_compact_ip_order_def compact_loop_set fmlookup_dom'_iff intro: le_trans)

lemma evict_loop_spec:
  assumes "fmdom' (ho_per_ip s) \<subseteq> set xs" "fmdom' (ho_per_ip s) \<noteq> {}"
  obtains ip n rest where
    "fmlookup (ho_per_ip s) ip = Some n" "fmdom' (fmdrop ip (ho_per_ip s)) \<subseteq> set rest"
    "length rest < length xs"
    "evict_loop xs s = s\<lparr>ho_ip_order := rest, ho_per_ip := fmdrop ip (ho_per_ip s),
      ho_total := ho_total s - n, ho_started_at := fmdrop ip (ho_started_at s)\<rparr>"
  using assms
proof (induction xs arbitrary: thesis)
  case Nil
  then show ?case by simp
next
  case (Cons x xs)
  show ?case
  proof (cases "fmlookup (ho_per_ip s) x")
    case None
    then have "fmdom' (ho_per_ip s) \<subseteq> set xs"
      using Cons.prems(2) fmdom'_notI [OF None] by auto
    then obtain ip n rest where
      "fmlookup (ho_per_ip s) ip = Some n" "fmdom' (fmdrop ip (ho_per_ip s)) \<subseteq> set rest"
      "length rest < length xs"
      "evict_loop xs s = s\<lparr>ho_ip_order := rest, ho_per_ip := fmdrop ip (ho_per_ip s),
        ho_total := ho_total s - n, ho_started_at := fmdrop ip (ho_started_at s)\<rparr>"
      using Cons.IH [OF _ _ Cons.prems(3)] by blast
    then show ?thesis using None Cons.prems(1) by simp
  next
    case (Some n)
    then show ?thesis
      using Cons.prems(1) [of x n xs] Cons.prems(2) by auto
  qed
qed

lemma hash_len_total:
  assumes "\<forall>ip. fmlookup m ip \<noteq> Some 0"
  shows "hash_len m \<le> hash_total m"
proof -
  have "(\<Sum>k \<in> fmdom' m. 1) \<le> (\<Sum>k \<in> fmdom' m. the (fmlookup m k))"
  proof (rule sum_mono)
    fix k assume "k \<in> fmdom' m"
    then obtain n where "fmlookup m k = Some n" by (auto simp: fmlookup_dom'_iff)
    with assms show "1 \<le> the (fmlookup m k)" by (cases n) auto
  qed
  then show ?thesis by (simp add: hash_len_def hash_total_def)
qed

text \<open>Inserting one more half-open connection of a tracked or just tracked address.\<close>

definition ho_insert :: "instant \<Rightarrow> ip_addr \<Rightarrow> half_open_state \<Rightarrow> half_open_state" where
  "ho_insert now ip s =
     s\<lparr>ho_total := ho_total s + 1,
       ho_ip_order := (if fmlookup (ho_per_ip s) ip = None then ho_ip_order s @ [ip] else ho_ip_order s),
       ho_per_ip := fmupd ip (count_of (ho_per_ip s) ip + 1) (ho_per_ip s),
       ho_started_at := (if fmlookup (ho_started_at s) ip = None
         then fmupd ip now (ho_started_at s) else ho_started_at s)\<rparr>"

definition ho_make_room :: "syn_guard_config \<Rightarrow> ip_addr \<Rightarrow> half_open_state \<Rightarrow> half_open_state" where
  "ho_make_room cfg ip s =
     (if fmlookup (ho_per_ip s) ip = None \<and> sg_max_tracked_ips cfg \<le> hash_len (ho_per_ip s)
      then evict_oldest_tracked_ip s else s)"

lemma evict_loop_untracked: "fmlookup (ho_per_ip s) ip = None \<Longrightarrow>
    fmlookup (ho_per_ip (evict_loop xs s)) ip = None"
  by (induction xs) (auto split: option.splits)

lemma ho_make_room_count:
  "count_of (ho_per_ip (ho_make_room cfg ip s)) ip = count_of (ho_per_ip s) ip \<and>
   (fmlookup (ho_per_ip (ho_make_room cfg ip s)) ip = None \<longleftrightarrow> fmlookup (ho_per_ip s) ip = None)"
  by (auto simp: ho_make_room_def evict_oldest_tracked_ip_def count_of_def evict_loop_untracked)

lemma ho_reserve_eq:
  "ho_reserve cfg now ip s =
    (if sg_max_half_open_global cfg \<le> ho_total s then
       (Err (Throttled ''half-open global'' (sg_max_half_open_global cfg)), s)
     else if sg_max_half_open_per_ip cfg \<le> count_of (ho_per_ip s) ip then
       (Err (Throttled ''half-open per-ip'' (sg_max_half_open_per_ip cfg)), s)
     else (Ok (), maybe_compact_ip_order cfg (ho_insert now ip (ho_make_room cfg ip s))))"
proof -
  have "ho_insert now ip (ho_make_room cfg ip s) =
    (let s1 = (ho_make_room cfg ip s)\<lparr>ho_total := ho_total (ho_make_room cfg ip s) + 1\<rparr>;
         s2 = (if fmlookup (ho_per_ip s) ip = None then s1\<lparr>ho_ip_order := ho_ip_order s1 @ [ip]\<rparr> else s1);
         s3 = s2\<lparr>ho_per_ip := fmupd ip (count_of (ho_per_ip s) ip + 1) (ho_per_ip s2)\<rparr> in
     case fmlookup (ho_started_at s3) ip of
       None \<Rightarrow> s3\<lparr>ho_started_at := fmupd ip now (ho_started_at s3)\<rparr> | Some _ \<Rightarrow> s3)"
    using ho_make_room_count [of cfg ip s]
    by (simp add: ho_insert_def Let_def split: option.splits)
  then show ?thesis
    by (simp add: ho_reserve_def throttled_def ho_make_room_def Let_def Suc_le_eq less_Suc_eq_le)
qed

lemma ho_make_room_ok:
  assumes "ho_ok cfg s" "sg_max_tracked_ips cfg \<le> usize_max"
  shows "ho_ok cfg (ho_make_room cfg ip s) \<and>
    (fmlookup (ho_per_ip s) ip = None \<longrightarrow>
       hash_len (ho_per_ip (ho_make_room cfg ip s)) < max (sg_max_tracked_ips cfg) 1) \<and>
    ho_total (ho_make_room cfg ip s) \<le> ho_total s \<and>
    ho_established (ho_make_room cfg ip s) = ho_established s"
proof (cases "fmlookup (ho_per_ip s) ip = None \<and> sg_max_tracked_ips cfg \<le> hash_len (ho_per_ip s)")
  case False
  then show ?thesis using assms(1) by (auto simp: ho_make_room_def)
next
  case True
  then have room: "ho_make_room cfg ip s = evict_loop (ho_ip_order s) s"
    by (simp add: ho_make_room_def evict_oldest_tracked_ip_def)
  have sub: "fmdom' (ho_per_ip s) \<subseteq> set (ho_ip_order s)" using assms(1) by (simp add: ho_ok_def)
  show ?thesis
  proof (cases "fmdom' (ho_per_ip s) = {}")
    case empty: True
    then have "ho_per_ip s = fmempty" by (intro fmap_ext) (auto dest: fmdom'I)
    moreover from this have "evict_loop xs s = s\<lparr>ho_ip_order := []\<rparr>" for xs
      by (induction xs) simp_all
    ultimately show ?thesis using assms(1) by (simp add: room ho_ok_def)
  next
    case False
    then obtain old n rest where e:
      "fmlookup (ho_per_ip s) old = Some n" "fmdom' (fmdrop old (ho_per_ip s)) \<subseteq> set rest"
      "length rest < length (ho_ip_order s)"
      "evict_loop (ho_ip_order s) s = s\<lparr>ho_ip_order := rest,
        ho_per_ip := fmdrop old (ho_per_ip s), ho_total := ho_total s - n,
        ho_started_at := fmdrop old (ho_started_at s)\<rparr>"
      by (rule evict_loop_spec [OF sub])
    have "n = count_of (ho_per_ip s) old" using e(1) by (simp add: count_of_def)
    moreover have "0 < hash_len (ho_per_ip s)" using e(1) by (rule hash_len_pos)
    ultimately show ?thesis
      using assms(1) e(1,2,3) by (auto simp: room e(4) ho_ok_def hash_simps diff_le_mono)
  qed
qed

lemma ho_insert_ok:
  assumes "ho_ok cfg s" "sg_max_tracked_ips cfg \<le> usize_max"
    and "fmlookup (ho_per_ip s) ip = None \<Longrightarrow> hash_len (ho_per_ip s) < max (sg_max_tracked_ips cfg) 1"
    and "ho_total s < sg_max_half_open_global cfg"
    and "count_of (ho_per_ip s) ip < sg_max_half_open_per_ip cfg"
  shows "ho_ok cfg (maybe_compact_ip_order cfg (ho_insert now ip s))"
proof -
  let ?s = "ho_insert now ip s"
  have dom: "fmdom' (ho_per_ip ?s) \<subseteq> set (ho_ip_order ?s)"
    "hash_len (ho_per_ip ?s) \<le> max (sg_max_tracked_ips cfg) 1"
    using assms(1,3) by (auto simp: ho_ok_def ho_insert_def hash_simps fmlookup_dom'_iff)
  have started: "fmlookup (ho_started_at s) ip = None \<longleftrightarrow> fmlookup (ho_per_ip s) ip = None"
    using assms(1) by (auto simp: ho_ok_def) (metis fmdom'_notI fmdom'_notD)+
  have "fmdom' (ho_started_at ?s) = fmdom' (ho_per_ip ?s)"
    using assms(1) started by (auto simp: ho_ok_def ho_insert_def dest: fmdom'I)
  then show ?thesis
    using maybe_compact_order [OF dom assms(2)] dom(2) assms(1,4,5) count_of_le_total
    by (auto simp: ho_ok_def ho_insert_def hash_simps)
qed

lemma ho_reserve_ok:
  assumes "ho_ok cfg s" "sg_max_tracked_ips cfg \<le> usize_max" "ho_reserve cfg now ip s = (r, s')"
  shows "ho_ok cfg s'"
proof -
  note room = ho_make_room_ok [OF assms(1,2), of ip] ho_make_room_count [of cfg ip s]
  have "ho_ok cfg (maybe_compact_ip_order cfg (ho_insert now ip (ho_make_room cfg ip s)))"
    if "ho_total s < sg_max_half_open_global cfg"
      "count_of (ho_per_ip s) ip < sg_max_half_open_per_ip cfg"
    by (rule ho_insert_ok) (use room that assms(2) in auto)
  then show ?thesis using assms(1,3) by (auto simp: ho_reserve_eq split: if_splits)
qed

lemma ho_release_ok:
  assumes "ho_ok cfg s" "sg_max_tracked_ips cfg \<le> usize_max"
  shows "ho_ok cfg (ho_release cfg ip s)"
proof (cases "fmlookup (ho_per_ip s) ip")
  case None
  then show ?thesis using assms(1) by (auto simp: ho_release_def ho_ok_def)
next
  case (Some n)
  define d where "d = s\<lparr>ho_total := ho_total s - 1, ho_per_ip := fmdrop ip (ho_per_ip s),
    ho_started_at := fmdrop ip (ho_started_at s)\<rparr>"
  have c: "count_of (ho_per_ip s) ip = n" "0 < n"
    using Some assms(1) by (auto simp: count_of_def ho_ok_def intro: gr0I)
  have dom: "fmdom' (ho_per_ip d) \<subseteq> set (ho_ip_order d)"
    "hash_len (ho_per_ip d) \<le> max (sg_max_tracked_ips cfg) 1"
    using assms(1) by (auto simp: ho_ok_def d_def hash_simps)
  have "ho_release cfg ip s = (if 1 < n
      then s\<lparr>ho_total := ho_total s - 1, ho_per_ip := fmupd ip (n - 1) (ho_per_ip s)\<rparr>
      else maybe_compact_ip_order cfg d)"
  proof (cases "0 < ho_total s")
    case True
    then show ?thesis using Some by (simp add: ho_release_def d_def)
  next
    case False
    then have zero: "s\<lparr>ho_total := 0\<rparr> = s" by (cases s) simp
    from False Some show ?thesis by (simp add: ho_release_def d_def zero)
  qed
  moreover have "ho_ok cfg (s\<lparr>ho_total := ho_total s - 1,
      ho_per_ip := fmupd ip (n - 1) (ho_per_ip s)\<rparr>)" if "1 < n"
    using assms(1) Some c that count_of_le_total [of "ho_per_ip s" ip]
    by (auto simp: ho_ok_def hash_simps fmdom'I insert_absorb intro: order_trans [OF diff_le_self])
  moreover have "ho_ok cfg (maybe_compact_ip_order cfg d)" if "\<not> 1 < n"
    using maybe_compact_order [OF dom assms(2)] dom(2) assms(1) c that
    by (auto simp: ho_ok_def hash_simps d_def)
  ultimately show ?thesis by auto
qed

lemma ho_established_irrelevant [simp]: "ho_ok cfg (s\<lparr>ho_established := e\<rparr>) = ho_ok cfg s"
  by (simp add: ho_ok_def)

lemma ho_establish_ok:
  "ho_ok cfg s \<Longrightarrow> sg_max_tracked_ips cfg \<le> usize_max \<Longrightarrow> ho_ok cfg (ho_establish cfg addr s)"
  by (simp add: ho_establish_def Let_def ho_release_ok)

lemma ho_close_ok:
  "ho_ok cfg s \<Longrightarrow> sg_max_tracked_ips cfg \<le> usize_max \<Longrightarrow> ho_ok cfg (ho_close cfg addr s)"
  by (simp add: ho_close_def ho_release_ok)

lemma half_open_default_ok: "ho_ok cfg half_open_default"
  by (simp add: ho_ok_def half_open_default_def hash_simps)

text \<open>Any sequence of calls, in any order.\<close>

datatype ho_op = HoReserve instant ip_addr | HoEstablish socket_addr | HoClose socket_addr

fun ho_call :: "syn_guard_config \<Rightarrow> ho_op \<Rightarrow> half_open_state \<Rightarrow> half_open_state" where
  "ho_call cfg (HoReserve now ip) s = snd (ho_reserve cfg now ip s)"
| "ho_call cfg (HoEstablish addr) s = ho_establish cfg addr s"
| "ho_call cfg (HoClose addr) s = ho_close cfg addr s"

lemma ho_call_ok:
  "ho_ok cfg s \<Longrightarrow> sg_max_tracked_ips cfg \<le> usize_max \<Longrightarrow> ho_ok cfg (ho_call cfg c s)"
  by (cases c) (auto intro: ho_reserve_ok ho_establish_ok ho_close_ok simp: prod_eq_iff)

lemma ho_calls_ok:
  "ho_ok cfg s \<Longrightarrow> sg_max_tracked_ips cfg \<le> usize_max \<Longrightarrow> ho_ok cfg (fold (ho_call cfg) cs s)"
  by (induction cs arbitrary: s) (simp_all add: ho_call_ok)

section \<open>Exact accounting\<close>

text \<open>
  \<open>H\<close> is the set of half-open connections: reserved, not yet established or closed. A
  connection is identified by its socket address, which is in use once at a time.
\<close>

definition half_open_of :: "socket_addr set \<Rightarrow> ip_addr \<Rightarrow> nat" where
  "half_open_of H ip = card {a \<in> H. sa_ip a = ip}"

definition ho_rel :: "syn_guard_config \<Rightarrow> half_open_state \<Rightarrow> socket_addr set \<Rightarrow> bool" where
  "ho_rel cfg s H \<longleftrightarrow> ho_ok cfg s \<and> finite H \<and> ho_total s = card H \<and>
     (\<forall>ip. count_of (ho_per_ip s) ip = half_open_of H ip)"

lemma half_open_insert:
  "finite H \<Longrightarrow> addr \<notin> H \<Longrightarrow>
     half_open_of (insert addr H) ip = half_open_of H ip + of_bool (sa_ip addr = ip)"
proof (cases "sa_ip addr = ip")
  case True
  assume a: "finite H" "addr \<notin> H"
  have "{a \<in> insert addr H. sa_ip a = ip} = insert addr {a \<in> H. sa_ip a = ip}" using True by auto
  then show ?thesis using a True by (simp add: half_open_of_def)
next
  case False
  then have "{a \<in> insert addr H. sa_ip a = ip} = {a \<in> H. sa_ip a = ip}" by auto
  then show ?thesis using False by (simp add: half_open_of_def)
qed

lemma half_open_remove:
  assumes "finite H" "addr \<in> H"
  shows "half_open_of (H - {addr}) ip = half_open_of H ip - of_bool (sa_ip addr = ip)"
  using half_open_insert [of "H - {addr}" addr ip] assms by (simp add: insert_absorb)

lemma half_open_pos: "finite H \<Longrightarrow> addr \<in> H \<Longrightarrow> 0 < half_open_of H (sa_ip addr)"
  unfolding half_open_of_def by (subst card_gt_0_iff) auto

lemma ho_rel_tracked:
  assumes "ho_rel cfg s H"
  shows "hash_len (ho_per_ip s) \<le> card H"
proof -
  have "fmdom' (ho_per_ip s) \<subseteq> sa_ip ` H"
  proof
    fix ip assume "ip \<in> fmdom' (ho_per_ip s)"
    then obtain n where n: "fmlookup (ho_per_ip s) ip = Some n" by (auto simp: fmlookup_dom'_iff)
    moreover have "\<forall>ip. fmlookup (ho_per_ip s) ip \<noteq> Some 0"
      using assms by (simp add: ho_rel_def ho_ok_def)
    ultimately have "n \<noteq> 0" by metis
    moreover have "count_of (ho_per_ip s) ip = half_open_of H ip"
      using assms by (simp add: ho_rel_def)
    ultimately have "half_open_of H ip \<noteq> 0" using n by (simp add: count_of_def)
    then have "{a \<in> H. sa_ip a = ip} \<noteq> {}" unfolding half_open_of_def by (metis card.empty)
    then show "ip \<in> sa_ip ` H" by auto
  qed
  then have "card (fmdom' (ho_per_ip s)) \<le> card (sa_ip ` H)"
    using assms by (intro card_mono) (auto simp: ho_rel_def)
  also have "\<dots> \<le> card H" using assms by (intro card_image_le) (simp add: ho_rel_def)
  finally show ?thesis by (simp add: hash_len_def)
qed

lemma ho_reserve_rel:
  assumes rel: "ho_rel cfg s H"
    and cfg: "sg_max_half_open_global cfg \<le> sg_max_tracked_ips cfg" "sg_max_tracked_ips cfg \<le> usize_max"
    and r: "ho_reserve cfg now (sa_ip addr) s = (Ok (), s')" and new: "addr \<notin> H"
  shows "ho_rel cfg s' (insert addr H) \<and> ho_established s' = ho_established s"
proof -
  from r have lim: "ho_total s < sg_max_half_open_global cfg"
    by (auto simp: ho_reserve_eq split: if_splits)
  then have "hash_len (ho_per_ip s) < sg_max_tracked_ips cfg"
    using ho_rel_tracked [OF rel] cfg(1) rel by (simp add: ho_rel_def)
  then have "ho_make_room cfg (sa_ip addr) s = s" by (simp add: ho_make_room_def)
  then have s': "s' = maybe_compact_ip_order cfg (ho_insert now (sa_ip addr) s)"
    using r by (auto simp: ho_reserve_eq split: if_splits)
  have "ho_ok cfg s'"
    by (rule ho_reserve_ok [OF _ cfg(2) r]) (use rel in \<open>simp add: ho_rel_def\<close>)
  then show ?thesis
    using rel new half_open_insert [of H addr]
    by (auto simp: s' ho_rel_def ho_insert_def hash_simps)
qed

lemma ho_release_established [simp]:
  "ho_established (ho_release cfg ip s) = ho_established s"
  by (auto simp: ho_release_def Let_def split: option.splits)

lemma ho_release_counts:
  assumes "ho_ok cfg s"
  shows "ho_total (ho_release cfg ip s) = ho_total s - 1 \<and>
    count_of (ho_per_ip (ho_release cfg ip s)) ip' =
      count_of (ho_per_ip s) ip' - of_bool (ip = ip')"
  using assms by (auto simp: ho_release_def Let_def ho_ok_def count_of_def split: option.splits)

lemma ho_release_rel:
  assumes rel: "ho_rel cfg s H" and "sg_max_tracked_ips cfg \<le> usize_max" and "addr \<in> H"
  shows "ho_rel cfg (ho_release cfg (sa_ip addr) s) (H - {addr})"
proof -
  have ok: "ho_ok cfg s" "finite H" using rel by (simp_all add: ho_rel_def)
  have "ho_ok cfg (ho_release cfg (sa_ip addr) s)" by (rule ho_release_ok [OF ok(1) assms(2)])
  then show ?thesis
    using rel ho_release_counts [OF ok(1), of "sa_ip addr"] half_open_remove [OF ok(2) assms(3)]
      assms(3) by (auto simp: ho_rel_def)
qed

inductive ho_history ::
    "syn_guard_config \<Rightarrow> half_open_state \<Rightarrow> socket_addr set \<Rightarrow> socket_addr set \<Rightarrow> bool"
  for cfg :: syn_guard_config where
  start: "ho_history cfg half_open_default {} {}"
| reserve: "ho_history cfg s H E \<Longrightarrow> addr \<notin> H \<union> E \<Longrightarrow>
    ho_reserve cfg now (sa_ip addr) s = (Ok (), s') \<Longrightarrow> ho_history cfg s' (insert addr H) E"
| refuse: "ho_history cfg s H E \<Longrightarrow> ho_reserve cfg now ip s = (Err e, s') \<Longrightarrow>
    ho_history cfg s' H E"
| establish: "ho_history cfg s H E \<Longrightarrow> addr \<in> H \<Longrightarrow>
    ho_history cfg (ho_establish cfg addr s) (H - {addr}) (insert addr E)"
| close: "ho_history cfg s H E \<Longrightarrow> addr \<in> H \<union> E \<Longrightarrow>
    ho_history cfg (ho_close cfg addr s) (H - {addr}) (E - {addr})"

lemma ho_rel_established [simp]: "ho_rel cfg (s\<lparr>ho_established := e\<rparr>) H = ho_rel cfg s H"
  by (simp add: ho_rel_def)

lemma ho_history_rel:
  assumes "ho_history cfg s H E"
    and cfg: "sg_max_half_open_global cfg \<le> sg_max_tracked_ips cfg" "sg_max_tracked_ips cfg \<le> usize_max"
  shows "ho_rel cfg s H \<and> ho_established s = E \<and> H \<inter> E = {}"
  using assms(1)
proof (induction rule: ho_history.induct)
  case start
  show ?case
    using half_open_default_ok
    by (auto simp: ho_rel_def half_open_of_def half_open_default_def hash_simps)
next
  case (reserve s H E addr now s')
  then show ?case using ho_reserve_rel [OF _ cfg reserve.hyps(3)] by auto
next
  case (refuse s H E now ip e s')
  then show ?case by (auto simp: ho_reserve_eq split: if_splits)
next
  case (establish s H E addr)
  then show ?case using ho_release_rel [OF _ cfg(2)] by (auto simp: ho_establish_def Let_def)
next
  case (close s H E addr)
  show ?case
  proof (cases "addr \<in> E")
    case True
    with close have "addr \<notin> H" by blast
    with True close show ?thesis by (auto simp: ho_close_def)
  next
    case False
    with close have "addr \<in> H" by blast
    with False close show ?thesis using ho_release_rel [OF _ cfg(2)] by (auto simp: ho_close_def)
  qed
qed

section \<open>One reservation undone by one close\<close>

lemma ho_release_count:
  "fmlookup (ho_per_ip s) ip = Some (Suc n) \<Longrightarrow> count_of (ho_per_ip (ho_release cfg ip s)) ip = n"
  by (auto simp: ho_release_def Let_def hash_simps)

lemma evict_loop_established [simp]: "ho_established (evict_loop xs s) = ho_established s"
  by (induction xs) (auto split: option.splits)

lemma ho_make_room_established [simp]: "ho_established (ho_make_room cfg ip s) = ho_established s"
  by (simp add: ho_make_room_def evict_oldest_tracked_ip_def)

lemma ho_reserve_refused: "ho_reserve cfg now ip s = (Err e, s') \<Longrightarrow> s' = s"
  by (auto simp: ho_reserve_eq split: if_splits)

lemma ho_reserve_no_panic: "fst (ho_reserve cfg now ip s) \<noteq> Panic msg"
  by (auto simp: ho_reserve_eq)

lemma ho_reserve_accepted:
  assumes "ho_reserve cfg now ip s = (Ok (), s')"
  shows "fmlookup (ho_per_ip s') ip = Some (Suc (count_of (ho_per_ip s) ip))"
    and "ho_established s' = ho_established s"
  using assms ho_make_room_count [of cfg ip s]
  by (auto simp: ho_reserve_eq ho_insert_def split: if_splits)

lemma ho_reserve_close:
  assumes "ho_reserve cfg now (sa_ip addr) s = (Ok (), s')" "addr \<notin> ho_established s"
  shows "count_of (ho_per_ip (ho_close cfg addr s')) (sa_ip addr) = count_of (ho_per_ip s) (sa_ip addr)"
    and "ho_established (ho_close cfg addr s') = ho_established s"
  using ho_reserve_accepted [OF assms(1)] assms(2)
  by (simp_all add: ho_close_def ho_release_count)

section \<open>Properties\<close>

text \<open>
  C33. Whatever calls the guard receives, in whatever order: the number of tracked addresses
  never exceeds \<open>max_tracked_ips\<close> (at least one), the eviction queue stays under the compaction
  threshold, no address and no total exceeds its limit, and every tracked address is in the
  queue, so that eviction finds it.
\<close>

theorem syn_guard_bounds:
  assumes "sg_max_tracked_ips cfg \<le> usize_max" "s = fold (ho_call cfg) cs half_open_default"
  shows "hash_len (ho_per_ip s) \<le> max (sg_max_tracked_ips cfg) 1 \<and>
    hash_len (ho_started_at s) = hash_len (ho_per_ip s) \<and>
    length (ho_ip_order s) \<le> max (saturating_mul (sg_max_tracked_ips cfg) 4) 16 \<and>
    ho_total s \<le> sg_max_half_open_global cfg \<and>
    (\<forall>ip. count_of (ho_per_ip s) ip \<le> sg_max_half_open_per_ip cfg) \<and>
    fmdom' (ho_per_ip s) \<subseteq> set (ho_ip_order s)"
proof -
  have "ho_ok cfg s" unfolding assms(2) by (rule ho_calls_ok [OF half_open_default_ok assms(1)])
  then show ?thesis by (auto simp: ho_ok_def compact_threshold_def hash_len_def)
qed

definition ex_ip :: "nat \<Rightarrow> ip_addr" where
  "ex_ip n = V4 (ipv4_new 10 0 0 (of_nat n))"

definition ex_addr :: "nat \<Rightarrow> socket_addr" where
  "ex_addr n = SockV4 (ipv4_new 10 0 0 (of_nat n)) 4000"

theorem syn_guard_bounds_witness:
  "ho_total (fold (ho_call syn_guard_config_default)
      [HoReserve 1 (ex_ip 1), HoReserve 2 (ex_ip 2), HoEstablish (ex_addr 1)] half_open_default) \<le> 512"
  using syn_guard_bounds [of syn_guard_config_default
      _ "[HoReserve 1 (ex_ip 1), HoReserve 2 (ex_ip 2), HoEstablish (ex_addr 1)]", OF _ refl]
  by (simp add: syn_guard_config_default_def usize_max_def)

text \<open>
  C16. When the tracking cap is at least the global limit (as in the default configuration), the
  counters are exact in every reachable state: the total is the number of connections that are
  reserved but neither established nor closed, and a reservation is accepted exactly when that
  number is under the global limit and the number for its address under the per-address limit.
\<close>

theorem syn_guard_exact:
  assumes "ho_history cfg s H E"
    and "sg_max_half_open_global cfg \<le> sg_max_tracked_ips cfg" "sg_max_tracked_ips cfg \<le> usize_max"
  shows "ho_total s = card H \<and> (\<forall>ip. count_of (ho_per_ip s) ip = half_open_of H ip) \<and>
    (is_ok (fst (ho_reserve cfg now ip s)) \<longleftrightarrow>
       card H < sg_max_half_open_global cfg \<and> half_open_of H ip < sg_max_half_open_per_ip cfg)"
  using ho_history_rel [OF assms] by (auto simp: ho_rel_def ho_reserve_eq)

theorem syn_guard_exact_witness:
  "\<exists>s. ho_history syn_guard_config_default s {ex_addr 1} {} \<and> ho_total s = 1"
proof -
  let ?r = "ho_reserve syn_guard_config_default 5 (sa_ip (ex_addr 1)) half_open_default"
  have "?r = (Ok (), snd ?r)" by code_simp
  then have h: "ho_history syn_guard_config_default (snd ?r) {ex_addr 1} {}"
    using ho_history.reserve [OF ho_history.start, of "ex_addr 1" syn_guard_config_default 5] by simp
  have "ho_total (snd ?r) = card {ex_addr 1}"
    using syn_guard_exact [OF h] by (simp add: syn_guard_config_default_def usize_max_def)
  with h show ?thesis by (intro exI [of _ "snd ?r"]) simp
qed

text \<open>The outcomes of one reservation per address.\<close>

fun ho_reserve_all ::
    "syn_guard_config \<Rightarrow> instant \<Rightarrow> ip_addr list \<Rightarrow> half_open_state \<Rightarrow> unit outcome list \<times> half_open_state"
where
  "ho_reserve_all cfg now [] s = ([], s)"
| "ho_reserve_all cfg now (ip # ips) s =
     (let (r, s) = ho_reserve cfg now ip s; (rs, s) = ho_reserve_all cfg now ips s in (r # rs, s))"

definition ho_single :: "syn_guard_config \<Rightarrow> half_open_state \<Rightarrow> bool" where
  "ho_single cfg s \<longleftrightarrow> ho_ok cfg s \<and> (\<forall>ip n. fmlookup (ho_per_ip s) ip = Some n \<longrightarrow> n = 1) \<and>
     ho_total s = hash_len (ho_per_ip s)"

lemma ho_make_room_single:
  assumes "ho_single cfg s"
  shows "(\<forall>a n. fmlookup (ho_per_ip (ho_make_room cfg ip s)) a = Some n \<longrightarrow> n = 1) \<and>
    ho_total (ho_make_room cfg ip s) = hash_len (ho_per_ip (ho_make_room cfg ip s)) \<and>
    fmdom' (ho_per_ip (ho_make_room cfg ip s)) \<subseteq> fmdom' (ho_per_ip s)"
proof (cases "(fmlookup (ho_per_ip s) ip = None \<and> sg_max_tracked_ips cfg \<le> hash_len (ho_per_ip s)) \<and>
    fmdom' (ho_per_ip s) \<noteq> {}")
  case False
  have "ho_make_room cfg ip s = s \<or> ho_make_room cfg ip s = s\<lparr>ho_ip_order := []\<rparr>"
  proof (cases "fmdom' (ho_per_ip s) = {}")
    case True
    then have "ho_per_ip s = fmempty" by (intro fmap_ext) (auto dest: fmdom'I)
    then have "evict_loop xs s = s\<lparr>ho_ip_order := []\<rparr>" for xs
      by (induction xs) simp_all
    then show ?thesis by (simp add: ho_make_room_def evict_oldest_tracked_ip_def)
  qed (use False in \<open>auto simp: ho_make_room_def\<close>)
  then show ?thesis using assms unfolding ho_single_def by (elim disjE) simp_all
next
  case True
  have sub: "fmdom' (ho_per_ip s) \<subseteq> set (ho_ip_order s)" using assms by (simp add: ho_single_def ho_ok_def)
  have "fmdom' (ho_per_ip s) \<noteq> {}" using True by blast
  then obtain old n rest where e: "fmlookup (ho_per_ip s) old = Some n"
      "evict_loop (ho_ip_order s) s = s\<lparr>ho_ip_order := rest,
        ho_per_ip := fmdrop old (ho_per_ip s), ho_total := ho_total s - n,
        ho_started_at := fmdrop old (ho_started_at s)\<rparr>"
    by (rule evict_loop_spec [OF sub])
  then have "n = 1" using assms by (simp add: ho_single_def)
  moreover have "ho_make_room cfg ip s = evict_loop (ho_ip_order s) s"
    using True by (simp add: ho_make_room_def evict_oldest_tracked_ip_def)
  ultimately have room: "ho_make_room cfg ip s = s\<lparr>ho_ip_order := rest,
      ho_per_ip := fmdrop old (ho_per_ip s), ho_total := ho_total s - 1,
      ho_started_at := fmdrop old (ho_started_at s)\<rparr>"
    using e(2) by simp
  have "\<forall>a n. fmlookup (ho_per_ip s) a = Some n \<longrightarrow> n = 1"
      "ho_total s = hash_len (ho_per_ip s)"
    using assms by (simp_all add: ho_single_def)
  then show ?thesis unfolding room using e(1) by (simp add: hash_len_drop) blast
qed

lemma ho_reserve_single:
  assumes "ho_single cfg s" "sg_max_tracked_ips cfg \<le> usize_max"
    and "max (sg_max_tracked_ips cfg) 1 < sg_max_half_open_global cfg" "0 < sg_max_half_open_per_ip cfg"
    and new: "fmlookup (ho_per_ip s) ip = None"
  obtains s' where "ho_reserve cfg now ip s = (Ok (), s')" "ho_single cfg s'"
    "fmdom' (ho_per_ip s') \<subseteq> insert ip (fmdom' (ho_per_ip s))"
proof -
  let ?s = "maybe_compact_ip_order cfg (ho_insert now ip (ho_make_room cfg ip s))"
  have ok: "ho_ok cfg s" and total: "ho_total s < sg_max_half_open_global cfg"
    using assms(1,3) by (auto simp: ho_single_def ho_ok_def)
  have r: "ho_reserve cfg now ip s = (Ok (), ?s)"
    using total assms(4) new by (simp add: ho_reserve_eq count_of_def)
  moreover have "ho_ok cfg ?s" by (rule ho_reserve_ok [OF ok assms(2) r])
  then have "ho_single cfg ?s"
    using ho_make_room_single [OF assms(1), of ip] ho_make_room_count [of cfg ip s] new
    by (auto simp: ho_single_def ho_insert_def hash_simps count_of_def split: if_splits)
  moreover have "fmdom' (ho_per_ip ?s) \<subseteq> insert ip (fmdom' (ho_per_ip s))"
    using ho_make_room_single [OF assms(1), of ip] by (auto simp: ho_insert_def)
  ultimately show thesis by (rule that)
qed

lemma ho_reserve_all_single:
  assumes "sg_max_tracked_ips cfg \<le> usize_max"
    and "max (sg_max_tracked_ips cfg) 1 < sg_max_half_open_global cfg" "0 < sg_max_half_open_per_ip cfg"
  shows "ho_single cfg s \<Longrightarrow> distinct ips \<Longrightarrow> set ips \<inter> fmdom' (ho_per_ip s) = {} \<Longrightarrow>
    \<exists>s'. ho_reserve_all cfg now ips s = (replicate (length ips) (Ok ()), s') \<and> ho_single cfg s'"
proof (induction ips arbitrary: s)
  case Nil
  then show ?case by simp
next
  case (Cons ip ips)
  then have "fmlookup (ho_per_ip s) ip = None" by (auto intro: fmdom'_notD)
  then obtain s1 where s1: "ho_reserve cfg now ip s = (Ok (), s1)" "ho_single cfg s1"
      "fmdom' (ho_per_ip s1) \<subseteq> insert ip (fmdom' (ho_per_ip s))"
    using ho_reserve_single [OF Cons.prems(1) assms] by metis
  with Cons.prems obtain s' where
      "ho_reserve_all cfg now ips s1 = (replicate (length ips) (Ok ()), s')" "ho_single cfg s'"
    using Cons.IH [OF s1(2)] by fastforce
  then show ?case using s1(1) by simp
qed

text \<open>
  When the tracking cap is smaller than the global limit, the global limit never refuses
  anything to a client that rotates addresses: eviction of the oldest address also forgets its
  half-open connections in the total, so any number of reservations from distinct addresses is
  accepted, and the counted total stays at the tracking cap.
\<close>

theorem syn_guard_rotation_unlimited:
  assumes "max (sg_max_tracked_ips cfg) 1 < sg_max_half_open_global cfg"
    and "sg_max_tracked_ips cfg \<le> usize_max" "0 < sg_max_half_open_per_ip cfg" "distinct ips"
  shows "fst (ho_reserve_all cfg now ips half_open_default) = replicate (length ips) (Ok ()) \<and>
    ho_total (snd (ho_reserve_all cfg now ips half_open_default)) \<le> max (sg_max_tracked_ips cfg) 1"
proof -
  have "ho_single cfg half_open_default"
    using half_open_default_ok by (simp add: ho_single_def half_open_default_def)
  then obtain s where "ho_reserve_all cfg now ips half_open_default = (replicate (length ips) (Ok ()), s)"
      "ho_single cfg s"
    using ho_reserve_all_single [OF assms(2,1,3) _ assms(4), of half_open_default now]
    by (auto simp: half_open_default_def simp del: ho_reserve_all.simps)
  then show ?thesis by (auto simp: ho_single_def ho_ok_def)
qed

definition rotation_config :: syn_guard_config where
  "rotation_config = \<lparr>sg_max_half_open_per_ip = 1, sg_max_half_open_global = 3, sg_backlog_limit = 1,
     sg_syn_timeout = secs 5, sg_max_tracked_ips = 2\<rparr>"

theorem syn_guard_rotation_unlimited_witness:
  "fst (ho_reserve_all rotation_config 7 (map ex_ip [1, 2, 3, 4, 5]) half_open_default) =
     replicate (length (map ex_ip [1, 2, 3, 4, 5])) (Ok ())"
proof -
  have "distinct (map ex_ip [1, 2, 3, 4, 5])" by code_simp
  moreover have "max (sg_max_tracked_ips rotation_config) 1 < sg_max_half_open_global rotation_config"
      "sg_max_tracked_ips rotation_config \<le> usize_max" "0 < sg_max_half_open_per_ip rotation_config"
    by (simp_all add: rotation_config_def usize_max_def)
  ultimately show ?thesis using syn_guard_rotation_unlimited by blast
qed

definition stale_order_config :: syn_guard_config where
  "stale_order_config = \<lparr>sg_max_half_open_per_ip = 4, sg_max_half_open_global = 8,
     sg_backlog_limit = 8, sg_syn_timeout = secs 5, sg_max_tracked_ips = 2\<rparr>"

definition stale_order_state :: half_open_state where
  "stale_order_state = fold (ho_call stale_order_config)
     [HoReserve 10 (ex_ip 1), HoEstablish (ex_addr 1), HoReserve 20 (ex_ip 2), HoReserve 30 (ex_ip 1)]
     half_open_default"

text \<open>
  The queue of addresses can be stale: an address that was released and came back later
  keeps its first place, so the address evicted at the tracking cap is not the oldest one. Here
  address 1 settles, address 2 starts, address 1 starts again, and address 3 evicts address 1.
\<close>

theorem syn_guard_evicts_younger:
  "fmlookup (ho_started_at stale_order_state) (ex_ip 2) = Some 20 \<and>
   fmlookup (ho_started_at stale_order_state) (ex_ip 1) = Some 30 \<and>
   fmlookup (ho_per_ip (snd (ho_reserve stale_order_config 40 (ex_ip 3) stale_order_state))) (ex_ip 1) = None \<and>
   fmlookup (ho_per_ip (snd (ho_reserve stale_order_config 40 (ex_ip 3) stale_order_state))) (ex_ip 2) = Some 1"
  by code_simp

text \<open>
  The SYN timeout is kept per address, not per connection: an established connection is
  refused further activity when another connection of its address has been half open for longer
  than the timeout.
\<close>

theorem syn_guard_times_out_established:
  "let cfg = syn_guard_config_default;
       s = fold (ho_call cfg)
         [HoReserve 0 (ex_ip 1), HoEstablish (ex_addr 1), HoReserve (secs 1) (ex_ip 1)] half_open_default
   in ex_addr 1 \<in> ho_established s \<and>
      \<not> is_ok (sg_on_activity (secs 7) (guard_context_new 0 (ex_addr 1) None False)
        \<lparr>sg_config = cfg, sg_state = s\<rparr>)"
  by code_simp

lemma backlog_limit_unused:
  "ho_reserve (cfg\<lparr>sg_backlog_limit := n\<rparr>) = ho_reserve cfg"
  by (intro ext)
    (simp add: ho_reserve_def maybe_compact_ip_order_def compact_threshold_def)

end
