(* ===== verification/Slow_Loris.thy ===== *)
theory Slow_Loris
  imports Guard_Types
begin

text \<open>
  The slow-client guard (src/src/guard/slow\_loris.rs): the last activity of every connection in
  a bounded map, with a queue of \<open>(address, sequence number)\<close> pairs of which only the last of
  each address is live. The specification is a least-recently-active list.
\<close>

record slow_loris_config =
  sl_idle_timeout :: duration
  sl_grace_period :: duration
  sl_max_tracked :: usize

definition slow_loris_config_default :: slow_loris_config where
  "slow_loris_config_default =
     \<lparr>sl_idle_timeout = secs 15, sl_grace_period = secs 3, sl_max_tracked = 100000\<rparr>"

record activity_entry =
  ae_last_seen :: instant
  ae_seq :: u64

record bounded_activity_map =
  bam_map :: "(socket_addr, activity_entry) fmap"
  bam_order :: "(socket_addr \<times> u64) list"
  bam_max :: usize
  bam_next_seq :: u64

definition bam_new :: "usize \<Rightarrow> bounded_activity_map" where
  "bam_new m = \<lparr>bam_map = fmempty, bam_order = [], bam_max = max m 1, bam_next_seq = 0\<rparr>"

definition bam_live :: "(socket_addr, activity_entry) fmap \<Rightarrow> socket_addr \<times> u64 \<Rightarrow> bool" where
  "bam_live m p = (case fmlookup m (fst p) of None \<Rightarrow> False | Some e \<Rightarrow> ae_seq e = snd p)"

fun evict_live_loop ::
    "(socket_addr \<times> u64) list \<Rightarrow> bounded_activity_map \<Rightarrow> bounded_activity_map" where
  "evict_live_loop [] m = m\<lparr>bam_order := []\<rparr>"
| "evict_live_loop ((addr, seq) # rest) m =
     (if bam_live (bam_map m) (addr, seq)
      then m\<lparr>bam_order := rest, bam_map := fmdrop addr (bam_map m)\<rparr>
      else evict_live_loop rest m)"

definition evict_oldest_live :: "bounded_activity_map \<Rightarrow> bounded_activity_map" where
  "evict_oldest_live m = evict_live_loop (bam_order m) m"

definition compact_order :: "bounded_activity_map \<Rightarrow> bounded_activity_map" where
  "compact_order m = m\<lparr>bam_order := filter (bam_live (bam_map m)) (bam_order m)\<rparr>"

definition order_threshold :: "usize \<Rightarrow> nat" where
  "order_threshold m = max (saturating_mul m 4) 16"

definition bam_note :: "instant \<Rightarrow> socket_addr \<Rightarrow> bounded_activity_map \<Rightarrow> bounded_activity_map" where
  "bam_note now addr m =
     (let m = m\<lparr>bam_next_seq := bam_next_seq m + 1\<rparr>;
          seq = bam_next_seq m;
          is_new = (fmlookup (bam_map m) addr = None);
          m = m\<lparr>bam_map := fmupd addr \<lparr>ae_last_seen = now, ae_seq = seq\<rparr> (bam_map m)\<rparr>;
          m = m\<lparr>bam_order := bam_order m @ [(addr, seq)]\<rparr>;
          m = (if is_new \<and> bam_max m < hash_len (bam_map m) then evict_oldest_live m else m) in
      if order_threshold (bam_max m) < length (bam_order m) then compact_order m else m)"

definition bam_get :: "socket_addr \<Rightarrow> bounded_activity_map \<Rightarrow> instant option" where
  "bam_get addr m = map_option ae_last_seen (fmlookup (bam_map m) addr)"

definition bam_remove :: "socket_addr \<Rightarrow> bounded_activity_map \<Rightarrow> bounded_activity_map" where
  "bam_remove addr m =
     (let m = m\<lparr>bam_map := fmdrop addr (bam_map m)\<rparr> in
      if order_threshold (bam_max m) < length (bam_order m) then compact_order m else m)"

record slow_loris =
  sl_config :: slow_loris_config
  sl_activity :: bounded_activity_map

definition sl_new :: "slow_loris_config \<Rightarrow> slow_loris" where
  "sl_new cfg = \<lparr>sl_config = cfg, sl_activity = bam_new (sl_max_tracked cfg)\<rparr>"

definition sl_note :: "instant \<Rightarrow> socket_addr \<Rightarrow> slow_loris \<Rightarrow> slow_loris" where
  "sl_note now addr g = g\<lparr>sl_activity := bam_note now addr (sl_activity g)\<rparr>"

definition check_idle :: "instant \<Rightarrow> socket_addr \<Rightarrow> slow_loris \<Rightarrow> unit outcome" where
  "check_idle now addr g =
     (case bam_get addr (sl_activity g) of
        None \<Rightarrow> Ok ()
      | Some last_activity \<Rightarrow>
          (case duration_add (sl_idle_timeout (sl_config g)) (sl_grace_period (sl_config g)) of
             None \<Rightarrow> Panic ''overflow when adding durations''
           | Some limit \<Rightarrow>
               if limit < duration_since now last_activity then
                 Err (timeout (sl_idle_timeout (sl_config g)) ''reading from a very slow client'')
               else Ok ()))"

definition sl_on_reserve :: "instant \<Rightarrow> guard_context \<Rightarrow> slow_loris \<Rightarrow> unit outcome \<times> slow_loris" where
  "sl_on_reserve now ctx g = (Ok (), sl_note now (gc_peer_addr ctx) g)"

definition sl_on_activity :: "instant \<Rightarrow> guard_context \<Rightarrow> slow_loris \<Rightarrow> unit outcome \<times> slow_loris" where
  "sl_on_activity now ctx g =
     (case check_idle now (gc_peer_addr ctx) g of
        Ok _ \<Rightarrow> (Ok (), sl_note now (gc_peer_addr ctx) g)
      | Err e \<Rightarrow> (Err e, g)
      | Panic msg \<Rightarrow> (Panic msg, g))"

definition sl_on_payload ::
    "u8 list \<Rightarrow> instant \<Rightarrow> guard_context \<Rightarrow> slow_loris \<Rightarrow> unit outcome \<times> slow_loris" where
  "sl_on_payload payload now ctx g = (Ok (), sl_note now (gc_peer_addr ctx) g)"

definition sl_on_close :: "guard_context \<Rightarrow> slow_loris \<Rightarrow> slow_loris" where
  "sl_on_close ctx g = g\<lparr>sl_activity := bam_remove (gc_peer_addr ctx) (sl_activity g)\<rparr>"

section \<open>Specification: the least-recently-active list\<close>

text \<open>Connections with the time of their last activity, the one silent for longest first.\<close>

type_synonym lru = "(socket_addr \<times> instant) list"

definition lru_remove :: "socket_addr \<Rightarrow> lru \<Rightarrow> lru" where
  "lru_remove a l = filter (\<lambda>p. fst p \<noteq> a) l"

definition lru_note :: "usize \<Rightarrow> instant \<Rightarrow> socket_addr \<Rightarrow> lru \<Rightarrow> lru" where
  "lru_note bound now a l =
     (let l' = lru_remove a l @ [(a, now)] in
      if a \<notin> fst ` set l \<and> bound < length l' then tl l' else l')"

definition seq_sorted :: "(socket_addr \<times> u64) list \<Rightarrow> bool" where
  "seq_sorted xs \<longleftrightarrow> sorted_wrt (\<lambda>p q. unat (snd p) < unat (snd q)) xs"

definition seen_at :: "(socket_addr, activity_entry) fmap \<Rightarrow> socket_addr \<times> u64 \<Rightarrow> socket_addr \<times> instant" where
  "seen_at m p = (fst p, ae_last_seen (the (fmlookup m (fst p))))"

definition bam_abs :: "bounded_activity_map \<Rightarrow> lru" where
  "bam_abs m = map (seen_at (bam_map m)) (filter (bam_live (bam_map m)) (bam_order m))"

text \<open>The representation invariant, but for the bounds.\<close>

definition bam_wf :: "bounded_activity_map \<Rightarrow> bool" where
  "bam_wf m \<longleftrightarrow> seq_sorted (bam_order m) \<and>
     (\<forall>p \<in> set (bam_order m). unat (snd p) \<le> unat (bam_next_seq m)) \<and>
     (\<forall>a e. fmlookup (bam_map m) a = Some e \<longrightarrow> (a, ae_seq e) \<in> set (bam_order m))"

definition bam_ok :: "bounded_activity_map \<Rightarrow> bool" where
  "bam_ok m \<longleftrightarrow> bam_wf m \<and> 0 < bam_max m \<and> length (bam_abs m) \<le> bam_max m \<and>
     length (bam_order m) \<le> order_threshold (bam_max m)"

lemma live_entry: "fmlookup m a = Some e \<Longrightarrow> bam_live m (a, ae_seq e)"
  by (simp add: bam_live_def)

lemma live_unique:
  assumes "seq_sorted xs" "p \<in> set xs" "q \<in> set xs" "bam_live m p" "bam_live m q" "fst p = fst q"
  shows "p = q"
  using assms by (auto simp: bam_live_def prod_eq_iff split: option.splits)

lemma seq_sorted_distinct: "seq_sorted xs \<Longrightarrow> distinct (map snd xs)"
  by (induction xs) (auto simp: seq_sorted_def)

lemma live_distinct:
  assumes "seq_sorted xs"
  shows "distinct (map fst (filter (bam_live m) xs))"
  using assms
proof (induction xs)
  case Nil
  then show ?case by simp
next
  case (Cons p xs)
  then have sorted: "seq_sorted xs" and less: "\<forall>q \<in> set xs. unat (snd p) < unat (snd q)"
    by (auto simp: seq_sorted_def)
  have "fst q \<noteq> fst p" if "bam_live m p" "q \<in> set xs" "bam_live m q" for q
    using that less by (auto simp: bam_live_def split: option.splits)
  then have "bam_live m p \<Longrightarrow> fst p \<notin> fst ` set (filter (bam_live m) xs)" by force
  then show ?case using Cons.IH [OF sorted] by auto
qed

lemma map_fst_abs: "map fst (bam_abs m) = map fst (filter (bam_live (bam_map m)) (bam_order m))"
  by (simp add: bam_abs_def seen_at_def)

lemma abs_keys:
  assumes "bam_wf m"
  shows "fst ` set (bam_abs m) = fmdom' (bam_map m)"
proof -
  have "fst ` set (bam_abs m) = fst ` set (filter (bam_live (bam_map m)) (bam_order m))"
    using map_fst_abs [of m] by (metis set_map)
  also have "\<dots> = fmdom' (bam_map m)"
    using assms by (force simp: bam_wf_def bam_live_def fmlookup_dom'_iff split: option.splits)
  finally show ?thesis .
qed

lemma abs_length:
  assumes "bam_wf m"
  shows "length (bam_abs m) = hash_len (bam_map m)"
proof -
  have "distinct (map fst (bam_abs m))"
    using assms live_distinct by (simp add: map_fst_abs bam_wf_def)
  then have "length (bam_abs m) = card (fst ` set (bam_abs m))"
    by (metis distinct_card length_map set_map)
  then show ?thesis by (simp add: abs_keys [OF assms] hash_len_def)
qed

lemma abs_lookup:
  assumes "bam_wf m"
  shows "map_of (bam_abs m) a = bam_get a m"
proof (cases "fmlookup (bam_map m) a")
  case None
  then have "a \<notin> fst ` set (bam_abs m)" by (simp add: abs_keys [OF assms] fmdom'_notI)
  then show ?thesis using None by (simp add: map_of_eq_None_iff bam_get_def)
next
  case (Some e)
  then have "(a, ae_seq e) \<in> set (filter (bam_live (bam_map m)) (bam_order m))"
    using assms by (simp add: bam_wf_def bam_live_def)
  then have "seen_at (bam_map m) (a, ae_seq e) \<in> set (bam_abs m)" by (auto simp: bam_abs_def)
  then have "(a, ae_last_seen e) \<in> set (bam_abs m)" using Some by (simp add: seen_at_def)
  moreover have "distinct (map fst (bam_abs m))"
    using assms live_distinct by (simp add: map_fst_abs bam_wf_def)
  ultimately show ?thesis using Some by (simp add: bam_get_def map_of_is_SomeI)
qed

lemma unat_succ: "unat w + 1 < 2 ^ 64 \<Longrightarrow> unat ((w :: u64) + 1) = unat w + 1"
  by (simp add: unat_word_ariths)

definition bam_push :: "instant \<Rightarrow> socket_addr \<Rightarrow> bounded_activity_map \<Rightarrow> bounded_activity_map" where
  "bam_push now addr m =
     m\<lparr>bam_next_seq := bam_next_seq m + 1,
       bam_map := fmupd addr \<lparr>ae_last_seen = now, ae_seq = bam_next_seq m + 1\<rparr> (bam_map m),
       bam_order := bam_order m @ [(addr, bam_next_seq m + 1)]\<rparr>"

definition bam_trim :: "bool \<Rightarrow> bounded_activity_map \<Rightarrow> bounded_activity_map" where
  "bam_trim is_new m =
     (if is_new \<and> bam_max m < hash_len (bam_map m) then evict_oldest_live m else m)"

definition bam_shrink :: "bounded_activity_map \<Rightarrow> bounded_activity_map" where
  "bam_shrink m = (if order_threshold (bam_max m) < length (bam_order m) then compact_order m else m)"

lemma bam_note_eq:
  "bam_note now addr m = bam_shrink (bam_trim (fmlookup (bam_map m) addr = None) (bam_push now addr m))"
  by (simp add: bam_note_def bam_shrink_def bam_trim_def bam_push_def Let_def)

lemma push_live:
  assumes "bam_wf m" "unat (bam_next_seq m) + 1 < 2 ^ 64" "p \<in> set (bam_order m)"
  shows "bam_live (bam_map (bam_push now a m)) p \<longleftrightarrow> bam_live (bam_map m) p \<and> fst p \<noteq> a"
proof -
  have "unat (snd p) \<le> unat (bam_next_seq m)" using assms(1,3) by (simp add: bam_wf_def)
  then have "snd p \<noteq> bam_next_seq m + 1" using unat_succ [OF assms(2)] by auto
  then show ?thesis by (auto simp: bam_live_def bam_push_def)
qed

lemma push_wf:
  assumes "bam_wf m" "unat (bam_next_seq m) + 1 < 2 ^ 64"
  shows "bam_wf (bam_push now a m)"
  using assms unat_succ [OF assms(2)]
  by (fastforce simp: bam_wf_def bam_push_def seq_sorted_def sorted_wrt_append)

lemma push_abs:
  assumes "bam_wf m" "unat (bam_next_seq m) + 1 < 2 ^ 64"
  shows "bam_abs (bam_push now a m) = lru_remove a (bam_abs m) @ [(a, now)]"
proof -
  let ?m = "bam_push now a m"
  have "filter (bam_live (bam_map ?m)) (bam_order m) =
      filter (\<lambda>p. fst p \<noteq> a) (filter (bam_live (bam_map m)) (bam_order m))"
    unfolding filter_filter by (rule filter_cong) (auto simp: push_live [OF assms])
  moreover have "map (seen_at (bam_map ?m)) (filter (\<lambda>p. fst p \<noteq> a) xs) =
      lru_remove a (map (seen_at (bam_map m)) xs)" for xs
    by (induction xs) (auto simp: lru_remove_def seen_at_def bam_push_def)
  moreover have "bam_order ?m = bam_order m @ [(a, bam_next_seq m + 1)]"
      "bam_live (bam_map ?m) (a, bam_next_seq m + 1)" "seen_at (bam_map ?m) (a, bam_next_seq m + 1) = (a, now)"
    by (simp_all add: bam_push_def bam_live_def seen_at_def)
  ultimately show ?thesis unfolding bam_abs_def by (simp del: filter_filter)
qed

lemma evict_live_loop_split:
  assumes "filter (bam_live (bam_map m)) xs \<noteq> []"
  shows "\<exists>a q pre rest. xs = pre @ (a, q) # rest \<and>
    filter (bam_live (bam_map m)) xs = (a, q) # filter (bam_live (bam_map m)) rest \<and>
    evict_live_loop xs m = m\<lparr>bam_order := rest, bam_map := fmdrop a (bam_map m)\<rparr>"
  using assms
proof (induction xs)
  case Nil
  then show ?case by simp
next
  case (Cons p xs)
  obtain a q where p: "p = (a, q)" by (cases p)
  show ?case
  proof (cases "bam_live (bam_map m) p")
    case True
    then have "p # xs = [] @ (a, q) # xs \<and>
        filter (bam_live (bam_map m)) (p # xs) = (a, q) # filter (bam_live (bam_map m)) xs \<and>
        evict_live_loop (p # xs) m = m\<lparr>bam_order := xs, bam_map := fmdrop a (bam_map m)\<rparr>"
      by (simp add: p)
    then show ?thesis by blast
  next
    case False
    then obtain a' q' pre rest where "xs = pre @ (a', q') # rest"
        "filter (bam_live (bam_map m)) xs = (a', q') # filter (bam_live (bam_map m)) rest"
        "evict_live_loop xs m = m\<lparr>bam_order := rest, bam_map := fmdrop a' (bam_map m)\<rparr>"
      using Cons by auto
    with False show ?thesis
      by (intro exI [of _ a'] exI [of _ q'] exI [of _ "p # pre"] exI [of _ rest]) (simp add: p)
  qed
qed

lemma evict_abs:
  assumes "bam_wf m" "bam_abs m \<noteq> []"
  shows "bam_wf (evict_oldest_live m) \<and> bam_abs (evict_oldest_live m) = tl (bam_abs m) \<and>
    bam_max (evict_oldest_live m) = bam_max m \<and> bam_next_seq (evict_oldest_live m) = bam_next_seq m \<and>
    length (bam_order (evict_oldest_live m)) < length (bam_order m)"
proof -
  let ?live = "bam_live (bam_map m)"
  obtain a q pre rest where xs: "bam_order m = pre @ (a, q) # rest"
      "filter ?live (bam_order m) = (a, q) # filter ?live rest"
      "evict_oldest_live m = m\<lparr>bam_order := rest, bam_map := fmdrop a (bam_map m)\<rparr>"
    using assms(2) evict_live_loop_split [of m "bam_order m"]
    by (auto simp: bam_abs_def evict_oldest_live_def)
  let ?m = "m\<lparr>bam_order := rest, bam_map := fmdrop a (bam_map m)\<rparr>"
  have "distinct (map fst ((a, q) # filter ?live rest))"
    unfolding xs(2) [symmetric] by (rule live_distinct) (use assms(1) in \<open>simp add: bam_wf_def\<close>)
  then have other: "fst p \<noteq> a" if "p \<in> set rest" "?live p" for p using that by force
  have live: "bam_live (fmdrop a (bam_map m)) p \<longleftrightarrow> ?live p" if "p \<in> set rest" for p
    using other [OF that] by (auto simp: bam_live_def)
  have "(b, ae_seq e) \<in> set rest" if b: "fmlookup (fmdrop a (bam_map m)) b = Some e" for b e
  proof -
    have be: "b \<noteq> a" "fmlookup (bam_map m) b = Some e" using b by (auto split: if_splits)
    then have "(b, ae_seq e) \<in> set (filter ?live (bam_order m))"
      using assms(1) by (auto simp: bam_wf_def bam_live_def)
    then show ?thesis using be(1) by (simp add: xs(2))
  qed
  then have "bam_wf ?m"
    using assms(1) by (auto simp: bam_wf_def xs(1) seq_sorted_def sorted_wrt_append)
  moreover have "filter (bam_live (fmdrop a (bam_map m))) rest = filter ?live rest"
    by (rule filter_cong) (auto simp: live)
  then have "bam_abs ?m = tl (bam_abs m)"
    using other unfolding bam_abs_def xs(2) by (auto simp: seen_at_def)
  ultimately show ?thesis by (simp add: xs(1,3))
qed

lemma compact_abs:
  assumes "bam_wf m"
  shows "bam_wf (compact_order m) \<and> bam_abs (compact_order m) = bam_abs m \<and>
    length (bam_order (compact_order m)) = length (bam_abs m)"
  using assms
  by (auto simp: bam_wf_def compact_order_def bam_abs_def seq_sorted_def sorted_wrt_filter live_entry)

lemma order_threshold_nonzero: "order_threshold n \<noteq> 0"
  by (simp add: order_threshold_def max_def)

lemma threshold_ge: "m \<le> usize_max \<Longrightarrow> n \<le> m \<Longrightarrow> n \<le> order_threshold m"
  by (auto simp: order_threshold_def saturating_mul_def)

lemma shrink_ok:
  assumes "bam_wf m" "length (bam_abs m) \<le> bam_max m" "bam_max m \<le> usize_max"
  shows "bam_wf (bam_shrink m) \<and> bam_abs (bam_shrink m) = bam_abs m \<and>
    bam_max (bam_shrink m) = bam_max m \<and> bam_next_seq (bam_shrink m) = bam_next_seq m \<and>
    length (bam_order (bam_shrink m)) \<le> order_threshold (bam_max m)"
  using compact_abs [OF assms(1)] assms threshold_ge [OF assms(3,2)]
  by (auto simp: bam_shrink_def compact_order_def)

lemma bam_note_refines:
  assumes ok: "bam_ok m" "bam_max m \<le> usize_max" and seq: "unat (bam_next_seq m) + 1 < 2 ^ 64"
  shows "bam_ok (bam_note now a m) \<and> bam_abs (bam_note now a m) = lru_note (bam_max m) now a (bam_abs m) \<and>
    bam_max (bam_note now a m) = bam_max m \<and> unat (bam_next_seq (bam_note now a m)) = unat (bam_next_seq m) + 1"
proof -
  let ?new = "fmlookup (bam_map m) a = None"
  let ?p = "bam_push now a m" and ?t = "bam_trim (fmlookup (bam_map m) a = None) (bam_push now a m)"
  have wf: "bam_wf m" using ok(1) by (simp add: bam_ok_def)
  note p = push_wf [OF wf seq, of now a] push_abs [OF wf seq, of now a]
  have max: "bam_max ?p = bam_max m" "unat (bam_next_seq ?p) = unat (bam_next_seq m) + 1"
    using unat_succ [OF seq] by (simp_all add: bam_push_def)
  have new: "?new \<longleftrightarrow> a \<notin> fst ` set (bam_abs m)"
    by (simp add: abs_keys [OF wf]) (meson fmdom'_notD fmdom'_notI)
  have ne: "bam_abs ?p \<noteq> []" by (simp add: p(2))
  have t: "bam_wf ?t" "bam_abs ?t = lru_note (bam_max m) now a (bam_abs m)" "bam_max ?t = bam_max m"
      "bam_next_seq ?t = bam_next_seq ?p"
    using evict_abs [OF p(1) ne] p(1) abs_length [OF p(1)]
    by (auto simp: bam_trim_def lru_note_def Let_def max(1) new p(2))
  have len: "length (bam_abs ?t) \<le> bam_max m"
  proof (cases ?new)
    case True
    then have "lru_remove a (bam_abs m) = bam_abs m"
      using new by (force simp: lru_remove_def intro: filter_True)
    then show ?thesis
      using ok(1) True new unfolding t(2) by (auto simp: lru_note_def Let_def bam_ok_def)
  next
    case False
    then have "lru_remove a (bam_abs m) \<noteq> bam_abs m"
      using new unfolding lru_remove_def by (metis (mono_tags, lifting) filter_id_conv imageE)
    then have "length (lru_remove a (bam_abs m)) < length (bam_abs m)"
      unfolding lru_remove_def by (metis (no_types, lifting) filter_id_conv length_filter_less)
    then show ?thesis
      using ok(1) False new unfolding t(2) by (auto simp: lru_note_def Let_def bam_ok_def)
  qed
  have "bam_max ?t \<le> usize_max" "length (bam_abs ?t) \<le> bam_max ?t" using ok(2) len t(3) by simp_all
  from shrink_ok [OF t(1) this(2,1)] show ?thesis
    using len t ok(1) max(2) by (auto simp: bam_note_eq bam_ok_def)
qed

lemma bam_remove_refines:
  assumes ok: "bam_ok m" "bam_max m \<le> usize_max"
  shows "bam_ok (bam_remove a m) \<and> bam_abs (bam_remove a m) = lru_remove a (bam_abs m) \<and>
    bam_max (bam_remove a m) = bam_max m \<and> bam_next_seq (bam_remove a m) = bam_next_seq m"
proof -
  let ?d = "m\<lparr>bam_map := fmdrop a (bam_map m)\<rparr>"
  have wf: "bam_wf ?d" using ok(1) by (auto simp: bam_ok_def bam_wf_def)
  have "map (seen_at (fmdrop a M)) (filter (bam_live (fmdrop a M)) xs) =
      lru_remove a (map (seen_at M) (filter (bam_live M) xs))" for M xs
    by (induction xs) (auto simp: lru_remove_def bam_live_def seen_at_def split: option.splits)
  then have abs: "bam_abs ?d = lru_remove a (bam_abs m)" by (simp add: bam_abs_def)
  have len: "length (bam_abs ?d) \<le> bam_max ?d"
    using ok(1) unfolding abs bam_ok_def lru_remove_def by (simp add: le_trans [OF length_filter_le])
  have "bam_remove a m = bam_shrink ?d" by (simp add: bam_remove_def bam_shrink_def Let_def)
  with shrink_ok [OF wf len] show ?thesis using ok abs len by (auto simp: bam_ok_def)
qed

section \<open>Histories of the guard\<close>

datatype sl_call =
    SlReserve instant guard_context
  | SlActivity instant guard_context
  | SlPayload instant guard_context "u8 list"
  | SlClose guard_context

fun sl_step :: "sl_call \<Rightarrow> slow_loris \<Rightarrow> unit outcome \<times> slow_loris" where
  "sl_step (SlReserve now ctx) g = sl_on_reserve now ctx g"
| "sl_step (SlActivity now ctx) g = sl_on_activity now ctx g"
| "sl_step (SlPayload now ctx payload) g = sl_on_payload payload now ctx g"
| "sl_step (SlClose ctx) g = (Ok (), sl_on_close ctx g)"

fun sl_run :: "sl_call list \<Rightarrow> slow_loris \<Rightarrow> unit outcome list \<times> slow_loris" where
  "sl_run [] g = ([], g)"
| "sl_run (c # cs) g =
     (let (r, g) = sl_step c g; (rs, g) = sl_run cs g in (r # rs, g))"

text \<open>The specification: a silence longer than \<open>limit\<close> is refused and does not count as activity.\<close>

definition lru_silent :: "duration \<Rightarrow> instant \<Rightarrow> socket_addr \<Rightarrow> lru \<Rightarrow> bool" where
  "lru_silent limit now a l = (case map_of l a of None \<Rightarrow> False | Some seen \<Rightarrow> limit < now - seen)"

fun lru_step :: "slow_loris_config \<Rightarrow> sl_call \<Rightarrow> lru \<Rightarrow> unit outcome \<times> lru" where
  "lru_step cfg (SlReserve now ctx) l = (Ok (), lru_note (max (sl_max_tracked cfg) 1) now (gc_peer_addr ctx) l)"
| "lru_step cfg (SlActivity now ctx) l =
     (if lru_silent (sl_idle_timeout cfg + sl_grace_period cfg) now (gc_peer_addr ctx) l
      then (Err (Timeout (sl_idle_timeout cfg) ''reading from a very slow client''), l)
      else (Ok (), lru_note (max (sl_max_tracked cfg) 1) now (gc_peer_addr ctx) l))"
| "lru_step cfg (SlPayload now ctx payload) l =
     (Ok (), lru_note (max (sl_max_tracked cfg) 1) now (gc_peer_addr ctx) l)"
| "lru_step cfg (SlClose ctx) l = (Ok (), lru_remove (gc_peer_addr ctx) l)"

fun lru_run :: "slow_loris_config \<Rightarrow> sl_call list \<Rightarrow> lru \<Rightarrow> unit outcome list \<times> lru" where
  "lru_run cfg [] l = ([], l)"
| "lru_run cfg (c # cs) l =
     (let (r, l) = lru_step cfg c l; (rs, l) = lru_run cfg cs l in (r # rs, l))"

definition sl_ok :: "slow_loris_config \<Rightarrow> slow_loris \<Rightarrow> bool" where
  "sl_ok cfg g \<longleftrightarrow> sl_config g = cfg \<and> bam_ok (sl_activity g) \<and>
     bam_max (sl_activity g) = max (sl_max_tracked cfg) 1"

abbreviation sl_abs :: "slow_loris \<Rightarrow> lru" where
  "sl_abs g \<equiv> bam_abs (sl_activity g)"

abbreviation sl_seq :: "slow_loris \<Rightarrow> nat" where
  "sl_seq g \<equiv> unat (bam_next_seq (sl_activity g))"

lemma sl_new_ok: "sl_ok cfg (sl_new cfg)" "sl_abs (sl_new cfg) = []" "sl_seq (sl_new cfg) = 0"
  by (simp_all add: sl_ok_def sl_new_def bam_new_def bam_ok_def bam_wf_def seq_sorted_def bam_abs_def)

lemma sl_note_refines:
  assumes "sl_ok cfg g" "sl_max_tracked cfg \<le> usize_max" "sl_seq g + 1 < 2 ^ 64"
  shows "sl_ok cfg (sl_note now a g) \<and>
    sl_abs (sl_note now a g) = lru_note (max (sl_max_tracked cfg) 1) now a (sl_abs g) \<and>
    sl_seq (sl_note now a g) = sl_seq g + 1"
proof -
  have "max (sl_max_tracked cfg) 1 \<le> usize_max" using assms(2) by (simp add: usize_max_def)
  then show ?thesis
    using bam_note_refines [of "sl_activity g" now a] assms by (auto simp: sl_ok_def sl_note_def)
qed

lemma check_idle_eq:
  assumes "sl_ok cfg g" "sl_idle_timeout cfg + sl_grace_period cfg \<le> duration_max"
  shows "check_idle now a g =
    (if lru_silent (sl_idle_timeout cfg + sl_grace_period cfg) now a (sl_abs g)
     then Err (Timeout (sl_idle_timeout cfg) ''reading from a very slow client'') else Ok ())"
  using assms abs_lookup [of "sl_activity g" a]
  by (auto simp: check_idle_def sl_ok_def bam_ok_def lru_silent_def duration_add_def timeout_def
      duration_since_def split: option.splits)

lemma sl_step_refines:
  assumes "sl_ok cfg g" "sl_max_tracked cfg \<le> usize_max" "sl_seq g + 1 < 2 ^ 64"
    and "sl_idle_timeout cfg + sl_grace_period cfg \<le> duration_max"
    and "sl_step c g = (r, g')"
  shows "sl_ok cfg g' \<and> lru_step cfg c (sl_abs g) = (r, sl_abs g') \<and> sl_seq g' \<le> sl_seq g + 1"
proof (cases c)
  case (SlActivity now ctx)
  then show ?thesis
    using assms(1,5) sl_note_refines [OF assms(1-3)] check_idle_eq [OF assms(1,4), of now "gc_peer_addr ctx"]
    by (auto simp: sl_on_activity_def split: if_splits)
next
  case (SlClose ctx)
  have "max (sl_max_tracked cfg) 1 \<le> usize_max" using assms(2) by (simp add: usize_max_def)
  then show ?thesis
    using SlClose assms(1,5) bam_remove_refines [of "sl_activity g" "gc_peer_addr ctx"]
    by (auto simp: sl_ok_def sl_on_close_def)
qed (use assms(5) sl_note_refines [OF assms(1-3)] in
      \<open>auto simp: sl_on_reserve_def sl_on_payload_def\<close>)

lemma sl_run_refines:
  assumes "sl_max_tracked cfg \<le> usize_max" "sl_idle_timeout cfg + sl_grace_period cfg \<le> duration_max"
  shows "sl_ok cfg g \<Longrightarrow> sl_seq g + length cs < 2 ^ 64 \<Longrightarrow> sl_run cs g = (rs, g') \<Longrightarrow>
    sl_ok cfg g' \<and> lru_run cfg cs (sl_abs g) = (rs, sl_abs g')"
proof (induction cs arbitrary: g rs)
  case Nil
  then show ?case by simp
next
  case (Cons c cs)
  obtain r g1 where step: "sl_step c g = (r, g1)" by fastforce
  obtain rs1 where run: "sl_run cs g1 = (rs1, g')" "rs = r # rs1"
    using Cons.prems(3) step by (auto split: prod.splits)
  have "sl_seq g + 1 < 2 ^ 64" using Cons.prems(2) by simp
  from sl_step_refines [OF Cons.prems(1) assms(1) this assms(2) step]
  have s: "sl_ok cfg g1" "lru_step cfg c (sl_abs g) = (r, sl_abs g1)" "sl_seq g1 \<le> sl_seq g + 1"
    by simp_all
  have "sl_seq g1 + length cs < 2 ^ 64" using s(3) Cons.prems(2) by simp
  from Cons.IH [OF s(1) this run(1)] show ?case using s(2) run(2) by simp
qed

lemma lru_remove_idle: "a \<notin> fst ` set l \<Longrightarrow> lru_remove a l = l"
  by (induction l) (auto simp: lru_remove_def)

lemma lru_note_drop:
  assumes "a \<notin> fst ` set A" "0 < bound"
  shows "lru_note bound t a (drop (length A - bound) A) = drop (Suc (length A) - bound) (A @ [(a, t)])"
proof -
  have fresh: "a \<notin> fst ` set (drop (length A - bound) A)"
    using assms(1) by (auto dest: in_set_dropD)
  show ?thesis
  proof (cases "length A < bound")
    case True
    then show ?thesis
      using fresh lru_remove_idle [OF fresh] by (simp add: lru_note_def Let_def del: drop_append)
  next
    case False
    then have "bound < length (drop (length A - bound) A @ [(a, t)])" by simp
    then have "lru_note bound t a (drop (length A - bound) A) = tl (drop (length A - bound) A @ [(a, t)])"
      using fresh lru_remove_idle [OF fresh] by (simp only: lru_note_def Let_def) simp
    also have "\<dots> = tl (drop (length A - bound) (A @ [(a, t)]))" by simp
    also have "\<dots> = drop (Suc (length A) - bound) (A @ [(a, t)])"
      using False by (simp add: tl_drop drop_Suc Suc_diff_le del: drop_append)
    finally show ?thesis .
  qed
qed

lemma lru_note_fold:
  assumes "length l \<le> bound" "distinct (map fst l @ map fst ns)" "0 < bound"
  shows "fold (\<lambda>(a, t). lru_note bound t a) ns l = drop (length l + length ns - bound) (l @ ns)"
  using assms(2)
proof (induction ns rule: rev_induct)
  case Nil
  then show ?case using assms(1) by simp
next
  case (snoc n ns)
  obtain a t where n: "n = (a, t)" by (cases n)
  have "a \<notin> fst ` set (l @ ns)" using snoc.prems by (auto simp: n)
  then have "lru_note bound t a (drop (length (l @ ns) - bound) (l @ ns)) =
      drop (Suc (length (l @ ns)) - bound) ((l @ ns) @ [(a, t)])"
    using assms(3) by (rule lru_note_drop)
  moreover have "fold (\<lambda>(a, t). lru_note bound t a) ns l = drop (length (l @ ns) - bound) (l @ ns)"
    using snoc by simp
  ultimately show ?case by (simp add: n del: drop_append)
qed

section \<open>Properties\<close>

text \<open>
  C17. The guard is the least-recently-active list. When the idle timeout and the grace period add up
  to at most the longest \<open>Duration\<close> and the limit of tracked peers is a \<open>usize\<close>, then for every sequence
  of fewer than \<open>2 ^ 64\<close> calls it gives the outcomes of the specification, in which a connection is refused exactly when
  it is tracked and was silent for longer than idle timeout plus grace, a full list drops the
  connection silent for longest, and closing forgets. The table and its queue stay bounded. With a longer
  sum the guard panics at the first activity of a tracked peer instead
  (\<open>slow_loris_limit_overflow_panics\<close>).
\<close>

theorem slow_loris_refines_lru:
  assumes "sl_max_tracked cfg \<le> usize_max" "sl_idle_timeout cfg + sl_grace_period cfg \<le> duration_max"
    and "length cs < 2 ^ 64" "sl_run cs (sl_new cfg) = (rs, g)"
  shows "lru_run cfg cs [] = (rs, sl_abs g) \<and>
    (\<forall>a. bam_get a (sl_activity g) = map_of (sl_abs g) a) \<and>
    hash_len (bam_map (sl_activity g)) = length (sl_abs g) \<and>
    length (sl_abs g) \<le> max (sl_max_tracked cfg) 1 \<and>
    length (bam_order (sl_activity g)) \<le> max (saturating_mul (max (sl_max_tracked cfg) 1) 4) 16"
proof -
  have "sl_ok cfg g \<and> lru_run cfg cs [] = (rs, sl_abs g)"
    using sl_run_refines [OF assms(1,2) sl_new_ok(1), of cs rs g] assms(3,4) by (simp add: sl_new_ok)
  then show ?thesis
    by (auto simp: sl_ok_def bam_ok_def abs_lookup abs_length order_threshold_def)
qed

definition sl_ctx :: "nat \<Rightarrow> guard_context" where
  "sl_ctx n = guard_context_new 0 (SockV4 (ipv4_new 10 0 0 (of_nat n)) 4000) None False"

definition sl_demo_calls :: "sl_call list" where
  "sl_demo_calls = [SlReserve 0 (sl_ctx 1), SlReserve (secs 1) (sl_ctx 2), SlActivity (secs 2) (sl_ctx 1),
     SlPayload (secs 3) (sl_ctx 2) [1], SlActivity (secs 21) (sl_ctx 1), SlClose (sl_ctx 1)]"

theorem slow_loris_refines_lru_witness:
  "\<exists>g. sl_run sl_demo_calls (sl_new slow_loris_config_default) =
     ([Ok (), Ok (), Ok (), Ok (), Err (Timeout (secs 15) ''reading from a very slow client''), Ok ()], g)"
proof -
  obtain rs g where run: "sl_run sl_demo_calls (sl_new slow_loris_config_default) = (rs, g)" by fastforce
  have "lru_run slow_loris_config_default sl_demo_calls [] = (rs, sl_abs g)"
    using slow_loris_refines_lru [OF _ _ _ run]
    by (simp add: slow_loris_config_default_def secs_def duration_max_def usize_max_def
        nanos_per_sec_def sl_demo_calls_def)
  moreover have "fst (lru_run slow_loris_config_default sl_demo_calls []) =
      [Ok (), Ok (), Ok (), Ok (), Err (Timeout (secs 15) ''reading from a very slow client''), Ok ()]"
    by code_simp
  ultimately show ?thesis using run by (metis fst_conv)
qed

text \<open>
  Under pressure the guard forgets exactly the clients it is meant to catch: once as many
  other connections as the table holds have been reserved after it, a silent connection is
  accepted again after any length of silence.
\<close>

theorem slow_loris_forgets_silent:
  assumes "sl_max_tracked cfg \<le> usize_max" "0 < sl_max_tracked cfg"
    and "sl_idle_timeout cfg + sl_grace_period cfg \<le> duration_max"
    and "length others = sl_max_tracked cfg" "distinct (map gc_peer_addr (ctx # others))"
    and "Suc (Suc (length others)) < 2 ^ 64"
  shows "last (fst (sl_run (map (SlReserve t) (ctx # others) @ [SlActivity now ctx]) (sl_new cfg))) = Ok ()"
proof -
  let ?cs = "map (SlReserve t) (ctx # others)"
  let ?ns = "map (\<lambda>c. (gc_peer_addr c, t)) (ctx # others)"
  have run_app: "lru_run cfg (xs @ ys) l =
      (fst (lru_run cfg xs l) @ fst (lru_run cfg ys (snd (lru_run cfg xs l))),
       snd (lru_run cfg ys (snd (lru_run cfg xs l))))" for xs ys l
    by (induction xs arbitrary: l) (simp_all add: split_beta Let_def)
  have "snd (lru_run cfg (map (SlReserve t) xs) l) =
      fold (\<lambda>(a, t). lru_note (max (sl_max_tracked cfg) 1) t a) (map (\<lambda>c. (gc_peer_addr c, t)) xs) l" for xs l
    by (induction xs arbitrary: l) (simp_all add: split_beta Let_def)
  then have "snd (lru_run cfg ?cs []) = fold (\<lambda>(a, t). lru_note (sl_max_tracked cfg) t a) ?ns []"
    using assms(2) by (metis Suc_leI One_nat_def max_absorb1)
  also have "\<dots> = drop (length ?ns - sl_max_tracked cfg) ?ns"
    using lru_note_fold [of "[]" "sl_max_tracked cfg" ?ns] assms(2,5)
    by (simp add: comp_def del: fold_simps)
  finally have "snd (lru_run cfg ?cs []) = drop (length ?ns - sl_max_tracked cfg) ?ns" .
  then have "snd (lru_run cfg ?cs []) = map (\<lambda>c. (gc_peer_addr c, t)) others"
    using assms(4) by simp
  moreover have "map_of (map (\<lambda>c. (gc_peer_addr c, t)) others) (gc_peer_addr ctx) = None"
    using assms(5) by (auto simp: map_of_eq_None_iff)
  ultimately have l: "lru_silent limit now (gc_peer_addr ctx) (snd (lru_run cfg ?cs [])) = False" for limit
    by (simp add: lru_silent_def)
  obtain rs g where run: "sl_run (?cs @ [SlActivity now ctx]) (sl_new cfg) = (rs, g)" by fastforce
  have "sl_seq (sl_new cfg) + length (?cs @ [SlActivity now ctx]) < 2 ^ 64"
    using assms(6) by (simp add: sl_new_ok)
  from sl_run_refines [OF assms(1,3) sl_new_ok(1) this run]
  have "rs = fst (lru_run cfg (?cs @ [SlActivity now ctx]) [])" by (simp add: sl_new_ok)
  also have "\<dots> = fst (lru_run cfg ?cs []) @ [Ok ()]" unfolding run_app using l by simp
  finally show ?thesis unfolding run by simp
qed

theorem slow_loris_forgets_silent_witness:
  "last (fst (sl_run (map (SlReserve 0) (sl_ctx 1 # [sl_ctx 2, sl_ctx 3]) @ [SlActivity (secs 1000) (sl_ctx 1)])
     (sl_new \<lparr>sl_idle_timeout = secs 15, sl_grace_period = secs 3, sl_max_tracked = 2\<rparr>))) = Ok ()"
  by (rule slow_loris_forgets_silent)
    (simp_all add: usize_max_def duration_max_def secs_def nanos_per_sec_def sl_ctx_def ipv4_new_def)

text \<open>
  The idle limit is computed with an addition that can overflow: with an idle timeout and a
  grace period whose sum does not fit a \<open>Duration\<close>, the first activity after a reservation panics.
\<close>

theorem slow_loris_limit_overflow_panics:
  assumes "duration_max < sl_idle_timeout cfg + sl_grace_period cfg"
  shows "fst (sl_run [SlReserve t ctx, SlActivity now ctx] (sl_new cfg)) =
    [Ok (), Panic ''overflow when adding durations'']"
  using assms
    by (simp add: order_threshold_nonzero sl_on_reserve_def sl_on_activity_def sl_note_def sl_new_def bam_new_def bam_note_def
        check_idle_def bam_get_def duration_add_def hash_simps Let_def)

theorem slow_loris_limit_overflow_panics_witness:
  "fst (sl_run [SlReserve 0 (sl_ctx 1), SlActivity 1 (sl_ctx 1)]
     (sl_new \<lparr>sl_idle_timeout = duration_max, sl_grace_period = secs 3, sl_max_tracked = 10\<rparr>)) =
   [Ok (), Panic ''overflow when adding durations'']"
  by (rule slow_loris_limit_overflow_panics) (simp add: secs_def nanos_per_sec_def)

end
