(* ===== verification/Std_Guards.thy ===== *)
theory Std_Guards
  imports Guard_Stack Ip_Ban Throttle Rate_Limiter Syn_Guard Slow_Loris
begin

text \<open>
  The guards of the crate in one stack: the trait objects as a datatype with its table of
  methods, the stack a configuration builds (src/src/server/mod.rs, \<open>GuardStackConfig\<close> in
  src/src/config.rs), and the contract of the stack discharged for all six guards.
\<close>

datatype std_guard =
    RateLimiterG rate_limiter
  | IpBanG ip_ban
  | ThrottleG throttle
  | SynGuardG syn_guard
  | SlowLorisG slow_loris
  | UdpAmplificationG udp_amplification_config

fun std_name :: "std_guard \<Rightarrow> string" where
  "std_name (RateLimiterG _) = ''rate_limiter''"
| "std_name (IpBanG _) = ''ip_ban''"
| "std_name (ThrottleG _) = ''throttle''"
| "std_name (SynGuardG _) = ''syn_guard''"
| "std_name (SlowLorisG _) = ''slow_loris''"
| "std_name (UdpAmplificationG _) = ''udp_amplification''"

fun std_on_reserve :: "std_guard hook" where
  "std_on_reserve now ctx (RateLimiterG g) = map_prod id RateLimiterG (rl_on_reserve now ctx g)"
| "std_on_reserve now ctx (IpBanG g) = (ip_ban_on_reserve ctx g, IpBanG g)"
| "std_on_reserve now ctx (ThrottleG g) = map_prod id ThrottleG (th_on_reserve ctx g)"
| "std_on_reserve now ctx (SynGuardG g) = map_prod id SynGuardG (sg_on_reserve now ctx g)"
| "std_on_reserve now ctx (SlowLorisG g) = map_prod id SlowLorisG (sl_on_reserve now ctx g)"
| "std_on_reserve now ctx (UdpAmplificationG g) = default_hook now ctx (UdpAmplificationG g)"

fun std_on_established :: "std_guard hook" where
  "std_on_established now ctx (SynGuardG g) = map_prod id SynGuardG (sg_on_established ctx g)"
| "std_on_established now ctx g = default_hook now ctx g"

fun std_on_payload :: "u8 list \<Rightarrow> std_guard hook" where
  "std_on_payload payload now ctx (SlowLorisG g) = map_prod id SlowLorisG (sl_on_payload payload now ctx g)"
| "std_on_payload payload now ctx (UdpAmplificationG cfg) = (udp_on_payload cfg payload, UdpAmplificationG cfg)"
| "std_on_payload payload now ctx g = default_payload payload now ctx g"

fun std_on_activity :: "std_guard hook" where
  "std_on_activity now ctx (SynGuardG g) = (sg_on_activity now ctx g, SynGuardG g)"
| "std_on_activity now ctx (SlowLorisG g) = map_prod id SlowLorisG (sl_on_activity now ctx g)"
| "std_on_activity now ctx g = default_hook now ctx g"

fun std_on_close :: "guard_context \<Rightarrow> std_guard \<Rightarrow> std_guard" where
  "std_on_close ctx (ThrottleG g) = ThrottleG (th_on_close ctx g)"
| "std_on_close ctx (SynGuardG g) = SynGuardG (sg_on_close ctx g)"
| "std_on_close ctx (SlowLorisG g) = SlowLorisG (sl_on_close ctx g)"
| "std_on_close ctx g = default_close ctx g"

definition std_ops :: "std_guard guard_ops" where
  "std_ops =
     \<lparr>guard_name = std_name, on_reserve = std_on_reserve, on_established = std_on_established,
      on_payload = std_on_payload, on_activity = std_on_activity, on_close = std_on_close\<rparr>"

lemma std_ops_simps [simp]:
  "guard_name std_ops = std_name" "on_reserve std_ops = std_on_reserve"
  "on_established std_ops = std_on_established" "on_payload std_ops = std_on_payload"
  "on_activity std_ops = std_on_activity" "on_close std_ops = std_on_close"
  by (simp_all add: std_ops_def)

section \<open>Building the stack\<close>

record guard_stack_config =
  gsc_rate_limiter :: "rate_limiter_config option"
  gsc_ip_ban :: "ip_ban_config option"
  gsc_throttle :: "throttle_config option"
  gsc_syn_guard :: "syn_guard_config option"
  gsc_slow_loris :: "slow_loris_config option"
  gsc_udp_amplification :: "udp_amplification_config option"

definition push_opt :: "('c \<Rightarrow> 'g) \<Rightarrow> 'c option \<Rightarrow> 'g guard_stack_builder \<Rightarrow> 'g guard_stack_builder" where
  "push_opt new_guard cfg b =
     (case cfg of None \<Rightarrow> b | Some c \<Rightarrow> builder_push (new_guard c) b)"

definition build_guard_stack :: "instant \<Rightarrow> guard_stack_config \<Rightarrow> std_guard guard_stack" where
  "build_guard_stack now cfg =
     (let b = stack_builder;
          b = push_opt (\<lambda>c. RateLimiterG (rl_new now c)) (gsc_rate_limiter cfg) b;
          b = push_opt (\<lambda>c. IpBanG (ip_ban_new c)) (gsc_ip_ban cfg) b;
          b = push_opt (\<lambda>c. ThrottleG (throttle_new c)) (gsc_throttle cfg) b;
          b = push_opt (\<lambda>c. SynGuardG (sg_new c)) (gsc_syn_guard cfg) b;
          b = push_opt (\<lambda>c. SlowLorisG (sl_new c)) (gsc_slow_loris cfg) b;
          b = push_opt UdpAmplificationG (gsc_udp_amplification cfg) b in
      builder_build b)"

section \<open>The contract of the six guards\<close>

fun std_inv :: "std_guard \<Rightarrow> bool" where
  "std_inv (RateLimiterG g) = rl_ok g"
| "std_inv g = True"

fun std_fresh :: "guard_context \<Rightarrow> std_guard \<Rightarrow> bool" where
  "std_fresh ctx (SynGuardG g) = (gc_peer_addr ctx \<notin> ho_established (sg_state g))"
| "std_fresh ctx (SlowLorisG g) = (bam_get (gc_peer_addr ctx) (sl_activity g) = None)"
| "std_fresh ctx g = True"

text \<open>What a guard counts for the address or connection of \<open>ctx\<close>.\<close>

fun std_usage :: "guard_context \<Rightarrow> std_guard \<Rightarrow> nat list" where
  "std_usage ctx (ThrottleG g) = [count_of (th_per_ip g) (gc_peer_ip ctx), unat (th_global g)]"
| "std_usage ctx (SynGuardG g) = [count_of (ho_per_ip (sg_state g)) (gc_peer_ip ctx)]"
| "std_usage ctx (SlowLorisG g) = [of_bool (bam_get (gc_peer_addr ctx) (sl_activity g) \<noteq> None)]"
| "std_usage ctx (IpBanG g) = [of_bool (is_banned (gc_peer_ip ctx) g)]"
| "std_usage ctx g = []"

fun std_pending :: "guard_context \<Rightarrow> nat list \<Rightarrow> std_guard \<Rightarrow> bool" where
  "std_pending ctx us (ThrottleG g) =
     (\<exists>n. fmlookup (th_per_ip g) (gc_peer_ip ctx) = Some (Suc n) \<and> us = [n, unat (th_global g - 1)])"
| "std_pending ctx us (SynGuardG g) =
     (\<exists>n. fmlookup (ho_per_ip (sg_state g)) (gc_peer_ip ctx) = Some (Suc n) \<and> us = [n] \<and>
       gc_peer_addr ctx \<notin> ho_established (sg_state g))"
| "std_pending ctx us (SlowLorisG g) = (us = [0])"
| "std_pending ctx us g = (us = std_usage ctx g)"

fun std_settled :: "guard_context \<Rightarrow> nat list \<Rightarrow> std_guard \<Rightarrow> bool" where
  "std_settled ctx us (SynGuardG g) =
     (us = [count_of (ho_per_ip (sg_state g)) (gc_peer_ip ctx)] \<and>
       gc_peer_addr ctx \<in> ho_established (sg_state g))"
| "std_settled ctx us g = std_pending ctx us g"

lemma th_acquire_accepted:
  "th_acquire ip t = (Ok (), t') \<Longrightarrow>
     fmlookup (th_per_ip t') ip = Some (Suc (count_of (th_per_ip t) ip)) \<and> th_global t' - 1 = th_global t"
  by (auto simp: th_acquire_def Let_def split: if_splits)

lemma th_acquire_refused:
  "th_acquire ip t = (Err e, t') \<Longrightarrow>
     count_of (th_per_ip t') ip = count_of (th_per_ip t) ip \<and> th_global t' = th_global t"
  by (auto simp: th_acquire_def Let_def hash_simps split: if_splits)

lemma th_acquire_no_panic: "fst (th_acquire ip t) \<noteq> Panic msg"
  by (simp add: th_acquire_def Let_def)

lemma th_release_held:
  "fmlookup (th_per_ip t) ip = Some (Suc n) \<Longrightarrow>
     count_of (th_per_ip (th_release ip t)) ip = n \<and> th_global (th_release ip t) = th_global t - 1"
  by (auto simp: th_release_def Let_def hash_simps)

lemma bam_get_remove: "bam_get a (bam_remove a m) = None"
  by (simp add: bam_get_def bam_remove_def compact_order_def Let_def)

lemmas std_hooks = rl_on_reserve_def ip_ban_on_reserve_def th_on_reserve_def th_on_close_def
  sg_on_reserve_def sg_on_established_def sg_on_close_def sl_on_reserve_def sl_on_payload_def sl_on_close_def
  default_hook_def default_payload_def default_close_def context_ok_def

lemma std_reserve_inv: "std_inv g \<Longrightarrow> std_inv (snd (std_on_reserve t ctx g))"
  using rl_allow_ok by (cases g) (auto simp: std_hooks map_prod_def split: prod.splits)

lemma std_close_inv: "std_inv g \<Longrightarrow> std_inv (std_on_close ctx g)"
  by (cases g) (auto simp: std_hooks)

lemma std_reserve_returns: "std_inv g \<Longrightarrow> fst (std_on_reserve t ctx g) \<noteq> Panic msg"
  using rl_allow_ok th_acquire_no_panic ho_reserve_no_panic
  by (cases g) (auto simp: std_hooks map_prod_def split: prod.splits if_splits,
      (metis fst_conv)+)

lemma std_refusal:
  "context_ok ctx \<Longrightarrow> std_on_reserve t ctx g = (Err e, g') \<Longrightarrow> std_usage ctx g' = std_usage ctx g"
  by (cases g) (auto simp: std_hooks map_prod_def split: prod.splits if_splits
      dest: ho_reserve_refused th_acquire_refused)

lemma ip_ban_accepted: "ip_ban_on_reserve ctx g = Ok u \<Longrightarrow> \<not> is_banned (gc_peer_ip ctx) g"
  by (auto simp: ip_ban_on_reserve_def split: if_splits)

lemma std_reserve_pending:
  assumes "context_ok ctx" "std_fresh ctx g" "std_on_reserve t ctx g = (Ok u, g')"
  shows "std_pending ctx (std_usage ctx g) g'"
proof (cases g)
  case (ThrottleG th)
  then obtain th' where "th_acquire (gc_peer_ip ctx) th = (Ok (), th')" "g' = ThrottleG th'"
    using assms(3) by (auto simp: std_hooks map_prod_def split: prod.splits)
  then show ?thesis using ThrottleG th_acquire_accepted by auto
next
  case (SynGuardG sg)
  then obtain s' where s': "ho_reserve (sg_config sg) t (sa_ip (gc_peer_addr ctx)) (sg_state sg) = (Ok (), s')"
      "g' = SynGuardG (sg\<lparr>sg_state := s'\<rparr>)"
    using assms(1,3) by (auto simp: std_hooks map_prod_def split: prod.splits)
  then show ?thesis
    using SynGuardG assms(1,2) ho_reserve_accepted [OF s'(1)] by (simp add: context_ok_def)
qed (use assms in \<open>auto simp: std_hooks map_prod_def split: prod.splits if_splits\<close>)

lemma std_established_settled:
  assumes "std_pending ctx us g" "context_ok ctx"
  shows "std_settled ctx us (snd (std_on_established t ctx g))"
proof (cases g)
  case (SynGuardG sg)
  then show ?thesis
    using assms ho_release_count
    by (auto simp: std_hooks ho_establish_def Let_def)
qed (use assms in \<open>auto simp: std_hooks\<close>)

lemma std_activity_frame:
  assumes "std_on_activity t ctx g = (r, g')"
  shows "std_pending ctx us g' = std_pending ctx us g" "std_settled ctx us g' = std_settled ctx us g"
  using assms by (cases g; auto simp: std_hooks map_prod_def split: prod.splits)+

lemma std_payload_frame:
  assumes "std_on_payload payload t ctx g = (r, g')"
  shows "std_pending ctx us g' = std_pending ctx us g" "std_settled ctx us g' = std_settled ctx us g"
  using assms by (cases g; auto simp: std_hooks map_prod_def)+

lemma std_close_pending:
  assumes "std_pending ctx us g" "context_ok ctx"
  shows "std_usage ctx (std_on_close ctx g) = us"
proof (cases g)
  case (ThrottleG th)
  then show ?thesis using assms(1) th_release_held by (auto simp: std_hooks)
next
  case (SynGuardG sg)
  then show ?thesis using assms ho_release_count by (auto simp: std_hooks ho_close_def)
next
  case (SlowLorisG sl)
  then show ?thesis using assms by (simp add: std_hooks bam_get_remove)
qed (use assms in \<open>auto simp: std_hooks\<close>)

lemma std_close_settled:
  assumes "std_settled ctx us g" "context_ok ctx"
  shows "std_usage ctx (std_on_close ctx g) = us"
proof (cases g)
  case (SynGuardG sg)
  then show ?thesis using assms by (auto simp: std_hooks ho_close_def)
qed (use assms std_close_pending [of ctx us g] in auto)

interpretation std: lifecycle_guards std_ops std_inv std_fresh std_usage std_pending std_settled
proof unfold_locales
  fix ctx :: guard_context and g g' :: std_guard and t u us payload
  show "std_inv g \<Longrightarrow> context_ok ctx \<Longrightarrow> std_inv (snd (on_reserve std_ops t ctx g))"
    by (simp add: std_reserve_inv)
  show "std_inv g \<Longrightarrow> context_ok ctx \<Longrightarrow> std_inv (on_close std_ops ctx g)"
    by (simp add: std_close_inv)
  show "std_inv g \<Longrightarrow> context_ok ctx \<Longrightarrow> on_reserve std_ops t ctx g = (Err e, g') \<Longrightarrow>
      std_usage ctx g' = std_usage ctx g" for e by (simp add: std_refusal)
  show "std_inv g \<Longrightarrow> fst (on_reserve std_ops t ctx g) \<noteq> Panic msg" for msg
    by (simp add: std_reserve_returns)
  show "std_inv g \<Longrightarrow> context_ok ctx \<Longrightarrow> std_fresh ctx g \<Longrightarrow> on_reserve std_ops t ctx g = (Ok u, g') \<Longrightarrow>
      std_usage ctx (on_close std_ops ctx g') = std_usage ctx g"
    using std_reserve_pending std_close_pending by simp
qed (use std_reserve_pending std_established_settled std_activity_frame std_payload_frame std_close_pending
      std_close_settled in \<open>auto simp: prod_eq_iff\<close>)

section \<open>Properties of the stack\<close>

definition all_ready :: "guard_context \<Rightarrow> std_guard guard_stack \<Rightarrow> bool" where
  "all_ready ctx st \<longleftrightarrow> list_all (\<lambda>g. std_inv g \<and> std_fresh ctx g) (gs_guards st)"

definition demo_ctx :: "nat \<Rightarrow> guard_context" where
  "demo_ctx n = guard_context_new 0 (SockV4 (ipv4_new 10 0 0 (of_nat n)) 4000) None False"

definition demo_stack_config :: guard_stack_config where
  "demo_stack_config =
     \<lparr>gsc_rate_limiter = None, gsc_ip_ban = Some IpBanConfig,
      gsc_throttle = Some \<lparr>max_connections_per_ip = 5, max_connections_global = 5\<rparr>,
      gsc_syn_guard = Some \<lparr>sg_max_half_open_per_ip = 0, sg_max_half_open_global = 9,
        sg_backlog_limit = 9, sg_syn_timeout = secs 5, sg_max_tracked_ips = 9\<rparr>,
      gsc_slow_loris = Some slow_loris_config_default,
      gsc_udp_amplification = Some udp_amplification_default\<rparr>"

definition demo_stack :: "std_guard guard_stack" where
  "demo_stack = build_guard_stack 0 demo_stack_config"

definition open_stack :: "std_guard guard_stack" where
  "open_stack = build_guard_stack 0
     (demo_stack_config\<lparr>gsc_syn_guard := Some syn_guard_config_default\<rparr>)"

lemma push_opt_simps [simp]:
  "gsb_guards (push_opt f c b) = gsb_guards b @ (case c of None \<Rightarrow> [] | Some x \<Rightarrow> [f x])"
  "gsb_allowlist (push_opt f c b) = gsb_allowlist b" "gsb_observer (push_opt f c b) = gsb_observer b"
  by (simp_all add: push_opt_def builder_push_def split: option.split)

lemma pushed_list:
  "list_all P (case c of None \<Rightarrow> [] | Some x \<Rightarrow> [f x]) = (\<forall>x. c = Some x \<longrightarrow> P (f x))"
  "map std_name (case c of None \<Rightarrow> [] | Some x \<Rightarrow> [f x]) = (if c = None then [] else [std_name (f (the c))])"
  by (cases c; simp)+

lemma built_ready [simp]: "all_ready ctx (build_guard_stack now cfg)"
  by (simp add: build_guard_stack_def all_ready_def Let_def pushed_list
      rl_new_ok sg_new_def half_open_default_def sl_new_def bam_new_def bam_get_def)

text \<open>
  The stack a configuration builds holds exactly the configured guards, in the fixed order
  rate limiter, ban list, throttle, SYN guard, slow-client guard, UDP guard; nothing is
  allowlisted or observed, and every guard satisfies its invariant and knows no connection.
\<close>

theorem build_guard_stack_order:
  "map std_name (gs_guards (build_guard_stack now cfg)) =
     concat [if gsc_rate_limiter cfg = None then [] else [''rate_limiter''],
       if gsc_ip_ban cfg = None then [] else [''ip_ban''],
       if gsc_throttle cfg = None then [] else [''throttle''],
       if gsc_syn_guard cfg = None then [] else [''syn_guard''],
       if gsc_slow_loris cfg = None then [] else [''slow_loris''],
       if gsc_udp_amplification cfg = None then [] else [''udp_amplification'']] \<and>
   all_ready ctx (build_guard_stack now cfg) \<and>
   gs_allowlist (build_guard_stack now cfg) = {} \<and> \<not> gs_observer (build_guard_stack now cfg)"
proof (intro conjI)
  show "all_ready ctx (build_guard_stack now cfg)" by (rule built_ready)
qed (simp_all add: build_guard_stack_def Let_def pushed_list)

lemma demo_ctx_ok [simp]: "context_ok (demo_ctx n)"
  by (simp add: demo_ctx_def)

text \<open>A stack whose guards admit \<open>demo_ctx 1\<close>.\<close>

lemma open_stack_reserves:
  obtains ss st1 where "gs_reserve std_ops id (demo_ctx 1) open_stack = (Ok ss, st1)"
proof -
  have "is_ok (fst (gs_reserve std_ops id (demo_ctx 1) open_stack))" by code_simp
  then show ?thesis
    using that by (cases "gs_reserve std_ops id (demo_ctx 1) open_stack";
        cases "fst (gs_reserve std_ops id (demo_ctx 1) open_stack)") (auto simp: is_ok_def)
qed

lemma open_stack_ready [simp]: "all_ready ctx open_stack"
  by (simp add: open_stack_def)

text \<open>
  A refused reservation holds nothing: whichever guard refuses, after the rollback every
  guard counts for the refused address and connection exactly what it counted before.
\<close>

theorem refused_reservation_holds_nothing:
  assumes "context_ok ctx" "all_ready ctx st" "gs_reserve std_ops clk ctx st = (Err e, st')"
  shows "map (std_usage ctx) (gs_guards st') = map (std_usage ctx) (gs_guards st)"
  using std.gs_reserve_refused [OF assms(1) _ assms(3)] assms(2) by (simp add: all_ready_def)

theorem refused_reservation_holds_nothing_witness:
  "\<exists>e st'. gs_reserve std_ops id (demo_ctx 1) demo_stack = (Err e, st') \<and>
     map (std_usage (demo_ctx 1)) (gs_guards st') = map (std_usage (demo_ctx 1)) (gs_guards demo_stack)"
proof -
  have "\<not> is_ok (fst (gs_reserve std_ops id (demo_ctx 1) demo_stack))" by code_simp
  moreover have "fst (gs_reserve std_ops id (demo_ctx 1) demo_stack) \<noteq> Panic msg" for msg
    using std.gs_reserve_refused [of "demo_ctx 1" demo_stack id "fst (gs_reserve std_ops id (demo_ctx 1) demo_stack)"
      "snd (gs_reserve std_ops id (demo_ctx 1) demo_stack)"] built_ready
    by (simp add: all_ready_def demo_stack_def)
  ultimately obtain e st' where r: "gs_reserve std_ops id (demo_ctx 1) demo_stack = (Err e, st')"
    by (cases "gs_reserve std_ops id (demo_ctx 1) demo_stack"; cases "fst (gs_reserve std_ops id (demo_ctx 1) demo_stack)")
      (auto simp: is_ok_def)
  then show ?thesis
    using refused_reservation_holds_nothing [OF _ _ r] by (simp add: demo_stack_def)
qed

lemma session_gives_everything_back_aux:
  assumes "context_ok ctx" "all_ready ctx st" "gs_reserve std_ops clk ctx st = (Ok ss, st1)"
    and "fold (session_step std_ops) cs (ss, st1) = (ss2, st2)"
  shows "map (std_usage ctx) (gs_guards (drop_session std_ops clk2 ss2 st2)) =
    map (std_usage ctx) (gs_guards st)"
proof -
  have "ss_allowed ss \<Longrightarrow> st1 = st"
    using assms(3) by (auto simp: gs_reserve_def Let_def split: if_splits prod.splits outcome.splits)
  then show ?thesis
    using std.session_gives_back [OF assms(1) _ assms(3,4)] assms(2) by (auto simp: all_ready_def)
qed

text \<open>
  C2. A session gives back everything it took. In a stack of well-formed guards none of which knows a
  connection of this peer address and port yet (\<open>all_ready\<close>), after a reservation, any sequence of
  establishment, payload and activity calls (including calls that a guard rejects half way) and the
  final drop, every guard counts for the connection what it counted before the reservation.
\<close>

theorem session_gives_everything_back:
  assumes "context_ok ctx" "all_ready ctx st" "gs_reserve std_ops clk ctx st = (Ok ss, st1)"
    and "fold (session_step std_ops) cs (ss, st1) = (ss2, st2)"
  shows "map (std_usage ctx) (gs_guards (drop_session std_ops clk2 ss2 st2)) =
    map (std_usage ctx) (gs_guards st)"
  using assms by (rule session_gives_everything_back_aux)

theorem session_gives_everything_back_witness:
  "\<exists>ss st1. gs_reserve std_ops id (demo_ctx 1) open_stack = (Ok ss, st1) \<and>
     map (std_usage (demo_ctx 1)) (gs_guards (drop_session std_ops id
       (fst (session_step std_ops (MarkEstablished id) (ss, st1)))
       (snd (session_step std_ops (MarkEstablished id) (ss, st1))))) =
     map (std_usage (demo_ctx 1)) (gs_guards open_stack)"
proof -
  obtain ss st1 where r: "gs_reserve std_ops id (demo_ctx 1) open_stack = (Ok ss, st1)" by (rule open_stack_reserves)
  then show ?thesis
    using session_gives_everything_back [OF _ _ r, of "[MarkEstablished id]" _ _ id]
    by (simp add: open_stack_def)
qed

lemma reserve_loop_refusal:
  assumes "length pre' = length pre"
    and "\<forall>k < length pre. on_reserve ops (clk (2 * (i + k))) ctx (pre ! k) = (Ok (), pre' ! k)"
    and "on_reserve ops (clk (2 * (i + length pre))) ctx g = (Err e, g')"
  shows "\<exists>events'. reserve_loop ops obs ctx clk i accepted (pre @ g # post) events =
    (Err (GuardRejected (guard_name ops g') (display_error e)),
     map (on_close ops ctx) (rev accepted @ pre') @ g' # post, events') \<and>
    (\<exists>new. events' = events @ new \<and> (if obs
       then map ge_guard new = map (guard_name ops) (pre' @ [g']) \<and>
         (\<forall>ev \<in> set (butlast new). ge_decision ev = Allow) \<and>
         ge_decision (last new) = Deny (GuardRejected (guard_name ops g') (display_error e))
       else new = []))"
  using assms
proof (induction pre arbitrary: pre' i accepted events)
  case Nil
  then show ?case by (simp add: Let_def emit_def guard_rejected_def rev_map)
next
  case (Cons p pre)
  then obtain p' pre2 where pre': "pre' = p' # pre2" by (cases pre') auto
  have first: "on_reserve ops (clk (2 * i)) ctx p = (Ok (), p')"
    using Cons.prems(2) [rule_format, of 0] by (simp add: pre')
  have rest: "\<forall>k < length pre. on_reserve ops (clk (2 * (Suc i + k))) ctx (pre ! k) = (Ok (), pre2 ! k)"
    using Cons.prems(2) [rule_format, of "Suc k" for k] by (simp add: pre')
  define ev where "ev = allow_event (guard_name ops p') Reserve ctx
    (guard_name ops p' @ '' allowed reservation'') (clk (2 * i + 1))"
  have "length pre2 = length pre" "on_reserve ops (clk (2 * (Suc i + length pre))) ctx g = (Err e, g')"
    using Cons.prems(1,3) by (simp_all add: pre')
  from Cons.IH [OF this(1) rest this(2), of "p' # accepted" "emit obs ev events"]
  obtain new where new: "reserve_loop ops obs ctx clk (Suc i) (p' # accepted) (pre @ g # post) (emit obs ev events) =
      (Err (GuardRejected (guard_name ops g') (display_error e)),
       map (on_close ops ctx) (rev (p' # accepted) @ pre2) @ g' # post, emit obs ev events @ new)"
    and props: "if obs then map ge_guard new = map (guard_name ops) (pre2 @ [g']) \<and>
         (\<forall>ev \<in> set (butlast new). ge_decision ev = Allow) \<and>
         ge_decision (last new) = Deny (GuardRejected (guard_name ops g') (display_error e))
       else new = []" by auto
  show ?case
  proof (cases obs)
    case True
    then have "new \<noteq> []" using props by auto
    then show ?thesis
      using new props first True by (simp add: pre' ev_def emit_def allow_event_def)
  next
    case False
    then show ?thesis using new props first by (simp add: pre' ev_def emit_def)
  qed
qed

text \<open>
  C34. The first guard that refuses decides: the guards before it have reserved and are closed
  again, the guards after it are not called at all, the error names the refusing guard with the
  text of its error, and the observer sees one event per guard asked, all but the last an \<open>Allow\<close>.
\<close>

theorem first_refusal_decides:
  assumes "gc_peer_ip ctx \<notin> gs_allowlist st" "gs_guards st = pre @ g # post" "length pre' = length pre"
    and "\<forall>k < length pre. on_reserve ops (clk (2 * k)) ctx (pre ! k) = (Ok (), pre' ! k)"
    and "on_reserve ops (clk (2 * length pre)) ctx g = (Err e, g')"
  shows "\<exists>new. gs_reserve ops clk ctx st =
      (Err (GuardRejected (guard_name ops g') (display_error e)),
       st\<lparr>gs_guards := map (on_close ops ctx) pre' @ g' # post, gs_events := gs_events st @ new\<rparr>) \<and>
    (if gs_observer st
     then map ge_guard new = map (guard_name ops) (pre' @ [g']) \<and>
       (\<forall>ev \<in> set (butlast new). ge_decision ev = Allow) \<and>
       ge_decision (last new) = Deny (GuardRejected (guard_name ops g') (display_error e))
     else new = [])"
  using reserve_loop_refusal [of pre' pre ops clk 0 ctx g e g' "gs_observer st" "[]" post "gs_events st"] assms
  by (auto simp: gs_reserve_def allow_contains_def)

theorem first_refusal_decides_witness:
  "fst (gs_reserve std_ops id (demo_ctx 1) (gs_new\<lparr>gs_guards :=
     [UdpAmplificationG udp_amplification_default, IpBanG (ban (gc_peer_ip (demo_ctx 1)) (ip_ban_new IpBanConfig)),
      SlowLorisG (sl_new slow_loris_config_default)]\<rparr>)) =
   Err (GuardRejected ''ip_ban'' ''ip banned: 10.0.0.1'')"
proof -
  let ?ban = "IpBanG (ban (gc_peer_ip (demo_ctx 1)) (ip_ban_new IpBanConfig))"
  let ?st = "gs_new\<lparr>gs_guards := [UdpAmplificationG udp_amplification_default] @ ?ban #
    [SlowLorisG (sl_new slow_loris_config_default)]\<rparr>"
  have "std_on_reserve (id (2 * length [UdpAmplificationG udp_amplification_default])) (demo_ctx 1) ?ban =
      (Err (BannedIp ''10.0.0.1''), ?ban)" by code_simp
  moreover have "display_error (BannedIp ''10.0.0.1'') = ''ip banned: 10.0.0.1''" by code_simp
  ultimately show ?thesis
    using first_refusal_decides [of "demo_ctx 1" ?st "[UdpAmplificationG udp_amplification_default]" ?ban
        "[SlowLorisG (sl_new slow_loris_config_default)]" "[UdpAmplificationG udp_amplification_default]" std_ops id]
    by (auto simp: gs_new_def default_hook_def)
qed

text \<open>
  The order of the stack charges banned clients to everybody: with a rate limiter in front of
  the ban list, a reservation of a banned address is refused by the ban list but leaves the rate
  limiter in the state of a granted call, its share of the global budgets spent.
\<close>

theorem banned_peer_spends_budget:
  assumes "gc_peer_ip ctx \<notin> gs_allowlist st" "gs_guards st = RateLimiterG rl # IpBanG b # post"
    and "is_banned (gc_peer_ip ctx) b" "rl_on_reserve (clk 0) ctx rl = (Ok (), rl')"
  shows "\<exists>st'. gs_reserve std_ops clk ctx st =
      (Err (GuardRejected ''ip_ban'' (''ip banned: '' @ display_ip (gc_peer_ip ctx))), st') \<and>
    gs_guards st' = RateLimiterG rl' # IpBanG b # post"
  using reserve_loop_refusal [of "[RateLimiterG rl']" "[RateLimiterG rl]" std_ops clk 0 ctx "IpBanG b"
      "BannedIp (display_ip (gc_peer_ip ctx))" "IpBanG b" "gs_observer st" "[]" post "gs_events st"] assms
  by (auto simp: gs_reserve_def allow_contains_def ip_ban_on_reserve_def default_close_def map_prod_def)

lemma demo_rate_limiter_grants:
  "fst (rl_allow 0 0 0 0 (V4 1) (rl_new 0 demo_rl_cfg)) = Ok ()"
  by (simp add: rl_allow_def rl_new_def demo_rl_cfg_def bim_new_def bim_ensure_def tb_new_def
      allow_global_window_def window_allow_def duration_since_def tb_allow_def tb_credit_def
      f64_add_def f64_sub_def f64_mul_def f64_of_nat_def rat_of_u32_def secs_def nanos_per_sec_def
      hash_simps rate_limited_def)

theorem banned_peer_spends_budget_witness:
  "\<exists>st'. gs_reserve std_ops id (guard_context_new 0 (SockV4 1 4000) None False)
       (gs_new\<lparr>gs_guards := [RateLimiterG (rl_new 0 demo_rl_cfg), IpBanG (ban (V4 1) (ip_ban_new IpBanConfig))]\<rparr>) =
     (Err (GuardRejected ''ip_ban'' (''ip banned: '' @ display_ip (V4 1))), st')"
proof -
  let ?ctx = "guard_context_new 0 (SockV4 1 4000) None False"
  let ?b = "ban (V4 1) (ip_ban_new IpBanConfig)"
  let ?st = "gs_new\<lparr>gs_guards := [RateLimiterG (rl_new 0 demo_rl_cfg), IpBanG ?b]\<rparr>"
  obtain rl' where r: "rl_on_reserve (id 0) ?ctx (rl_new 0 demo_rl_cfg) = (Ok (), rl')"
    using demo_rate_limiter_grants unfolding rl_on_reserve_def by (metis id_apply guard_context_new_simps(2) sa_ip.simps(1) prod.collapse)
  have "gc_peer_ip ?ctx \<notin> gs_allowlist ?st" "is_banned (gc_peer_ip ?ctx) ?b"
      "gs_guards ?st = RateLimiterG (rl_new 0 demo_rl_cfg) # IpBanG ?b # []"
    by (simp_all add: gs_new_def is_banned_def ban_def)
  from banned_peer_spends_budget [where clk = id, OF this(1,3,2) r] show ?thesis by auto
qed

text \<open>
  An allowlisted address bypasses every guard: its reservation succeeds, and neither the
  reservation nor anything its session does afterwards, its drop included, changes a guard or emits
  an event.
\<close>

theorem allowlisted_bypasses_guards:
  assumes "gc_peer_ip ctx \<in> gs_allowlist st"
  shows "\<exists>ss. gs_reserve ops clk ctx st = (Ok ss, st) \<and>
    fold (session_step ops) cs (ss, st) = (ss, st) \<and> drop_session ops clk2 ss st = st"
proof -
  define ss where "ss = \<lparr>ss_context = ctx, ss_closed = False, ss_established = False, ss_allowed = True\<rparr>"
  have "session_step ops c (ss, st) = (ss, st)" for c
    by (cases c) (simp_all add: ss_def mark_established_def record_payload_def touch_def)
  then have "fold (session_step ops) cs (ss, st) = (ss, st)" by (induction cs) simp_all
  moreover have "gs_reserve ops clk ctx st = (Ok ss, st)" "drop_session ops clk2 ss st = st"
    using assms by (simp_all add: ss_def gs_reserve_def allow_contains_def drop_session_def close_session_def)
  ultimately show ?thesis by blast
qed

theorem allowlisted_bypasses_guards_witness:
  "is_ok (fst (gs_reserve std_ops id (demo_ctx 1) (demo_stack\<lparr>gs_allowlist := allow (gc_peer_ip (demo_ctx 1)) {}\<rparr>)))"
proof -
  have "gc_peer_ip (demo_ctx 1) \<in>
      gs_allowlist (demo_stack\<lparr>gs_allowlist := allow (gc_peer_ip (demo_ctx 1)) {}\<rparr>)" by (simp add: allow_def)
  from allowlisted_bypasses_guards [OF this, of std_ops id "[]" id] show ?thesis by (auto simp: is_ok_def)
qed

lemma close_loop_events:
  "length (snd (close_loop ops obs ctx clk i gs events)) = length events + (if obs then length gs else 0)"
  by (induction gs arbitrary: i events) (simp_all add: Let_def split_beta emit_def)

text \<open>
  Closing is exactly once: however often a session is closed or dropped, every guard's
  \<open>on_close\<close> runs once, and the observer gets one event per guard.
\<close>

theorem close_exactly_once:
  "fold (\<lambda>clk (ss, st). close_session ops clk ss st) clks (close_session ops clk ss st) =
     close_session ops clk ss st \<and>
   gs_guards (snd (close_session ops clk ss st)) =
     (if ss_allowed ss \<or> ss_closed ss then gs_guards st
      else map (on_close ops (ss_context ss)) (gs_guards st)) \<and>
   length (gs_events (snd (close_session ops clk ss st))) = length (gs_events st) +
     (if gs_observer st \<and> \<not> ss_allowed ss \<and> \<not> ss_closed ss then length (gs_guards st) else 0)"
proof -
  let ?r = "close_session ops clk ss st"
  have closed: "ss_closed (fst ?r) \<or> ss_allowed (fst ?r)" using close_session_flags [of ops clk ss st] by auto
  have "fold (\<lambda>clk (ss, st). close_session ops clk ss st) clks p = p"
    if "ss_closed (fst p) \<or> ss_allowed (fst p)" for p :: "guard_session \<times> 'a guard_stack"
    using that by (induction clks) (auto simp: close_session_def split_beta)
  from this [OF closed]
  have "fold (\<lambda>clk (ss, st). close_session ops clk ss st) clks ?r = ?r" .
  moreover have "length (gs_events (snd ?r)) = length (gs_events st) +
     (if gs_observer st \<and> \<not> ss_allowed ss \<and> \<not> ss_closed ss then length (gs_guards st) else 0)"
    using close_loop_events [of ops "gs_observer st" "ss_context ss" clk 0 "gs_guards st" "gs_events st"]
    by (auto simp: close_session_def Let_def split_beta)
  ultimately show ?thesis using close_session_guards [of ops clk ss st] by blast
qed

end
