(* ===== verification/Live_Sessions.thy ===== *)
theory Live_Sessions
  imports Std_Guards
begin

text \<open>
  Many connections over one guard stack: what the guards count at any moment, however the
  reservations, the calls and the ends of the live sessions are interleaved
  (src/src/guard/stack.rs with the guards of src/src/guard). The calls themselves are atomic here, one
  session's call after another's.
\<close>

section \<open>A contract for guards that are shared\<close>

text \<open>The live connections a guard knows of, each with whether it is established.\<close>

type_synonym live = "(guard_context \<times> bool) multiset"

abbreviation live_peer :: "guard_context \<times> bool \<Rightarrow> socket_addr" where
  "live_peer p \<equiv> gc_peer_addr (fst p)"

definition peers :: "live \<Rightarrow> socket_addr set" where
  "peers M = live_peer ` set_mset M"

lemma peers_simps [simp]:
  "peers {#} = {}"
  "peers (add_mset p M) = insert (live_peer p) (peers M)"
  by (simp_all add: peers_def)

lemma peers_mono: "A \<subseteq># B \<Longrightarrow> peers A \<subseteq> peers B"
  by (auto simp: peers_def dest: mset_subset_eqD)

definition distinct_peers :: "live \<Rightarrow> bool" where
  "distinct_peers M \<longleftrightarrow> (\<forall>a. count (image_mset live_peer M) a \<le> 1)"

lemma peers_count: "a \<notin> peers M \<longleftrightarrow> count (image_mset live_peer M) a = 0"
  by (auto simp: peers_def count_eq_zero_iff)

lemma distinct_peers_simps [simp]:
  "distinct_peers {#}"
  "distinct_peers (add_mset p M) \<longleftrightarrow> live_peer p \<notin> peers M \<and> distinct_peers M"
proof -
  show "distinct_peers (add_mset p M) \<longleftrightarrow> live_peer p \<notin> peers M \<and> distinct_peers M"
    unfolding distinct_peers_def peers_count by (auto simp: le_Suc_eq)
qed (simp add: distinct_peers_def)

text \<open>The sessions that the guards see: those of the allowlist are never shown to them.\<close>

definition served :: "guard_session multiset \<Rightarrow> guard_session multiset" where
  "served L = filter_mset (\<lambda>ss. \<not> ss_allowed ss) L"

definition live :: "guard_session multiset \<Rightarrow> live" where
  "live L = image_mset (\<lambda>ss. (ss_context ss, ss_established ss)) (served L)"

lemma live_simps [simp]:
  "live {#} = {#}"
  "live (add_mset ss L) = (if ss_allowed ss then live L else add_mset (ss_context ss, ss_established ss) (live L))"
  by (simp_all add: live_def served_def)

text \<open>
  \<open>holds u M g\<close>: guard \<open>g\<close> accounts for exactly the connections of \<open>M\<close>; \<open>u\<close> says that no two of
  them have the same peer address, which some guards rely on.
\<close>

locale shared_guards =
  fixes ops :: "'g guard_ops"
    and holds :: "bool \<Rightarrow> live \<Rightarrow> 'g \<Rightarrow> bool"
  assumes reserve_holds: "holds u M g \<Longrightarrow> context_ok ctx \<Longrightarrow> (u \<Longrightarrow> gc_peer_addr ctx \<notin> peers M) \<Longrightarrow>
      on_reserve ops t ctx g = (r, g') \<Longrightarrow>
      (\<forall>msg. r \<noteq> Panic msg) \<and> holds u (if is_ok r then add_mset (ctx, False) M else M) g'"
    and established_holds: "holds u (add_mset (ctx, False) M) g \<Longrightarrow> context_ok ctx \<Longrightarrow>
      (u \<Longrightarrow> gc_peer_addr ctx \<notin> peers M) \<Longrightarrow> on_established ops t ctx g = (r, g') \<Longrightarrow>
      is_ok r \<and> holds u (add_mset (ctx, True) M) g'"
    and activity_holds: "holds u (add_mset (ctx, e) M) g \<Longrightarrow> on_activity ops t ctx g = (r, g') \<Longrightarrow>
      holds u (add_mset (ctx, e) M) g'"
    and payload_holds: "holds u (add_mset (ctx, e) M) g \<Longrightarrow> on_payload ops payload t ctx g = (r, g') \<Longrightarrow>
      holds u (add_mset (ctx, e) M) g'"
    and close_holds: "holds u (add_mset (ctx, e) M) g \<Longrightarrow> context_ok ctx \<Longrightarrow>
      (u \<Longrightarrow> gc_peer_addr ctx \<notin> peers M) \<Longrightarrow> holds u M (on_close ops ctx g)"
begin

definition stack_holds :: "bool \<Rightarrow> live \<Rightarrow> 'g guard_stack \<Rightarrow> bool" where
  "stack_holds u M st \<longleftrightarrow> list_all (holds u M) (gs_guards st)"

lemma reserve_loop_holds:
  assumes "context_ok ctx" "u \<Longrightarrow> gc_peer_addr ctx \<notin> peers M"
    and "list_all (holds u (add_mset (ctx, False) M)) accepted" "list_all (holds u M) todo"
    and "reserve_loop ops obs ctx clk i accepted todo events = (r, gs, events')"
  shows "(\<forall>msg. r \<noteq> Panic msg) \<and> list_all (holds u (if is_ok r then add_mset (ctx, False) M else M)) gs"
  using assms(3-)
proof (induction todo arbitrary: i accepted events)
  case Nil
  then show ?case by (auto simp: is_ok_def)
next
  case (Cons g todo)
  obtain r1 g1 where step: "on_reserve ops (clk (2 * i)) ctx g = (r1, g1)" by fastforce
  from Cons.prems(2) have "holds u M g" by simp
  from reserve_holds [OF this assms(1,2) step]
  have g1: "\<forall>msg. r1 \<noteq> Panic msg" "holds u (if is_ok r1 then add_mset (ctx, False) M else M) g1" by auto
  have undone: "list_all (holds u M) (map (on_close ops ctx) accepted)"
    using Cons.prems(1) close_holds [OF _ assms(1,2)] by (auto simp: list_all_iff)
  show ?case
  proof (cases r1)
    case (Ok x)
    with g1 have "list_all (holds u (add_mset (ctx, False) M)) (g1 # accepted)"
      using Cons.prems(1) by (simp add: is_ok_def)
    from Cons.IH [OF this] show ?thesis using Cons.prems step Ok by simp
  next
    case (Err e)
    then show ?thesis
      using Cons.prems(2,3) step g1 undone by (auto simp: Let_def is_ok_def list_all_iff)
  qed (use g1 in simp)
qed

lemma gs_reserve_holds:
  assumes "context_ok ctx" "u \<Longrightarrow> gc_peer_addr ctx \<notin> peers M" "stack_holds u M st"
    and "gs_reserve ops clk ctx st = (r, st')"
  shows "(\<forall>msg. r \<noteq> Panic msg) \<and> (\<forall>e. r = Err e \<longrightarrow> stack_holds u M st') \<and>
    (\<forall>ss. r = Ok ss \<longrightarrow> ss_context ss = ctx \<and> \<not> ss_closed ss \<and> \<not> ss_established ss \<and>
       stack_holds u (if ss_allowed ss then M else add_mset (ctx, False) M) st')"
proof -
  obtain r1 gs events where loop:
    "reserve_loop ops (gs_observer st) ctx clk 0 [] (gs_guards st) (gs_events st) = (r1, gs, events)"
    using prod_cases3 by blast
  from reserve_loop_holds [OF assms(1,2) _ _ loop] assms(3)
  have "(\<forall>msg. r1 \<noteq> Panic msg) \<and> list_all (holds u (if is_ok r1 then add_mset (ctx, False) M else M)) gs"
    by (simp add: stack_holds_def)
  then show ?thesis
    using assms(3,4) loop
    by (cases r1) (auto simp: gs_reserve_def stack_holds_def is_ok_def split: if_splits)
qed

lemma visit_all_ok:
  assumes "\<And>i g. P g \<Longrightarrow> is_ok (fst (call i g)) \<and> Q (snd (call i g))" "list_all P gs"
  shows "is_ok (fst (visit_guards call event obs i gs events)) \<and>
    list_all Q (fst (snd (visit_guards call event obs i gs events)))"
  using assms(2)
proof (induction gs arbitrary: i events)
  case Nil
  then show ?case by (simp add: is_ok_def)
next
  case (Cons g gs)
  then show ?case using assms(1) [of g i] Cons.IH [of "Suc i"]
    by (cases "call i g"; cases "fst (call i g)") (auto simp: split_beta is_ok_def)
qed

lemma visit_established_holds:
  assumes "list_all (holds u (add_mset (ctx, False) M)) (gs_guards st)" "context_ok ctx"
    and "u \<Longrightarrow> gc_peer_addr ctx \<notin> peers M"
  shows "list_all (holds u (add_mset (ctx, True) M)) (gs_guards (snd (visit_stack
      (\<lambda>i g. on_established ops (clk (2 * i)) ctx g) event st)))"
proof -
  have ok: "is_ok (fst (on_established ops t ctx g)) \<and> holds u (add_mset (ctx, True) M) (snd (on_established ops t ctx g))"
    if "holds u (add_mset (ctx, False) M) g" for t g
    using established_holds [OF that assms(2,3)] by (cases "on_established ops t ctx g") auto
  show ?thesis
    using visit_all_ok [where P = "holds u (add_mset (ctx, False) M)" and
        Q = "holds u (add_mset (ctx, True) M)" and call = "\<lambda>i g. on_established ops (clk (2 * i)) ctx g",
        OF ok assms(1)]
    by (simp add: visit_stack_def split_beta)
qed

lemma visit_stack_all:
  assumes "\<And>i g. P g \<Longrightarrow> P (snd (call i g))" "list_all P (gs_guards st)"
  shows "list_all P (gs_guards (snd (visit_stack call event st)))"
  using visit_guards_all [of P call "gs_guards st", OF assms] by (simp add: visit_stack_def split_beta)

lemma activity_call_holds:
  assumes "holds u (add_mset (ctx, e) M) g"
  shows "holds u (add_mset (ctx, e) M) (snd (on_activity ops t ctx g))"
  using activity_holds [OF assms] by (cases "on_activity ops t ctx g") auto

lemma payload_call_holds:
  assumes "holds u (add_mset (ctx, e) M) g"
  shows "holds u (add_mset (ctx, e) M) (snd (payload_call ops ctx payload t g))"
proof -
  obtain r g' where a: "on_activity ops t ctx g = (r, g')" by fastforce
  have g': "holds u (add_mset (ctx, e) M) g'" by (rule activity_holds [OF assms a])
  obtain r2 g2 where p: "on_payload ops payload t ctx g' = (r2, g2)" by fastforce
  have "holds u (add_mset (ctx, e) M) g2" by (rule payload_holds [OF g' p])
  then show ?thesis using a p g' by (simp add: payload_call_def split: outcome.splits)
qed

text \<open>The stack accounts for exactly the live sessions \<open>L\<close>.\<close>

definition accounted :: "bool \<Rightarrow> guard_session multiset \<Rightarrow> 'g guard_stack \<Rightarrow> bool" where
  "accounted u L st \<longleftrightarrow> stack_holds u (live L) st \<and> (u \<longrightarrow> distinct_peers (live L)) \<and>
     (\<forall>ss \<in># L. context_ok (ss_context ss) \<and> \<not> ss_closed ss)"

lemma accounted_reserve:
  assumes "accounted u L st" "context_ok ctx" "u \<Longrightarrow> gc_peer_addr ctx \<notin> peers (live L)"
    and "gs_reserve ops clk ctx st = (r, st')"
  shows "(\<forall>msg. r \<noteq> Panic msg) \<and> (\<forall>e. r = Err e \<longrightarrow> accounted u L st') \<and>
    (\<forall>ss. r = Ok ss \<longrightarrow> accounted u (add_mset ss L) st')"
proof -
  have st: "stack_holds u (live L) st" using assms(1) by (simp add: accounted_def)
  note r = gs_reserve_holds [OF assms(2,3) st assms(4)]
  show ?thesis
  proof (cases r)
    case (Ok ss)
    with r have ss: "ss_context ss = ctx" "\<not> ss_closed ss" "\<not> ss_established ss"
      "stack_holds u (if ss_allowed ss then live L else add_mset (ctx, False) (live L)) st'" by simp_all
    then have "accounted u (add_mset ss L) st'"
      using assms(1,2,3) by (cases "ss_allowed ss") (simp_all add: accounted_def)
    then show ?thesis using Ok by simp
  next
    case (Err e)
    then show ?thesis using r assms(1) by (simp add: accounted_def)
  next
    case (Panic msg)
    then show ?thesis using r by simp
  qed
qed

lemma accounted_close:
  assumes "accounted u (add_mset ss L) st"
  shows "accounted u L (drop_session ops clk ss st)"
proof (cases "ss_allowed ss")
  case True
  then show ?thesis using assms by (auto simp: accounted_def drop_session_def close_session_def)
next
  case False
  then have "list_all (holds u (add_mset (ss_context ss, ss_established ss) (live L))) (gs_guards st)"
    and ss: "context_ok (ss_context ss)" "u \<Longrightarrow> gc_peer_addr (ss_context ss) \<notin> peers (live L)"
    using assms by (auto simp: accounted_def stack_holds_def)
  then have "list_all (holds u (live L)) (map (on_close ops (ss_context ss)) (gs_guards st))"
    using close_holds [OF _ ss] by (auto simp: list_all_iff)
  then show ?thesis
    using assms False by (auto simp: accounted_def stack_holds_def drop_session_def close_session_guards)
qed

lemma accounted_step:
  assumes "accounted u (add_mset ss L) st" "session_step ops c (ss, st) = (ss', st')"
  shows "accounted u (add_mset ss' L) st'"
proof (cases "ss_allowed ss")
  case True
  then show ?thesis using assms
    by (cases c) (auto simp: mark_established_def record_payload_def touch_def)
next
  case False
  let ?M = "add_mset (ss_context ss, ss_established ss) (live L)"
  have h: "list_all (holds u ?M) (gs_guards st)"
    and ss: "context_ok (ss_context ss)" "u \<Longrightarrow> gc_peer_addr (ss_context ss) \<notin> peers (live L)"
    using assms False by (auto simp: accounted_def stack_holds_def)
  show ?thesis
  proof (cases c)
    case (MarkEstablished clk)
    show ?thesis
    proof (cases "ss_established ss")
      case True
      then show ?thesis using assms MarkEstablished False by (auto simp: mark_established_def)
    next
      case unestablished: False
      have "list_all (holds u (add_mset (ss_context ss, True) (live L))) (gs_guards (snd (visit_stack
          (\<lambda>i g. on_established ops (clk (2 * i)) (ss_context ss) g) event st)))" for event
        by (rule visit_established_holds) (use h ss unestablished in auto)
      moreover obtain event where "ss' = ss\<lparr>ss_established := True\<rparr>" "st' = snd (visit_stack
          (\<lambda>i g. on_established ops (clk (2 * i)) (ss_context ss) g) event st)"
        using assms(2) MarkEstablished False unestablished by (auto simp: mark_established_def split_beta)
      ultimately show ?thesis
        using assms(1) False unestablished by (simp add: accounted_def stack_holds_def)
    qed
  next
    case (RecordPayload clk payload)
    have "list_all (holds u ?M) (gs_guards (snd (visit_stack
        (\<lambda>i g. payload_call ops (ss_context ss) payload (clk (2 * i)) g) event st)))" for event
      by (rule visit_stack_all) (use payload_call_holds h in auto)
    moreover obtain event where "ss' = ss" "st' = snd (visit_stack
        (\<lambda>i g. payload_call ops (ss_context ss) payload (clk (2 * i)) g) event st)"
      using assms(2) RecordPayload False by (auto simp: record_payload_def)
    ultimately show ?thesis using assms(1) False by (simp add: accounted_def stack_holds_def)
  next
    case (Touch clk)
    have "list_all (holds u ?M) (gs_guards (snd (visit_stack
        (\<lambda>i g. on_activity ops (clk (2 * i)) (ss_context ss) g) event st)))" for event
      by (rule visit_stack_all) (use activity_call_holds h in auto)
    moreover obtain event where "ss' = ss" "st' = snd (visit_stack
        (\<lambda>i g. on_activity ops (clk (2 * i)) (ss_context ss) g) event st)"
      using assms(2) Touch False by (auto simp: touch_def)
    ultimately show ?thesis using assms(1) False by (simp add: accounted_def stack_holds_def)
  qed
qed

end

section \<open>The six guards keep the contract\<close>

definition slots :: "live \<Rightarrow> ip_addr multiset" where
  "slots M = image_mset (\<lambda>p. gc_peer_ip (fst p)) M"

definition waiting :: "live \<Rightarrow> socket_addr set" where
  "waiting M = live_peer ` {p \<in> set_mset M. \<not> snd p}"

definition settled :: "live \<Rightarrow> socket_addr set" where
  "settled M = live_peer ` {p \<in> set_mset M. snd p}"

lemma waiting_settled_simps [simp]:
  "waiting {#} = {}" "settled {#} = {}"
  "waiting (add_mset (ctx, e) M) = (if e then waiting M else insert (gc_peer_addr ctx) (waiting M))"
  "settled (add_mset (ctx, e) M) = (if e then insert (gc_peer_addr ctx) (settled M) else settled M)"
proof -
  have "{p \<in> set_mset (add_mset (ctx, e) M). \<not> snd p} =
      (if e then {p \<in> set_mset M. \<not> snd p} else insert (ctx, e) {p \<in> set_mset M. \<not> snd p})"
    and "{p \<in> set_mset (add_mset (ctx, e) M). snd p} =
      (if e then insert (ctx, e) {p \<in> set_mset M. snd p} else {p \<in> set_mset M. snd p})" by auto
  then show "waiting (add_mset (ctx, e) M) = (if e then waiting M else insert (gc_peer_addr ctx) (waiting M))"
    "settled (add_mset (ctx, e) M) = (if e then insert (gc_peer_addr ctx) (settled M) else settled M)"
    unfolding waiting_def settled_def by simp_all
qed (simp_all add: waiting_def settled_def)

lemma waiting_settled: "waiting M \<union> settled M = peers M"
  unfolding waiting_def settled_def peers_def image_Un [symmetric] by (rule arg_cong [of _ _ "image _"]) auto

lemma not_peers_not_waiting: "a \<notin> peers M \<Longrightarrow> a \<notin> waiting M \<and> a \<notin> settled M"
  by (metis UnCI waiting_settled)

definition tracked :: "bounded_activity_map \<Rightarrow> socket_addr set" where
  "tracked m = {a. bam_get a m \<noteq> None}"

text \<open>The throttle and the SYN guard have seen a history that leaves these connections.\<close>

fun std_holds :: "guard_stack_config \<Rightarrow> bool \<Rightarrow> live \<Rightarrow> std_guard \<Rightarrow> bool" where
  "std_holds cfg u M (RateLimiterG g) = rl_ok g"
| "std_holds cfg u M (ThrottleG t) =
     (\<exists>tc. gsc_throttle cfg = Some tc \<and> th_history tc t (slots M))"
| "std_holds cfg u M (SynGuardG g) =
     (gsc_syn_guard cfg = Some (sg_config g) \<and>
      (u \<longrightarrow> ho_history (sg_config g) (sg_state g) (waiting M) (settled M)))"
| "std_holds cfg u M (SlowLorisG g) =
     (tracked (sl_activity g) \<subseteq> peers M)"
| "std_holds cfg u M g = True"

lemma evict_live_loop_lookup:
  "fmlookup (bam_map (evict_live_loop xs m)) a = Some e \<Longrightarrow> fmlookup (bam_map m) a = Some e"
  by (induction xs m rule: evict_live_loop.induct) (auto split: if_splits)

lemma bam_note_tracked: "tracked (bam_note now addr m) \<subseteq> insert addr (tracked m)"
  by (auto simp: tracked_def bam_get_def bam_note_def Let_def compact_order_def evict_oldest_live_def
      dest!: evict_live_loop_lookup split: if_splits)

lemma bam_remove_tracked: "tracked (bam_remove addr m) \<subseteq> tracked m - {addr}"
  by (auto simp: tracked_def bam_get_def bam_remove_def Let_def compact_order_def split: if_splits)

lemma note_tracked_within: "tracked m \<subseteq> insert addr A \<Longrightarrow> tracked (bam_note now addr m) \<subseteq> insert addr A"
  using bam_note_tracked [of now addr m] by auto

lemma std_reserve_holds:
  assumes "std_holds cfg u M g" "context_ok ctx" "u \<Longrightarrow> gc_peer_addr ctx \<notin> peers M"
    and "std_on_reserve t ctx g = (r, g')"
  shows "std_holds cfg u (if is_ok r then add_mset (ctx, False) M else M) g'"
proof (cases g)
  case (RateLimiterG rl)
  then show ?thesis using assms rl_allow_ok by (auto simp: std_hooks map_prod_def split: prod.splits)
next
  case (ThrottleG th)
  then obtain tc th' where h: "gsc_throttle cfg = Some tc" "th_history tc th (slots M)"
      "th_acquire (gc_peer_ip ctx) th = (r, th')" "g' = ThrottleG th'"
    using assms(1,4) by (auto simp: std_hooks map_prod_def split: prod.splits)
  show ?thesis
  proof (cases r)
    case (Ok x)
    then show ?thesis using h th_history.grant [OF h(2), of "gc_peer_ip ctx" th'] by (simp add: is_ok_def slots_def)
  next
    case (Err e)
    then show ?thesis using h th_history.refuse [OF h(2), of "gc_peer_ip ctx" e th'] by (simp add: is_ok_def)
  next
    case (Panic msg)
    then show ?thesis using h(3) th_acquire_no_panic [of "gc_peer_ip ctx" th msg] by simp
  qed
next
  case (SynGuardG sg)
  then obtain s' where s': "ho_reserve (sg_config sg) t (sa_ip (gc_peer_addr ctx)) (sg_state sg) = (r, s')"
      "g' = SynGuardG (sg\<lparr>sg_state := s'\<rparr>)"
    using assms(2,4) by (auto simp: std_hooks map_prod_def split: prod.splits)
  show ?thesis
  proof (cases r)
    case (Ok x)
    then show ?thesis
      using SynGuardG s' assms(1,3)
        ho_history.reserve [of "sg_config sg" "sg_state sg" "waiting M" "settled M" "gc_peer_addr ctx" t s']
      by (auto simp: is_ok_def waiting_settled)
  next
    case (Err e)
    then show ?thesis
      using SynGuardG s' assms(1) ho_history.refuse [of "sg_config sg" "sg_state sg" "waiting M" "settled M"]
      by (auto simp: is_ok_def)
  next
    case (Panic msg)
    then show ?thesis using s' ho_reserve_no_panic [of "sg_config sg" t "sa_ip (gc_peer_addr ctx)" "sg_state sg" msg] by simp
  qed
next
  case (SlowLorisG sl)
  then have "tracked (sl_activity sl) \<subseteq> insert (gc_peer_addr ctx) (peers M)" using assms(1) by auto
  from note_tracked_within [OF this] show ?thesis using assms SlowLorisG
    by (auto simp: std_hooks is_ok_def sl_note_def)
qed (use assms in \<open>auto simp: std_hooks split: if_splits\<close>)


lemma std_established_holds:
  assumes "std_holds cfg u (add_mset (ctx, False) M) g" "u \<Longrightarrow> gc_peer_addr ctx \<notin> peers M"
  shows "is_ok (fst (std_on_established t ctx g)) \<and>
    std_holds cfg u (add_mset (ctx, True) M) (snd (std_on_established t ctx g))"
proof (cases g)
  case (SynGuardG sg)
  have "ho_history (sg_config sg) (ho_establish (sg_config sg) (gc_peer_addr ctx) (sg_state sg)) (waiting M)
      (insert (gc_peer_addr ctx) (settled M))" if u
    using that assms(1) SynGuardG not_peers_not_waiting [OF assms(2) [OF that]]
      ho_history.establish [of "sg_config sg" "sg_state sg" "insert (gc_peer_addr ctx) (waiting M)" "settled M" "gc_peer_addr ctx"]
    by simp
  then show ?thesis using assms(1) SynGuardG by (auto simp: std_hooks is_ok_def)
qed (use assms(1) in \<open>auto simp: std_hooks is_ok_def slots_def\<close>)

lemma std_activity_holds:
  assumes "std_holds cfg u (add_mset (ctx, e) M) g"
  shows "std_holds cfg u (add_mset (ctx, e) M) (snd (std_on_activity t ctx g))"
proof (cases g)
  case (SlowLorisG sl)
  then show ?thesis using assms
    by (auto simp: sl_on_activity_def sl_note_def note_tracked_within split: outcome.splits)
qed (use assms in \<open>auto simp: std_hooks\<close>)

lemma std_payload_holds:
  assumes "std_holds cfg u (add_mset (ctx, e) M) g"
  shows "std_holds cfg u (add_mset (ctx, e) M) (snd (std_on_payload payload t ctx g))"
proof (cases g)
  case (SlowLorisG sl)
  then show ?thesis using assms
    by (simp add: sl_on_payload_def sl_note_def note_tracked_within)
qed (use assms in \<open>auto simp: std_hooks\<close>)

lemma std_close_holds:
  assumes "std_holds cfg u (add_mset (ctx, e) M) g" "u \<Longrightarrow> gc_peer_addr ctx \<notin> peers M"
  shows "std_holds cfg u M (std_on_close ctx g)"
proof (cases g)
  case (ThrottleG th)
  then obtain tc where "gsc_throttle cfg = Some tc" "th_history tc th (add_mset (gc_peer_ip ctx) (slots M))"
    using assms(1) by (auto simp: slots_def)
  then show ?thesis using ThrottleG th_history.give_back [of tc th _ "gc_peer_ip ctx"]
    by (fastforce simp: std_hooks)
next
  case (SynGuardG sg)
  have "ho_history (sg_config sg) (ho_close (sg_config sg) (gc_peer_addr ctx) (sg_state sg)) (waiting M) (settled M)" if u
    using that assms(1) SynGuardG not_peers_not_waiting [OF assms(2) [OF that]]
      ho_history.close [of "sg_config sg" "sg_state sg" "waiting (add_mset (ctx, e) M)" "settled (add_mset (ctx, e) M)" "gc_peer_addr ctx"]
    by (cases e) simp_all
  then show ?thesis using assms(1) SynGuardG by (auto simp: std_hooks)
next
  case (SlowLorisG sl)
  then show ?thesis using assms(1) bam_remove_tracked [of "gc_peer_addr ctx" "sl_activity sl"]
    by (auto simp: std_hooks)
qed (use assms in \<open>auto simp: std_hooks\<close>)

lemma std_holds_inv: "std_holds cfg u M g \<Longrightarrow> std_inv g"
  by (cases g) auto

interpretation shared: shared_guards std_ops "std_holds cfg" for cfg
proof unfold_locales
  fix u ctx t r and g g' :: std_guard and M e payload
  show "std_holds cfg u M g \<Longrightarrow> context_ok ctx \<Longrightarrow> (u \<Longrightarrow> gc_peer_addr ctx \<notin> peers M) \<Longrightarrow>
      on_reserve std_ops t ctx g = (r, g') \<Longrightarrow>
      (\<forall>msg. r \<noteq> Panic msg) \<and> std_holds cfg u (if is_ok r then add_mset (ctx, False) M else M) g'"
    using std_reserve_holds std_reserve_returns [OF std_holds_inv, of cfg u M g t ctx] by auto
  show "std_holds cfg u (add_mset (ctx, False) M) g \<Longrightarrow> context_ok ctx \<Longrightarrow> (u \<Longrightarrow> gc_peer_addr ctx \<notin> peers M) \<Longrightarrow>
      on_established std_ops t ctx g = (r, g') \<Longrightarrow> is_ok r \<and> std_holds cfg u (add_mset (ctx, True) M) g'"
    using std_established_holds [of cfg u ctx M g t] by simp
  show "std_holds cfg u (add_mset (ctx, e) M) g \<Longrightarrow> on_activity std_ops t ctx g = (r, g') \<Longrightarrow>
      std_holds cfg u (add_mset (ctx, e) M) g'"
    using std_activity_holds [of cfg u ctx e M g t] by simp
  show "std_holds cfg u (add_mset (ctx, e) M) g \<Longrightarrow> on_payload std_ops payload t ctx g = (r, g') \<Longrightarrow>
      std_holds cfg u (add_mset (ctx, e) M) g'"
    using std_payload_holds [of cfg u ctx e M g payload t] by simp
  show "std_holds cfg u (add_mset (ctx, e) M) g \<Longrightarrow> context_ok ctx \<Longrightarrow> (u \<Longrightarrow> gc_peer_addr ctx \<notin> peers M) \<Longrightarrow>
      std_holds cfg u M (on_close std_ops ctx g)"
    using std_close_holds [of cfg u ctx e M g] by simp
qed


section \<open>Every interleaving\<close>

text \<open>
  The states of a stack that a configuration built, with the live sessions: reservations, granted or
  refused, calls and ends of the sessions in any order, and the allowlist and the ban list changing
  meanwhile. With \<open>u\<close> no connection is reserved while another from the same peer address lives.
\<close>

inductive stack_runs :: "bool \<Rightarrow> guard_stack_config \<Rightarrow> std_guard guard_stack \<Rightarrow> guard_session multiset \<Rightarrow> bool"
  for u :: bool and cfg :: guard_stack_config where
  built: "stack_runs u cfg (build_guard_stack now cfg) {#}"
| reserved: "stack_runs u cfg st L \<Longrightarrow> context_ok ctx \<Longrightarrow> (u \<longrightarrow> gc_peer_addr ctx \<notin> peers (live L)) \<Longrightarrow>
    gs_reserve std_ops clk ctx st = (Ok ss, st') \<Longrightarrow> stack_runs u cfg st' (add_mset ss L)"
| refused: "stack_runs u cfg st L \<Longrightarrow> context_ok ctx \<Longrightarrow> (u \<longrightarrow> gc_peer_addr ctx \<notin> peers (live L)) \<Longrightarrow>
    gs_reserve std_ops clk ctx st = (Err e, st') \<Longrightarrow> stack_runs u cfg st' L"
| called: "stack_runs u cfg st (add_mset ss L) \<Longrightarrow> session_step std_ops c (ss, st) = (ss', st') \<Longrightarrow>
    stack_runs u cfg st' (add_mset ss' L)"
| ended: "stack_runs u cfg st (add_mset ss L) \<Longrightarrow> stack_runs u cfg (drop_session std_ops clk ss st) L"
| relisted: "stack_runs u cfg st L \<Longrightarrow> stack_runs u cfg (st\<lparr>gs_allowlist := ips\<rparr>) L"
| rebanned: "stack_runs u cfg st L \<Longrightarrow> gs_guards st = pre @ IpBanG g # post \<Longrightarrow>
    stack_runs u cfg (st\<lparr>gs_guards := pre @ IpBanG (ban_call b g) # post\<rparr>) L"

lemma built_holds: "list_all (std_holds cfg u {#}) (gs_guards (build_guard_stack now cfg))"
  by (simp add: build_guard_stack_def Let_def pushed_list slots_def tracked_def
      rl_new_ok sg_new_def sl_new_def bam_new_def bam_get_def th_history.start ho_history.start)

lemma stack_runs_accounted: "stack_runs u cfg st L \<Longrightarrow> shared.accounted cfg u L st"
proof (induction rule: stack_runs.induct)
  case (built now)
  show ?case by (simp add: shared.accounted_def shared.stack_holds_def built_holds)
next
  case (reserved st L ctx clk ss st')
  then show ?case using shared.accounted_reserve [OF reserved.IH reserved.hyps(2) _ reserved.hyps(4)] by simp
next
  case (refused st L ctx clk e st')
  then show ?case using shared.accounted_reserve [OF refused.IH refused.hyps(2) _ refused.hyps(4)] by simp
next
  case (called st ss L c ss' st')
  then show ?case by (blast intro: shared.accounted_step)
next
  case (ended st ss L clk)
  then show ?case by (blast intro: shared.accounted_close)
next
  case (relisted st L ips)
  then show ?case by (simp add: shared.accounted_def shared.stack_holds_def)
next
  case (rebanned st L pre g post b)
  then show ?case by (simp add: shared.accounted_def shared.stack_holds_def)
qed

text \<open>Counting the sessions that the guards see.\<close>

definition sessions :: "(guard_session \<Rightarrow> bool) \<Rightarrow> guard_session multiset \<Rightarrow> nat" where
  "sessions P L = size (filter_mset P (served L))"

lemma size_slots: "size (slots (live L)) = sessions (\<lambda>_. True) L"
  by (simp add: slots_def live_def sessions_def)

lemma count_slots: "count (slots (live L)) ip = sessions (\<lambda>ss. gc_peer_ip (ss_context ss) = ip) L"
  by (induction L) (simp_all add: slots_def sessions_def served_def)

lemma card_waiting:
  "distinct_peers (live L) \<Longrightarrow> card (waiting (live L)) = sessions (\<lambda>ss. \<not> ss_established ss) L"
proof (induction L)
  case (add ss L)
  have "finite (waiting (live L))" by (simp add: waiting_def)
  then show ?case
    using add not_peers_not_waiting [of "gc_peer_addr (ss_context ss)" "live L"]
    by (auto simp: sessions_def served_def)
qed (simp add: sessions_def served_def)

lemma settled_live:
  "a \<in> settled (live L) \<longleftrightarrow> (\<exists>ss. ss \<in># served L \<and> ss_established ss \<and> gc_peer_addr (ss_context ss) = a)"
  by (auto simp: settled_def live_def image_iff)

lemma peers_live: "a \<in> peers (live L) \<longleftrightarrow> (\<exists>ss. ss \<in># served L \<and> gc_peer_addr (ss_context ss) = a)"
  by (auto simp: peers_def live_def image_iff)

lemma runs_guard: "stack_runs u cfg st L \<Longrightarrow> g \<in> set (gs_guards st) \<Longrightarrow> std_holds cfg u (live L) g"
  using stack_runs_accounted [of u cfg st L]
  by (auto simp: shared.accounted_def shared.stack_holds_def list_all_iff)

text \<open>
  C3. The guards of one stack account for exactly the connections that are alive, however the
  reservations, the calls and the ends of the sessions interleave and the allowlist and the ban list
  change meanwhile, allowlisted connections not counting: the throttle counts every live connection,
  in total and by address, and never more than its limits; when live connections have distinct peer
  addresses and its table is large enough, the SYN guard counts those that are not established, and
  knows as established exactly those that are; and the slow-client guard tracks only live
  connections.
\<close>

theorem live_sessions_accounted:
  assumes "stack_runs u cfg st L"
  shows "(ThrottleG t \<in> set (gs_guards st) \<and> gsc_throttle cfg = Some tc \<and> max_connections_global tc < usize_max \<longrightarrow>
      unat (th_global t) = sessions (\<lambda>_. True) L \<and> sessions (\<lambda>_. True) L \<le> max_connections_global tc \<and>
      count_of (th_per_ip t) ip = sessions (\<lambda>ss. gc_peer_ip (ss_context ss) = ip) L \<and>
      sessions (\<lambda>ss. gc_peer_ip (ss_context ss) = ip) L \<le> max_connections_per_ip tc) \<and>
    (SynGuardG s \<in> set (gs_guards st) \<and> u \<and> gsc_syn_guard cfg = Some sc \<and>
     sg_max_half_open_global sc \<le> sg_max_tracked_ips sc \<and> sg_max_tracked_ips sc \<le> usize_max \<longrightarrow>
      ho_total (sg_state s) = sessions (\<lambda>ss. \<not> ss_established ss) L \<and>
      (a \<in> ho_established (sg_state s) \<longleftrightarrow>
         (\<exists>ss. ss \<in># served L \<and> ss_established ss \<and> gc_peer_addr (ss_context ss) = a))) \<and>
    (SlowLorisG l \<in> set (gs_guards st) \<and> bam_get a (sl_activity l) \<noteq> None \<longrightarrow>
      (\<exists>ss. ss \<in># served L \<and> gc_peer_addr (ss_context ss) = a))"
proof (intro conjI impI)
  assume "ThrottleG t \<in> set (gs_guards st) \<and> gsc_throttle cfg = Some tc \<and> max_connections_global tc < usize_max"
  then have "th_history tc t (slots (live L))" "max_connections_global tc < usize_max"
    using runs_guard [OF assms, of "ThrottleG t"] by auto
  note counts = th_history_counts(1,3) [OF this] th_history_counts(2,4) [OF this, where ip = ip]
  show "unat (th_global t) = sessions (\<lambda>_. True) L" "sessions (\<lambda>_. True) L \<le> max_connections_global tc"
    "count_of (th_per_ip t) ip = sessions (\<lambda>ss. gc_peer_ip (ss_context ss) = ip) L"
    "sessions (\<lambda>ss. gc_peer_ip (ss_context ss) = ip) L \<le> max_connections_per_ip tc"
    using counts by (simp_all only: size_slots count_slots)
next
  assume s: "SynGuardG s \<in> set (gs_guards st) \<and> u \<and> gsc_syn_guard cfg = Some sc \<and>
     sg_max_half_open_global sc \<le> sg_max_tracked_ips sc \<and> sg_max_tracked_ips sc \<le> usize_max"
  then have "ho_history sc (sg_state s) (waiting (live L)) (settled (live L))"
    using runs_guard [OF assms, of "SynGuardG s"] by auto
  then have rel: "ho_rel sc (sg_state s) (waiting (live L))" "ho_established (sg_state s) = settled (live L)"
    using s ho_history_rel by blast+
  moreover have "distinct_peers (live L)" using s stack_runs_accounted [OF assms] by (simp add: shared.accounted_def)
  ultimately show "ho_total (sg_state s) = sessions (\<lambda>ss. \<not> ss_established ss) L"
    by (simp add: ho_rel_def card_waiting)
  show "a \<in> ho_established (sg_state s) \<longleftrightarrow>
      (\<exists>ss. ss \<in># served L \<and> ss_established ss \<and> gc_peer_addr (ss_context ss) = a)"
    by (simp add: rel(2) settled_live)
next
  assume "SlowLorisG l \<in> set (gs_guards st) \<and> bam_get a (sl_activity l) \<noteq> None"
  then show "\<exists>ss. ss \<in># served L \<and> gc_peer_addr (ss_context ss) = a"
    using runs_guard [OF assms, of "SlowLorisG l"] by (auto simp: tracked_def subset_iff peers_live)
qed

theorem live_sessions_accounted_witness:
  "\<exists>ss st t. gs_reserve std_ops id (demo_ctx 1) open_stack = (Ok ss, st) \<and> ThrottleG t \<in> set (gs_guards st) \<and>
     unat (th_global t) = 1"
proof -
  let ?cfg = "demo_stack_config\<lparr>gsc_syn_guard := Some syn_guard_config_default\<rparr>"
  obtain ss st where r: "gs_reserve std_ops id (demo_ctx 1) open_stack = (Ok ss, st)" by (rule open_stack_reserves)
  have "stack_runs True ?cfg open_stack {#}" unfolding open_stack_def by (rule stack_runs.built)
  then have runs: "stack_runs True ?cfg st {#ss#}" by (rule stack_runs.reserved) (use r in simp_all)
  have "list_ex (\<lambda>g. case g of ThrottleG t \<Rightarrow> True | _ \<Rightarrow> False)
      (gs_guards (snd (gs_reserve std_ops id (demo_ctx 1) open_stack)))" by code_simp
  then obtain g where "g \<in> set (gs_guards st)" "case g of ThrottleG t \<Rightarrow> True | _ \<Rightarrow> False"
    using r by (auto simp: list_ex_iff)
  then obtain t where t: "ThrottleG t \<in> set (gs_guards st)" by (cases g rule: std_guard.exhaust) auto
  have "gs_allowlist open_stack = {}"
    by (simp add: open_stack_def build_guard_stack_order [where ctx = "demo_ctx 1"])
  then have "\<not> ss_allowed ss"
    using r by (auto simp: gs_reserve_def allow_contains_def Let_def split: prod.splits outcome.splits)
  then have one: "sessions (\<lambda>_. True) {#ss#} = 1" by (simp add: sessions_def served_def)
  have "gsc_throttle ?cfg = Some \<lparr>max_connections_per_ip = 5, max_connections_global = 5\<rparr>"
    by (simp add: demo_stack_config_def)
  then have "unat (th_global t) = sessions (\<lambda>_. True) {#ss#}"
    using live_sessions_accounted [OF runs, of t "\<lparr>max_connections_per_ip = 5, max_connections_global = 5\<rparr>"] t
    by (simp add: usize_max_def)
  then show ?thesis using r t one by metis
qed

end
