(* ===== verification/Stack_Concurrent.thy ===== *)
theory Stack_Concurrent
  imports Live_Sessions
begin

text \<open>
  One guard stack and many threads (src/src/guard/stack.rs): the calls of a session cut into the calls
  they make to the guards, one guard after the other, and every interleaving of these. No lock is held
  between two guards, so that a thread may find the guards at any stage of the calls of the others. A
  call of one guard is taken as a whole, being done under the guard's lock; the two guards that work
  outside of a lock have their own theories, \<open>Throttle_Concurrent\<close> and \<open>Rate_Concurrent\<close>.
\<close>

section \<open>The stages of a connection\<close>

datatype visit = Touching | PayloadActivity "u8 list" | PayloadItself "u8 list"

text \<open>
  \<open>Reserving i\<close>: the guards before the i-th have said yes; \<open>RollingBack i\<close>: these are still to be
  closed, the last one first; \<open>Live e\<close>: in no call, with the flag \<open>established\<close>; \<open>Establishing i\<close>,
  \<open>Visiting e v i\<close> and \<open>Closing e i\<close>: in \<open>mark_established\<close>, \<open>touch\<close> or \<open>record_payload\<close>, and \<open>close\<close>,
  the i-th guard comes next.
\<close>

datatype stage =
    Reserving nat
  | RollingBack nat
  | Live bool
  | Establishing nat
  | Visiting bool visit nat
  | Closing bool nat
  | Gone

fun guard_step :: "'g guard_ops \<Rightarrow> instant \<Rightarrow> guard_context \<Rightarrow> stage \<Rightarrow> 'g list \<Rightarrow> stage \<times> 'g list" where
  "guard_step ops t ctx (Reserving i) gs =
     (if i < length gs then
        (case on_reserve ops t ctx (gs ! i) of
           (Ok _, g) \<Rightarrow> (Reserving (Suc i), gs[i := g])
         | (Err _, g) \<Rightarrow> (RollingBack i, gs[i := g])
         | (Panic _, g) \<Rightarrow> (Gone, gs[i := g]))
      else (Live False, gs))"
| "guard_step ops t ctx (RollingBack 0) gs = (Gone, gs)"
| "guard_step ops t ctx (RollingBack (Suc i)) gs = (RollingBack i, gs[i := on_close ops ctx (gs ! i)])"
| "guard_step ops t ctx (Live e) gs = (Live e, gs)"
| "guard_step ops t ctx (Establishing i) gs =
     (if i < length gs then
        (case on_established ops t ctx (gs ! i) of
           (Ok _, g) \<Rightarrow> (Establishing (Suc i), gs[i := g])
         | (_, g) \<Rightarrow> (Live True, gs[i := g]))
      else (Live True, gs))"
| "guard_step ops t ctx (Visiting e Touching i) gs =
     (if i < length gs then
        (case on_activity ops t ctx (gs ! i) of
           (Ok _, g) \<Rightarrow> (Visiting e Touching (Suc i), gs[i := g])
         | (_, g) \<Rightarrow> (Live e, gs[i := g]))
      else (Live e, gs))"
| "guard_step ops t ctx (Visiting e (PayloadActivity bs) i) gs =
     (if i < length gs then
        (case on_activity ops t ctx (gs ! i) of
           (Ok _, g) \<Rightarrow> (Visiting e (PayloadItself bs) i, gs[i := g])
         | (_, g) \<Rightarrow> (Live e, gs[i := g]))
      else (Live e, gs))"
| "guard_step ops t ctx (Visiting e (PayloadItself bs) i) gs =
     (if i < length gs then
        (case on_payload ops bs t ctx (gs ! i) of
           (Ok _, g) \<Rightarrow> (Visiting e (PayloadActivity bs) (Suc i), gs[i := g])
         | (_, g) \<Rightarrow> (Live e, gs[i := g]))
      else (Live e, gs))"
| "guard_step ops t ctx (Closing e i) gs =
     (if i < length gs then (Closing e (Suc i), gs[i := on_close ops ctx (gs ! i)]) else (Gone, gs))"
| "guard_step ops t ctx Gone gs = (Gone, gs)"

text \<open>The calls a live session can begin. A second \<open>mark_established\<close> does nothing.\<close>

inductive call_begins :: "stage \<Rightarrow> stage \<Rightarrow> bool" where
  mark_established: "call_begins (Live False) (Establishing 0)"
| touch: "call_begins (Live e) (Visiting e Touching 0)"
| record_payload: "call_begins (Live e) (Visiting e (PayloadActivity bs) 0)"
| close: "call_begins (Live e) (Closing e 0)"

section \<open>A call that is not interrupted\<close>

fun run_stage :: "'g guard_ops \<Rightarrow> guard_context \<Rightarrow> instant list \<Rightarrow> stage \<Rightarrow> 'g list \<Rightarrow> stage \<times> 'g list" where
  "run_stage ops ctx [] s gs = (s, gs)"
| "run_stage ops ctx (t # ts) s gs = (let (s, gs) = guard_step ops t ctx s gs in run_stage ops ctx ts s gs)"

lemma run_stage_Cons:
  "guard_step ops t ctx s gs = (s', gs') \<Longrightarrow> \<exists>ts. run_stage ops ctx ts s' gs' = r \<Longrightarrow>
   \<exists>ts. run_stage ops ctx ts s gs = r"
  by (metis case_prod_conv run_stage.simps(2))

lemma run_stage_now: "\<exists>ts. run_stage ops ctx ts s gs = (s, gs)"
  by (rule exI [of _ "[]"]) simp

lemma rollback_steps:
  "i \<le> length gs \<Longrightarrow>
   \<exists>ts. run_stage ops ctx ts (RollingBack i) gs = (Gone, map (on_close ops ctx) (take i gs) @ drop i gs)"
proof (induction i arbitrary: gs)
  case 0
  show ?case by (rule run_stage_Cons [of _ 0, OF _ run_stage_now]) simp
next
  case (Suc i)
  let ?gs = "gs[i := on_close ops ctx (gs ! i)]"
  have "drop i ?gs = on_close ops ctx (gs ! i) # drop (Suc i) gs"
    using Suc.prems by (simp add: Cons_nth_drop_Suc [symmetric])
  then have "map (on_close ops ctx) (take (Suc i) gs) @ drop (Suc i) gs =
      map (on_close ops ctx) (take i ?gs) @ drop i ?gs"
    using Suc.prems by (simp add: take_Suc_conv_app_nth)
  then show ?case
    using Suc.IH [of ?gs] Suc.prems by (intro run_stage_Cons [of _ 0, OF guard_step.simps(3)]) simp
qed

lemma reserve_steps:
  assumes "reserve_loop ops obs ctx clk (length accepted) accepted todo events = (r, gs, events')"
    and "\<forall>msg. r \<noteq> Panic msg"
  shows "\<exists>ts. run_stage ops ctx ts (Reserving (length accepted)) (rev accepted @ todo) =
    (if is_ok r then Live False else Gone, gs)"
  using assms
proof (induction todo arbitrary: accepted events)
  case Nil
  then show ?case by (intro run_stage_Cons [of _ 0, OF _ run_stage_now]) auto
next
  case (Cons g todo)
  let ?i = "length accepted"
  obtain r1 g1 where g1: "on_reserve ops (clk (2 * ?i)) ctx g = (r1, g1)" by fastforce
  have upd: "(rev accepted @ g # todo)[?i := g1] = rev accepted @ g1 # todo"
    "(rev accepted @ g # todo) ! ?i = g" by (simp_all add: list_update_append nth_append)
  show ?case
  proof (cases r1)
    case (Ok x)
    then have "guard_step ops (clk (2 * ?i)) ctx (Reserving ?i) (rev accepted @ g # todo) =
        (Reserving (length (g1 # accepted)), rev (g1 # accepted) @ todo)" using upd g1 by simp
    then show ?thesis
      by (rule run_stage_Cons, intro Cons.IH [OF _ Cons.prems(2)]) (use Cons.prems(1) g1 Ok in simp)
  next
    case (Err e)
    then have "guard_step ops (clk (2 * ?i)) ctx (Reserving ?i) (rev accepted @ g # todo) =
        (RollingBack ?i, rev accepted @ g1 # todo)" using upd g1 by simp
    then show ?thesis
      by (rule run_stage_Cons)
        (use rollback_steps [of ?i "rev accepted @ g1 # todo" ops ctx] Cons.prems g1 Err in
          \<open>auto simp: Let_def rev_map\<close>)
  next
    case (Panic msg)
    then have "r = Panic msg" using Cons.prems(1) g1 by simp
    then show ?thesis using Cons.prems(2) by blast
  qed
qed

lemma close_steps:
  "length pre = i \<Longrightarrow> \<exists>ts. run_stage ops ctx ts (Closing e i) (pre @ gs) = (Gone, pre @ map (on_close ops ctx) gs)"
proof (induction gs arbitrary: pre i)
  case Nil
  then show ?case by (intro run_stage_Cons [of _ 0, OF _ run_stage_now]) simp
next
  case (Cons g gs)
  then have "guard_step ops 0 ctx (Closing e i) (pre @ g # gs) = (Closing e (Suc i), (pre @ [on_close ops ctx g]) @ gs)"
    by (auto simp: list_update_append)
  then show ?case
    by (rule run_stage_Cons) (use Cons.IH [of "pre @ [on_close ops ctx g]" "Suc i"] Cons.prems in simp)
qed

text \<open>The loops of the calls of a live session, as the sequential stack has them.\<close>

lemma run_stage_append:
  "run_stage ops ctx ts s gs = (s', gs') \<Longrightarrow> \<exists>us. run_stage ops ctx us s' gs' = r \<Longrightarrow>
   \<exists>us. run_stage ops ctx us s gs = r"
proof (induction ts arbitrary: s gs)
  case (Cons t ts)
  obtain s1 gs1 where "guard_step ops t ctx s gs = (s1, gs1)" by fastforce
  then show ?case using run_stage_Cons Cons by (metis case_prod_conv run_stage.simps(2))
qed simp

lemma visit_steps:
  assumes visit: "\<And>pre g gs. \<exists>ts. run_stage ops ctx ts (S (length pre)) (pre @ g # gs) =
      (case call (length pre) g of
         (Ok _, g') \<Rightarrow> (S (Suc (length pre)), pre @ g' # gs)
       | (_, g') \<Rightarrow> (final, pre @ g' # gs))"
    and finish: "\<And>pre. \<exists>ts. run_stage ops ctx ts (S (length pre)) pre = (final, pre)"
    and loop: "visit_guards call event obs (length pre) gs events = (r, gs', events')"
  shows "\<exists>ts. run_stage ops ctx ts (S (length pre)) (pre @ gs) = (final, pre @ gs')"
  using loop
proof (induction gs arbitrary: pre events r gs')
  case Nil
  then show ?case using finish [of pre] by simp
next
  case (Cons g gs)
  obtain r1 g1 where g1: "call (length pre) g = (r1, g1)" by fastforce
  obtain ts where ts: "run_stage ops ctx ts (S (length pre)) (pre @ g # gs) =
      (case r1 of Ok _ \<Rightarrow> (S (Suc (length pre)), pre @ g1 # gs) | _ \<Rightarrow> (final, pre @ g1 # gs))"
    using visit [of pre g gs] g1 by auto
  show ?case
  proof (cases r1)
    case (Ok x)
    obtain gs1 where gs1: "gs' = g1 # gs1" "visit_guards call event obs (length (pre @ [g1])) gs
        (emit obs (event (length pre) g1) events) = (r, gs1, events')"
      using Cons.prems g1 Ok by (auto split: prod.splits)
    have "run_stage ops ctx ts (S (length pre)) (pre @ g # gs) = (S (length (pre @ [g1])), (pre @ [g1]) @ gs)"
      using ts Ok by simp
    from run_stage_append [OF this Cons.IH [OF gs1(2)]] show ?thesis by (simp add: gs1(1))
  qed (use ts Cons.prems g1 in auto)
qed

lemma at_length [simp]: "(pre @ g # gs)[length pre := g'] = pre @ g' # gs"
  by (simp add: list_update_append)

lemma mark_established_steps:
  assumes "visit_guards (\<lambda>i g. on_established ops (clk i) ctx g) event obs 0 gs events = (r, gs', events')"
  shows "\<exists>ts. run_stage ops ctx ts (Establishing 0) gs = (Live True, gs')"
proof -
  let ?call = "\<lambda>i g. on_established ops (clk i) ctx g"
  have v: "\<exists>ts. run_stage ops ctx ts (Establishing (length pre)) (pre @ g # gs) =
      (case ?call (length pre) g of
         (Ok _, g') \<Rightarrow> (Establishing (Suc (length pre)), pre @ g' # gs)
       | (_, g') \<Rightarrow> (Live True, pre @ g' # gs))" for pre g gs
    by (rule exI [of _ "[clk (length pre)]"]) (auto simp: payload_call_def split: prod.splits outcome.splits)
  have f: "\<exists>ts. run_stage ops ctx ts (Establishing (length pre)) pre = (Live True, pre)" for pre
    by (rule exI [of _ "[0]"]) simp
  show ?thesis using visit_steps [where pre = "[]" and S = "\<lambda>i. Establishing i" and call = ?call, OF v f] assms by simp
qed

lemma touch_steps:
  assumes "visit_guards (\<lambda>i g. on_activity ops (clk i) ctx g) event obs 0 gs events = (r, gs', events')"
  shows "\<exists>ts. run_stage ops ctx ts (Visiting e Touching 0) gs = (Live e, gs')"
proof -
  let ?call = "\<lambda>i g. on_activity ops (clk i) ctx g"
  have v: "\<exists>ts. run_stage ops ctx ts (Visiting e Touching (length pre)) (pre @ g # gs) =
      (case ?call (length pre) g of
         (Ok _, g') \<Rightarrow> (Visiting e Touching (Suc (length pre)), pre @ g' # gs)
       | (_, g') \<Rightarrow> (Live e, pre @ g' # gs))" for pre g gs
    by (rule exI [of _ "[clk (length pre)]"]) (auto simp: payload_call_def split: prod.splits outcome.splits)
  have f: "\<exists>ts. run_stage ops ctx ts (Visiting e Touching (length pre)) pre = (Live e, pre)" for pre
    by (rule exI [of _ "[0]"]) simp
  show ?thesis using visit_steps [where pre = "[]" and S = "\<lambda>i. Visiting e Touching i" and call = ?call, OF v f] assms by simp
qed

lemma record_payload_steps:
  assumes "visit_guards (\<lambda>i g. payload_call ops ctx bs (clk i) g) event obs 0 gs events = (r, gs', events')"
  shows "\<exists>ts. run_stage ops ctx ts (Visiting e (PayloadActivity bs) 0) gs = (Live e, gs')"
proof -
  let ?call = "\<lambda>i g. payload_call ops ctx bs (clk i) g"
  have v: "\<exists>ts. run_stage ops ctx ts (Visiting e (PayloadActivity bs) (length pre)) (pre @ g # gs) =
      (case ?call (length pre) g of
         (Ok _, g') \<Rightarrow> (Visiting e (PayloadActivity bs) (Suc (length pre)), pre @ g' # gs)
       | (_, g') \<Rightarrow> (Live e, pre @ g' # gs))" for pre g gs
    by (rule exI [of _ "[clk (length pre), clk (length pre)]"]) (auto simp: payload_call_def split: prod.splits outcome.splits)
  have f: "\<exists>ts. run_stage ops ctx ts (Visiting e (PayloadActivity bs) (length pre)) pre = (Live e, pre)" for pre
    by (rule exI [of _ "[0]"]) simp
  show ?thesis using visit_steps [where pre = "[]" and S = "\<lambda>i. Visiting e (PayloadActivity bs) i" and call = ?call, OF v f] assms by simp
qed

section \<open>Every interleaving\<close>

type_synonym callers = "(guard_context \<times> stage) multiset"

text \<open>The peer addresses of the connections in any stage.\<close>

definition callers_live :: "callers \<Rightarrow> live" where
  "callers_live T = image_mset (\<lambda>p. (fst p, False)) T"

text \<open>
  The guards \<open>gs\<close> and the connections \<open>T\<close>: new ones ask, each takes its next step or begins a call, those
  that are over leave; a guard may be changed from \<open>outside\<close>, as a ban list is. With \<open>u\<close> no connection asks while another from its peer address is there.
\<close>

inductive stack_concurrent ::
    "'g guard_ops \<Rightarrow> ('g \<Rightarrow> 'g \<Rightarrow> bool) \<Rightarrow> bool \<Rightarrow> 'g list \<Rightarrow> 'g list \<Rightarrow> callers \<Rightarrow> bool"
  for ops :: "'g guard_ops" and outside :: "'g \<Rightarrow> 'g \<Rightarrow> bool" and u :: bool and built :: "'g list" where
  start: "stack_concurrent ops outside u built built {#}"
| asked: "stack_concurrent ops outside u built gs T \<Longrightarrow> context_ok ctx \<Longrightarrow>
    (u \<longrightarrow> gc_peer_addr ctx \<notin> peers (callers_live T)) \<Longrightarrow>
    stack_concurrent ops outside u built gs (add_mset (ctx, Reserving 0) T)"
| stepped: "stack_concurrent ops outside u built gs (add_mset (ctx, s) T) \<Longrightarrow> guard_step ops t ctx s gs = (s', gs') \<Longrightarrow>
    stack_concurrent ops outside u built gs' (add_mset (ctx, s') T)"
| begun: "stack_concurrent ops outside u built gs (add_mset (ctx, s) T) \<Longrightarrow> call_begins s s' \<Longrightarrow>
    stack_concurrent ops outside u built gs (add_mset (ctx, s') T)"
| changed: "stack_concurrent ops outside u built gs T \<Longrightarrow> i < length gs \<Longrightarrow> outside (gs ! i) g \<Longrightarrow>
    stack_concurrent ops outside u built (gs[i := g]) T"
| left: "stack_concurrent ops outside u built gs (add_mset (ctx, Gone) T) \<Longrightarrow> stack_concurrent ops outside u built gs T"

text \<open>What the j-th guard knows of a connection: nothing, or whether it is established.\<close>

fun known :: "nat \<Rightarrow> stage \<Rightarrow> bool option" where
  "known j (Reserving i) = (if j < i then Some False else None)"
| "known j (RollingBack i) = (if j < i then Some False else None)"
| "known j (Live e) = Some e"
| "known j (Establishing i) = Some (j < i)"
| "known j (Visiting e v i) = Some e"
| "known j (Closing e i) = (if j < i then None else Some e)"
| "known j Gone = None"

definition known_to :: "nat \<Rightarrow> callers \<Rightarrow> live" where
  "known_to j T = sum_mset (image_mset
     (\<lambda>(ctx, s). case known j s of None \<Rightarrow> {#} | Some e \<Rightarrow> {#(ctx, e)#}) T)"

lemma known_to_simps [simp]:
  "known_to j {#} = {#}"
  "known_to j (add_mset (ctx, s) T) =
     (case known j s of None \<Rightarrow> known_to j T | Some e \<Rightarrow> add_mset (ctx, e) (known_to j T))"
  by (simp_all add: known_to_def split: option.split)

lemma callers_live_simps [simp]:
  "callers_live {#} = {#}" "callers_live (add_mset (ctx, s) T) = add_mset (ctx, False) (callers_live T)"
  by (simp_all add: callers_live_def)

lemma peers_known_to: "peers (known_to j T) \<subseteq> peers (callers_live T)"
proof (induction T)
  case (add p T)
  then show ?case by (cases p) (auto split: option.split)
qed simp

lemma call_begins_known: "call_begins s s' \<Longrightarrow> known j s' = known j s"
  by (auto elim: call_begins.cases)

context shared_guards
begin

definition conc_ok :: "bool \<Rightarrow> 'g list \<Rightarrow> callers \<Rightarrow> bool" where
  "conc_ok u gs T \<longleftrightarrow> (\<forall>j < length gs. holds u (known_to j T) (gs ! j)) \<and>
     (\<forall>p \<in># T. context_ok (fst p)) \<and> (u \<longrightarrow> distinct_peers (callers_live T))"

lemma conc_ok_caller:
  assumes "conc_ok u gs (add_mset (ctx, s) T)"
  shows "context_ok ctx" "u \<Longrightarrow> gc_peer_addr ctx \<notin> peers (known_to j T)"
  using assms peers_known_to [of j T] by (auto simp: conc_ok_def)

lemma conc_ok_stay:
  assumes "conc_ok u gs (add_mset (ctx, s) T)" "\<And>j. j < length gs \<Longrightarrow> known j s' = known j s"
  shows "conc_ok u gs (add_mset (ctx, s') T)"
  using assms by (simp add: conc_ok_def)

lemma conc_ok_update:
  assumes "conc_ok u gs (add_mset (ctx, s) T)"
    and "i < length gs \<Longrightarrow> holds u (known_to i (add_mset (ctx, s') T)) g"
    and "\<And>j. j \<noteq> i \<Longrightarrow> known j s' = known j s"
  shows "conc_ok u (gs[i := g]) (add_mset (ctx, s') T)"
proof -
  have "holds u (known_to j (add_mset (ctx, s') T)) (gs[i := g] ! j)" if "j < length gs" for j
    using assms that by (cases "j = i") (auto simp: conc_ok_def)
  then show ?thesis using assms(1) by (simp add: conc_ok_def)
qed

lemma conc_ok_holds:
  "conc_ok u gs (add_mset (ctx, s) T) \<Longrightarrow> i < length gs \<Longrightarrow>
   holds u (case known i s of None \<Rightarrow> known_to i T | Some e \<Rightarrow> add_mset (ctx, e) (known_to i T)) (gs ! i)"
  by (simp add: conc_ok_def)

lemma conc_ok_step:
  assumes ok: "conc_ok u gs (add_mset (ctx, s) T)" and step: "guard_step ops t ctx s gs = (s', gs')"
  shows "conc_ok u gs' (add_mset (ctx, s') T)"
proof (cases s)
  case (Reserving i)
  show ?thesis
  proof (cases "i < length gs")
    case True
    obtain r g where g: "on_reserve ops t ctx (gs ! i) = (r, g)" by fastforce
    have "(\<forall>msg. r \<noteq> Panic msg) \<and> holds u (if is_ok r then add_mset (ctx, False) (known_to i T) else known_to i T) g"
      by (rule reserve_holds [OF _ conc_ok_caller [OF ok] g]) (use conc_ok_holds [OF ok True] Reserving in auto)
    then show ?thesis
      using ok step Reserving True g by (cases r) (auto intro!: conc_ok_update)
  next
    case False
    then show ?thesis using ok step Reserving by (auto intro: conc_ok_stay)
  qed
next
  case (RollingBack i)
  show ?thesis
  proof (cases i)
    case 0
    then show ?thesis using ok step RollingBack by (auto intro: conc_ok_stay)
  next
    case (Suc k)
    have "holds u (known_to k T) (on_close ops ctx (gs ! k))" if "k < length gs"
      by (rule close_holds [OF _ conc_ok_caller [OF ok]]) (use conc_ok_holds [OF ok that] RollingBack Suc in auto)
    then show ?thesis using ok step RollingBack Suc by (auto intro!: conc_ok_update)
  qed
next
  case (Live e)
  then show ?thesis using ok step by simp
next
  case (Establishing i)
  show ?thesis
  proof (cases "i < length gs")
    case True
    obtain r g where g: "on_established ops t ctx (gs ! i) = (r, g)" by fastforce
    have "is_ok r \<and> holds u (add_mset (ctx, True) (known_to i T)) g"
      by (rule established_holds [OF _ conc_ok_caller [OF ok] g]) (use conc_ok_holds [OF ok True] Establishing in auto)
    then show ?thesis using ok step Establishing True g by (cases r) (auto intro!: conc_ok_update)
  next
    case False
    then show ?thesis using ok step Establishing by (auto intro: conc_ok_stay)
  qed
next
  case (Visiting e v i)
  show ?thesis
  proof (cases "i < length gs")
    case True
    then have h: "holds u (add_mset (ctx, e) (known_to i T)) (gs ! i)"
      using conc_ok_holds [OF ok True] Visiting by simp
    have upd: "conc_ok u (gs[i := g]) (add_mset (ctx, s'') T)"
      if "holds u (add_mset (ctx, e) (known_to i T)) g" "\<And>j. known j s'' = Some e" for g s''
      using ok Visiting that by (intro conc_ok_update [OF ok]) auto
    obtain r g where a: "on_activity ops t ctx (gs ! i) = (r, g)" by fastforce
    note g = activity_holds [OF h a]
    show ?thesis
    proof (cases v)
      case (PayloadItself bs)
      obtain r2 g2 where p: "on_payload ops bs t ctx (gs ! i) = (r2, g2)" by fastforce
      from payload_holds [OF h p] show ?thesis
        using step Visiting True p PayloadItself by (cases r2) (auto intro: upd)
    qed (use step Visiting True a g in \<open>cases r; auto intro: upd\<close>)+
  next
    case False
    then show ?thesis using ok step Visiting by (cases v) (auto intro: conc_ok_stay)
  qed
next
  case (Closing e i)
  show ?thesis
  proof (cases "i < length gs")
    case True
    have "holds u (known_to i T) (on_close ops ctx (gs ! i))"
      by (rule close_holds [OF _ conc_ok_caller [OF ok]]) (use conc_ok_holds [OF ok True] Closing in auto)
    then show ?thesis using ok step Closing True by (auto intro!: conc_ok_update)
  next
    case False
    then show ?thesis using ok step Closing by (auto intro: conc_ok_stay)
  qed
next
  case Gone
  then show ?thesis using ok step by simp
qed

lemma stack_concurrent_ok:
  assumes "stack_concurrent ops outside u built gs T" "list_all (holds u {#}) built"
    and outside: "\<And>g g' M. outside g g' \<Longrightarrow> holds u M g \<Longrightarrow> holds u M g'"
  shows "conc_ok u gs T"
  using assms(1)
proof (induction rule: stack_concurrent.induct)
  case start
  then show ?case using assms(2) by (simp add: conc_ok_def list_all_length)
next
  case (asked gs T ctx)
  then show ?case by (auto simp: conc_ok_def)
next
  case (stepped gs ctx s T t s' gs')
  then show ?case by (blast intro: conc_ok_step)
next
  case (begun gs ctx s T s')
  then show ?case using call_begins_known by (blast intro: conc_ok_stay)
next
  case (changed gs T i g)
  then show ?case using outside by (auto simp: conc_ok_def nth_list_update)
next
  case (left gs ctx T)
  then show ?case by (auto simp: conc_ok_def)
qed

end

section \<open>The stack of a configuration\<close>

definition reban :: "std_guard \<Rightarrow> std_guard \<Rightarrow> bool" where
  "reban g g' \<longleftrightarrow> (\<exists>b op. g = IpBanG b \<and> g' = IpBanG (ban_call op b))"

lemma std_concurrent_ok:
  "stack_concurrent std_ops reban u (gs_guards (build_guard_stack now cfg)) gs T \<Longrightarrow> shared.conc_ok cfg u gs T"
  by (erule shared.stack_concurrent_ok [OF _ built_holds]) (auto simp: reban_def)

lemma distinct_known_to: "distinct_peers (callers_live T) \<Longrightarrow> distinct_peers (known_to j T)"
proof (induction T)
  case (add p T)
  then show ?case using peers_known_to [of j T] by (cases p) (auto split: option.split)
qed simp

lemma card_waiting_distinct: "distinct_peers M \<Longrightarrow> card (waiting M) = size (filter_mset (\<lambda>p. \<not> snd p) M)"
proof (induction M)
  case (add p M)
  have "finite (waiting M)" by (simp add: waiting_def)
  then show ?case using add not_peers_not_waiting [of "live_peer p" M] by (cases p) auto
qed simp

lemma known_when_quiet:
  "\<forall>p \<in># T. \<exists>e. snd p = Live e \<Longrightarrow> known_to j T = image_mset (\<lambda>(ctx, s). (ctx, s = Live True)) T"
proof (induction T)
  case (add p T)
  then show ?case by (cases p) auto
qed simp

text \<open>
  C4. Any number of threads in the calls of one guard stack, interleaved guard call by guard call, with
  reservations half made or half rolled back, sessions half established and half closed, and the ban
  list changing meanwhile: at every moment the throttle counts exactly the connections that have passed
  it and have not been taken back from it, in total and by address, and within its limits; when the
  connections have distinct peer addresses and its table is large enough, the SYN guard counts exactly
  those of them it has not seen established; and the slow-client guard tracks no others. When no
  thread is in a call, every guard knows the same connections, those that live.
\<close>

theorem guard_calls_interleave:
  assumes "stack_concurrent std_ops reban u (gs_guards (build_guard_stack now cfg)) gs T" "j < length gs"
  shows "(gs ! j = ThrottleG t \<and> gsc_throttle cfg = Some tc \<and> max_connections_global tc < usize_max \<longrightarrow>
      unat (th_global t) = size (known_to j T) \<and> size (known_to j T) \<le> max_connections_global tc \<and>
      count_of (th_per_ip t) ip = count (slots (known_to j T)) ip \<and>
      count (slots (known_to j T)) ip \<le> max_connections_per_ip tc) \<and>
    (gs ! j = SynGuardG s \<and> u \<and> gsc_syn_guard cfg = Some sc \<and>
     sg_max_half_open_global sc \<le> sg_max_tracked_ips sc \<and> sg_max_tracked_ips sc \<le> usize_max \<longrightarrow>
      ho_total (sg_state s) = size (filter_mset (\<lambda>p. \<not> snd p) (known_to j T)) \<and>
      ho_established (sg_state s) = settled (known_to j T)) \<and>
    (gs ! j = SlowLorisG l \<longrightarrow> tracked (sl_activity l) \<subseteq> peers (known_to j T)) \<and>
    ((\<forall>p \<in># T. \<exists>e. snd p = Live e) \<longrightarrow> known_to j T = image_mset (\<lambda>(ctx, s). (ctx, s = Live True)) T)"
proof (intro conjI impI)
  have ok: "shared.conc_ok cfg u gs T" by (rule std_concurrent_ok [OF assms(1)])
  then have holds: "std_holds cfg u (known_to j T) (gs ! j)" using assms(2) by (simp add: shared.conc_ok_def)
  {
    assume "gs ! j = ThrottleG t \<and> gsc_throttle cfg = Some tc \<and> max_connections_global tc < usize_max"
    then have "th_history tc t (slots (known_to j T))" "max_connections_global tc < usize_max"
      using holds by auto
    note counts = th_history_counts(1,3) [OF this] th_history_counts(2,4) [OF this, where ip = ip]
    show "unat (th_global t) = size (known_to j T)" "size (known_to j T) \<le> max_connections_global tc"
      "count_of (th_per_ip t) ip = count (slots (known_to j T)) ip"
      "count (slots (known_to j T)) ip \<le> max_connections_per_ip tc"
      using counts by (simp_all add: slots_def)
  next
    assume s: "gs ! j = SynGuardG s \<and> u \<and> gsc_syn_guard cfg = Some sc \<and>
      sg_max_half_open_global sc \<le> sg_max_tracked_ips sc \<and> sg_max_tracked_ips sc \<le> usize_max"
    then have rel: "ho_rel sc (sg_state s) (waiting (known_to j T))"
        "ho_established (sg_state s) = settled (known_to j T)"
      using holds ho_history_rel [of sc "sg_state s"] by auto
    have "distinct_peers (known_to j T)" using ok s by (simp add: shared.conc_ok_def distinct_known_to)
    then show "ho_total (sg_state s) = size (filter_mset (\<lambda>p. \<not> snd p) (known_to j T))"
      using rel(1) by (simp add: ho_rel_def card_waiting_distinct)
    show "ho_established (sg_state s) = settled (known_to j T)" by (rule rel(2))
  next
    assume "gs ! j = SlowLorisG l"
    then show "tracked (sl_activity l) \<subseteq> peers (known_to j T)" using holds by simp
  next
    assume "\<forall>p \<in># T. \<exists>e. snd p = Live e"
    then show "known_to j T = image_mset (\<lambda>(ctx, s). (ctx, s = Live True)) T" by (rule known_when_quiet)
  }
qed

text \<open>A connection that the throttle has let through and that is still asking the guards after it.\<close>

definition throttle_alone :: guard_stack_config where
  "throttle_alone = \<lparr>gsc_rate_limiter = None, gsc_ip_ban = None, gsc_throttle = Some demo_cfg,
     gsc_syn_guard = None, gsc_slow_loris = None, gsc_udp_amplification = None\<rparr>"

theorem guard_calls_interleave_witness:
  "\<exists>t. stack_concurrent std_ops reban True (gs_guards (build_guard_stack 0 throttle_alone)) [ThrottleG t]
       {#(demo_ctx 1, Reserving 1)#} \<and> unat (th_global t) = 1"
proof -
  let ?built = "gs_guards (build_guard_stack 0 throttle_alone)"
  have built: "?built = [ThrottleG (throttle_new demo_cfg)]"
    by (simp add: build_guard_stack_def throttle_alone_def Let_def)
  obtain t where t: "th_acquire (gc_peer_ip (demo_ctx 1)) (throttle_new demo_cfg) = (Ok (), t)"
    by (auto simp: th_acquire_def throttle_new_def demo_cfg_def hash_simps Let_def)
  have "stack_concurrent std_ops reban True ?built ?built {#(demo_ctx 1, Reserving 0)#}"
    by (rule stack_concurrent.asked [OF stack_concurrent.start]) simp_all
  then have run: "stack_concurrent std_ops reban True ?built [ThrottleG t] {#(demo_ctx 1, Reserving 1)#}"
    by (rule stack_concurrent.stepped [where t = 0]) (simp add: built std_hooks t [unfolded One_nat_def])
  then have "unat (th_global t) = size (known_to 0 {#(demo_ctx 1, Reserving 1)#})"
    using guard_calls_interleave [OF run, of 0 t demo_cfg]
    by (simp add: throttle_alone_def demo_cfg_def usize_max_def)
  then show ?thesis using run by auto
qed

end
