(* ===== verification/Metrics.thy ===== *)
theory Metrics
  imports Net_Addr Float64
begin

text \<open>
  Connection metrics (src/src/metrics.rs): global counters, per-server and per-address tables,
  latency statistics and snapshots. All counters are \<open>u64\<close> and wrap; averages are binary64.
\<close>

record per_server_metrics =
  psm_tcp :: u64
  psm_tls :: u64
  psm_mtls :: u64
  psm_active :: u64
  psm_failures :: u64
  psm_latency_sum_ms :: u64
  psm_latency_count :: u64

record per_ip_metrics =
  pim_connections :: u64
  pim_active :: u64
  pim_failures :: u64
  pim_latency_sum_ms :: u64
  pim_latency_count :: u64

record metrics_collector =
  mc_tcp_total :: u64
  mc_tls_total :: u64
  mc_mtls_total :: u64
  mc_failed :: u64
  mc_active :: u64
  mc_latency_sum_ms :: u64
  mc_latency_count :: u64
  mc_min_latency_ms :: u64
  mc_max_latency_ms :: u64
  mc_per_server :: "(string, per_server_metrics) fmap"
  mc_per_ip :: "(ip_addr, per_ip_metrics) fmap"
  mc_callbacks :: "nat list"

text \<open>A callback is a trait object; it is identified by a number.\<close>

definition u64_max :: u64 where
  "u64_max = - 1"

definition metrics_new :: metrics_collector where
  "metrics_new =
     \<lparr>mc_tcp_total = 0, mc_tls_total = 0, mc_mtls_total = 0, mc_failed = 0, mc_active = 0,
      mc_latency_sum_ms = 0, mc_latency_count = 0, mc_min_latency_ms = u64_max, mc_max_latency_ms = 0,
      mc_per_server = fmempty, mc_per_ip = fmempty, mc_callbacks = []\<rparr>"

definition psm_zero :: per_server_metrics where
  "psm_zero = \<lparr>psm_tcp = 0, psm_tls = 0, psm_mtls = 0, psm_active = 0, psm_failures = 0,
     psm_latency_sum_ms = 0, psm_latency_count = 0\<rparr>"

definition pim_zero :: per_ip_metrics where
  "pim_zero = \<lparr>pim_connections = 0, pim_active = 0, pim_failures = 0, pim_latency_sum_ms = 0,
     pim_latency_count = 0\<rparr>"

text \<open>
  \<open>get_mut\<close> or \<open>insert\<close>, and \<open>entry().and_modify().or_insert()\<close>: modify the entry, or insert
  the given one.
\<close>

definition upsert :: "'k \<Rightarrow> ('v \<Rightarrow> 'v) \<Rightarrow> 'v \<Rightarrow> ('k, 'v) fmap \<Rightarrow> ('k, 'v) fmap" where
  "upsert k f init m = (case fmlookup m k of Some v \<Rightarrow> fmupd k (f v) m | None \<Rightarrow> fmupd k init m)"

text \<open>\<open>get_mut\<close> alone.\<close>

definition modify :: "'k \<Rightarrow> ('v \<Rightarrow> 'v) \<Rightarrow> ('k, 'v) fmap \<Rightarrow> ('k, 'v) fmap" where
  "modify k f m = (case fmlookup m k of Some v \<Rightarrow> fmupd k (f v) m | None \<Rightarrow> m)"

definition for_server :: "string option \<Rightarrow> (string \<Rightarrow> 'a \<Rightarrow> 'a) \<Rightarrow> 'a \<Rightarrow> 'a" where
  "for_server server f x = (case server of None \<Rightarrow> x | Some name \<Rightarrow> f name x)"

text \<open>The part of the three connection counters that is the same: one more connection of the address.\<close>

definition count_peer :: "ip_addr \<Rightarrow> (ip_addr, per_ip_metrics) fmap \<Rightarrow> (ip_addr, per_ip_metrics) fmap" where
  "count_peer ip = upsert ip
     (\<lambda>m. m\<lparr>pim_connections := pim_connections m + 1, pim_active := pim_active m + 1\<rparr>)
     (pim_zero\<lparr>pim_connections := 1, pim_active := 1\<rparr>)"

definition record_tcp_connection ::
    "string option \<Rightarrow> ip_addr \<Rightarrow> metrics_collector \<Rightarrow> metrics_collector" where
  "record_tcp_connection server ip c =
     c\<lparr>mc_tcp_total := mc_tcp_total c + 1, mc_active := mc_active c + 1,
       mc_per_server := for_server server
         (\<lambda>name. upsert name (\<lambda>m. m\<lparr>psm_tcp := psm_tcp m + 1, psm_active := psm_active m + 1\<rparr>)
            (psm_zero\<lparr>psm_tcp := 1, psm_active := 1\<rparr>)) (mc_per_server c),
       mc_per_ip := count_peer ip (mc_per_ip c)\<rparr>"

definition record_tls_connection ::
    "string option \<Rightarrow> ip_addr \<Rightarrow> metrics_collector \<Rightarrow> metrics_collector" where
  "record_tls_connection server ip c =
     c\<lparr>mc_tls_total := mc_tls_total c + 1, mc_active := mc_active c + 1,
       mc_per_server := for_server server
         (\<lambda>name. upsert name (\<lambda>m. m\<lparr>psm_tls := psm_tls m + 1, psm_active := psm_active m + 1\<rparr>)
            (psm_zero\<lparr>psm_tls := 1, psm_active := 1\<rparr>)) (mc_per_server c),
       mc_per_ip := count_peer ip (mc_per_ip c)\<rparr>"

definition record_mtls_connection ::
    "string option \<Rightarrow> ip_addr \<Rightarrow> metrics_collector \<Rightarrow> metrics_collector" where
  "record_mtls_connection server ip c =
     c\<lparr>mc_mtls_total := mc_mtls_total c + 1, mc_active := mc_active c + 1,
       mc_per_server := for_server server
         (\<lambda>name. upsert name (\<lambda>m. m\<lparr>psm_mtls := psm_mtls m + 1, psm_active := psm_active m + 1\<rparr>)
            (psm_zero\<lparr>psm_mtls := 1, psm_active := 1\<rparr>)) (mc_per_server c),
       mc_per_ip := count_peer ip (mc_per_ip c)\<rparr>"

definition record_failure :: "string option \<Rightarrow> ip_addr \<Rightarrow> metrics_collector \<Rightarrow> metrics_collector" where
  "record_failure server ip c =
     c\<lparr>mc_failed := mc_failed c + 1,
       mc_per_server := for_server server
         (\<lambda>name. upsert name (\<lambda>m. m\<lparr>psm_failures := psm_failures m + 1\<rparr>)
            (psm_zero\<lparr>psm_failures := 1\<rparr>)) (mc_per_server c),
       mc_per_ip := upsert ip (\<lambda>m. m\<lparr>pim_failures := pim_failures m + 1\<rparr>)
         (pim_zero\<lparr>pim_failures := 1\<rparr>) (mc_per_ip c)\<rparr>"

definition saturating_dec :: "u64 \<Rightarrow> u64" where
  "saturating_dec v = (if 0 < v then v - 1 else v)"

definition record_connection_close ::
    "string option \<Rightarrow> ip_addr \<Rightarrow> metrics_collector \<Rightarrow> metrics_collector" where
  "record_connection_close server ip c =
     c\<lparr>mc_active := saturating_dec (mc_active c),
       mc_per_server := for_server server
         (\<lambda>name. modify name (\<lambda>m. m\<lparr>psm_active := saturating_dec (psm_active m)\<rparr>)) (mc_per_server c),
       mc_per_ip := modify ip (\<lambda>m. m\<lparr>pim_active := saturating_dec (pim_active m)\<rparr>) (mc_per_ip c)\<rparr>"

definition record_connection_latency ::
    "string option \<Rightarrow> ip_addr \<Rightarrow> u64 \<Rightarrow> metrics_collector \<Rightarrow> metrics_collector" where
  "record_connection_latency server ip latency_ms c =
     c\<lparr>mc_latency_sum_ms := mc_latency_sum_ms c + latency_ms,
       mc_latency_count := mc_latency_count c + 1,
       mc_min_latency_ms := (if latency_ms < mc_min_latency_ms c then latency_ms else mc_min_latency_ms c),
       mc_max_latency_ms := (if mc_max_latency_ms c < latency_ms then latency_ms else mc_max_latency_ms c),
       mc_per_server := for_server server
         (\<lambda>name. modify name (\<lambda>m. m\<lparr>psm_latency_sum_ms := psm_latency_sum_ms m + latency_ms,
            psm_latency_count := psm_latency_count m + 1\<rparr>)) (mc_per_server c),
       mc_per_ip := modify ip (\<lambda>m. m\<lparr>pim_latency_sum_ms := pim_latency_sum_ms m + latency_ms,
            pim_latency_count := pim_latency_count m + 1\<rparr>) (mc_per_ip c)\<rparr>"

definition metrics_reset :: "metrics_collector \<Rightarrow> metrics_collector" where
  "metrics_reset c =
     c\<lparr>mc_tcp_total := 0, mc_tls_total := 0, mc_mtls_total := 0, mc_failed := 0, mc_active := 0,
       mc_latency_sum_ms := 0, mc_latency_count := 0, mc_min_latency_ms := u64_max,
       mc_max_latency_ms := 0, mc_per_server := fmempty, mc_per_ip := fmempty\<rparr>"

section \<open>Snapshots\<close>

definition avg_latency :: "u64 \<Rightarrow> u64 \<Rightarrow> rat" where
  "avg_latency latency_sum samples =
     (if 0 < samples then f64_div (f64_of_nat (unat latency_sum)) (f64_of_nat (unat samples)) else 0)"

record server_metrics =
  svm_tcp :: u64
  svm_tls :: u64
  svm_mtls :: u64
  svm_active :: u64
  svm_failures :: u64
  svm_avg_latency_ms :: rat
  svm_latency_sample_count :: u64

record ip_metrics =
  ipm_connections :: u64
  ipm_active :: u64
  ipm_failures :: u64
  ipm_avg_latency_ms :: rat

record connection_metrics =
  cm_tcp_connections_total :: u64
  cm_tls_connections_total :: u64
  cm_mtls_connections_total :: u64
  cm_failed_connections :: u64
  cm_active_connections :: u64
  cm_avg_latency_ms :: rat
  cm_min_latency_ms :: u64
  cm_max_latency_ms :: u64
  cm_per_server :: "(string, server_metrics) fmap"
  cm_per_ip :: "(ip_addr, ip_metrics) fmap"

definition server_snapshot :: "per_server_metrics \<Rightarrow> server_metrics" where
  "server_snapshot m =
     \<lparr>svm_tcp = psm_tcp m, svm_tls = psm_tls m, svm_mtls = psm_mtls m, svm_active = psm_active m,
      svm_failures = psm_failures m,
      svm_avg_latency_ms = avg_latency (psm_latency_sum_ms m) (psm_latency_count m),
      svm_latency_sample_count = psm_latency_count m\<rparr>"

definition ip_snapshot :: "per_ip_metrics \<Rightarrow> ip_metrics" where
  "ip_snapshot m =
     \<lparr>ipm_connections = pim_connections m, ipm_active = pim_active m, ipm_failures = pim_failures m,
      ipm_avg_latency_ms = avg_latency (pim_latency_sum_ms m) (pim_latency_count m)\<rparr>"

definition metrics_snapshot :: "metrics_collector \<Rightarrow> connection_metrics" where
  "metrics_snapshot c =
     \<lparr>cm_tcp_connections_total = mc_tcp_total c, cm_tls_connections_total = mc_tls_total c,
      cm_mtls_connections_total = mc_mtls_total c, cm_failed_connections = mc_failed c,
      cm_active_connections = mc_active c,
      cm_avg_latency_ms = avg_latency (mc_latency_sum_ms c) (mc_latency_count c),
      cm_min_latency_ms = (if mc_min_latency_ms c = u64_max then 0 else mc_min_latency_ms c),
      cm_max_latency_ms = mc_max_latency_ms c,
      cm_per_server = fmmap server_snapshot (mc_per_server c),
      cm_per_ip = fmmap ip_snapshot (mc_per_ip c)\<rparr>"

definition register_callback :: "nat \<Rightarrow> metrics_collector \<Rightarrow> metrics_collector" where
  "register_callback cb c = c\<lparr>mc_callbacks := mc_callbacks c @ [cb]\<rparr>"

text \<open>The calls of \<open>trigger_callbacks\<close>, in order.\<close>

definition trigger_callbacks :: "metrics_collector \<Rightarrow> (nat \<times> connection_metrics) list" where
  "trigger_callbacks c = (let metrics = metrics_snapshot c in map (\<lambda>cb. (cb, metrics)) (mc_callbacks c))"

text \<open>
  The lines \<open>LoggingMetricsCallback\<close> logs; \<open>servers\<close> are the entries of the server table in the
  order in which the hash map gives them.
\<close>

definition log_summary :: "connection_metrics \<Rightarrow> string" where
  "log_summary m =
     ''Metrics: TCP='' @ show_nat (unat (cm_tcp_connections_total m)) @
     '', TLS='' @ show_nat (unat (cm_tls_connections_total m)) @
     '', mTLS='' @ show_nat (unat (cm_mtls_connections_total m)) @
     '', Failed='' @ show_nat (unat (cm_failed_connections m)) @
     '', Active='' @ show_nat (unat (cm_active_connections m))"

definition log_server :: "string \<times> server_metrics \<Rightarrow> string" where
  "log_server = (\<lambda>(server, m).
     ''  Server '' @ [CHR 0x27] @ server @ [CHR 0x27] @ '': TCP='' @ show_nat (unat (svm_tcp m)) @
     '', TLS='' @ show_nat (unat (svm_tls m)) @ '', mTLS='' @ show_nat (unat (svm_mtls m)) @
     '', Active='' @ show_nat (unat (svm_active m)) @ '', Failures='' @ show_nat (unat (svm_failures m)))"

definition logging_on_metrics :: "(string \<times> server_metrics) list \<Rightarrow> connection_metrics \<Rightarrow> string list" where
  "logging_on_metrics servers m = log_summary m # map log_server servers"

section \<open>Sums over the tables\<close>

definition table_sum :: "('v \<Rightarrow> 'a::ab_group_add) \<Rightarrow> ('k, 'v) fmap \<Rightarrow> 'a" where
  "table_sum f m = (\<Sum>k \<in> fmdom' m. f (the (fmlookup m k)))"

definition at_key :: "('v \<Rightarrow> 'a::zero) \<Rightarrow> 'k \<Rightarrow> ('k, 'v) fmap \<Rightarrow> 'a" where
  "at_key f k m = (case fmlookup m k of None \<Rightarrow> 0 | Some v \<Rightarrow> f v)"

lemma table_sum_empty [simp]: "table_sum f fmempty = 0"
  by (simp add: table_sum_def)

lemma table_sum_upd: "table_sum f (fmupd k v m) = table_sum f m - at_key f k m + f v"
proof -
  let ?g = "\<lambda>k. f (the (fmlookup m k))"
  have rest: "(\<Sum>j \<in> fmdom' m - {k}. f (the (if k = j then Some v else fmlookup m j))) = (\<Sum>j \<in> fmdom' m - {k}. ?g j)"
    by (rule sum.cong) auto
  have "table_sum f (fmupd k v m) = f v + (\<Sum>j \<in> fmdom' m - {k}. ?g j)"
    unfolding table_sum_def fmdom'_fmupd by (subst sum.insert_remove) (simp_all add: rest)
  moreover have "(\<Sum>j \<in> fmdom' m - {k}. ?g j) = table_sum f m - at_key f k m"
  proof (cases "k \<in> fmdom' m")
    case True
    then have "fmlookup m k \<noteq> None" by (auto simp: fmlookup_dom'_iff)
    then show ?thesis using True by (auto simp: table_sum_def at_key_def sum_diff1)
  next
    case False
    then show ?thesis by (simp add: table_sum_def at_key_def fmdom'_notD)
  qed
  ultimately show ?thesis by simp
qed

lemma at_key_upd: "at_key f k' (fmupd k v m) = (if k = k' then f v else at_key f k' m)"
  by (simp add: at_key_def)

lemma table_sum_upsert:
  assumes "\<And>v. f (g v) = f v + d" "f init = d"
  shows "table_sum f (upsert k g init m) = table_sum f m + d"
  using assms by (auto simp: upsert_def table_sum_upd at_key_def split: option.splits)

lemma table_sum_modify:
  assumes "\<And>v. f (g v) = f v"
  shows "table_sum f (modify k g m) = table_sum f m"
  using assms by (auto simp: modify_def table_sum_upd at_key_def split: option.splits)

lemma at_key_modify0: "(\<And>v. f (g v) = f v) \<Longrightarrow> at_key f k' (modify k g m) = at_key f k' m"
  by (auto simp: modify_def at_key_def split: option.splits)

lemma table_sum_fmmap: "table_sum f (fmmap g m) = table_sum (\<lambda>v. f (g v)) m"
  unfolding table_sum_def by (rule sum.cong) (auto simp: fmlookup_dom'_iff)

lemma at_key_fmmap: "at_key f k (fmmap g m) = at_key (\<lambda>v. f (g v)) k m"
  by (simp add: at_key_def split: option.splits)

lemma at_key_upsert:
  fixes f :: "'v \<Rightarrow> u64"
  assumes "\<And>v. f (g v) = f v + d" "f init = d"
  shows "at_key f k' (upsert k g init m) = at_key f k' m + (if k = k' then d else 0)"
  using assms by (auto simp: upsert_def at_key_def split: option.splits)

section \<open>Histories\<close>

datatype metric_op =
    RecordTcp "string option" ip_addr
  | RecordTls "string option" ip_addr
  | RecordMtls "string option" ip_addr
  | RecordFailure "string option" ip_addr
  | RecordClose "string option" ip_addr
  | RecordLatency "string option" ip_addr u64
  | ResetMetrics

fun metric_step :: "metric_op \<Rightarrow> metrics_collector \<Rightarrow> metrics_collector" where
  "metric_step (RecordTcp server ip) c = record_tcp_connection server ip c"
| "metric_step (RecordTls server ip) c = record_tls_connection server ip c"
| "metric_step (RecordMtls server ip) c = record_mtls_connection server ip c"
| "metric_step (RecordFailure server ip) c = record_failure server ip c"
| "metric_step (RecordClose server ip) c = record_connection_close server ip c"
| "metric_step (RecordLatency server ip ms) c = record_connection_latency server ip ms c"
| "metric_step ResetMetrics c = metrics_reset c"

fun names_server :: "metric_op \<Rightarrow> bool" where
  "names_server (RecordTcp server ip) = (server \<noteq> None)"
| "names_server (RecordTls server ip) = (server \<noteq> None)"
| "names_server (RecordMtls server ip) = (server \<noteq> None)"
| "names_server (RecordFailure server ip) = (server \<noteq> None)"
| "names_server c = True"

lemmas metric_defs = record_tcp_connection_def record_tls_connection_def record_mtls_connection_def
  record_failure_def record_connection_close_def record_connection_latency_def metrics_reset_def
  count_peer_def for_server_def

lemmas table_sums = table_sum_upsert [where d = 1] table_sum_upsert [where d = 0] table_sum_modify

definition ip_sums :: "metrics_collector \<Rightarrow> bool" where
  "ip_sums c \<longleftrightarrow>
     table_sum pim_connections (mc_per_ip c) = mc_tcp_total c + mc_tls_total c + mc_mtls_total c \<and>
     table_sum pim_failures (mc_per_ip c) = mc_failed c"

definition server_sums :: "metrics_collector \<Rightarrow> bool" where
  "server_sums c \<longleftrightarrow>
     table_sum psm_tcp (mc_per_server c) = mc_tcp_total c \<and> table_sum psm_tls (mc_per_server c) = mc_tls_total c \<and>
     table_sum psm_mtls (mc_per_server c) = mc_mtls_total c \<and> table_sum psm_failures (mc_per_server c) = mc_failed c"

lemma metric_step_ip_sums: "ip_sums c \<Longrightarrow> ip_sums (metric_step op c)"
  by (cases op) (simp_all add: ip_sums_def metric_defs table_sums pim_zero_def)

lemma metric_step_server_sums: "server_sums c \<Longrightarrow> names_server op \<Longrightarrow> server_sums (metric_step op c)"
  by (cases op) (auto simp: server_sums_def metric_defs table_sums psm_zero_def split: option.splits)

lemma metric_steps_ip_sums: "ip_sums c \<Longrightarrow> ip_sums (fold metric_step ops c)"
  by (induction ops arbitrary: c) (simp_all add: metric_step_ip_sums)

lemma metric_steps_server_sums:
  "server_sums c \<Longrightarrow> list_all names_server ops \<Longrightarrow> server_sums (fold metric_step ops c)"
  by (induction ops arbitrary: c) (simp_all add: metric_step_server_sums)

lemma metrics_new_sums: "ip_sums metrics_new" "server_sums metrics_new"
  by (simp_all add: ip_sums_def server_sums_def metrics_new_def)

section \<open>Open connections\<close>

text \<open>
  \<open>M\<close> is the multiset of connections that were recorded and not closed yet, each with the server
  name it was recorded under.
\<close>

inductive mc_history :: "metrics_collector \<Rightarrow> (string option \<times> ip_addr) multiset \<Rightarrow> bool" where
  start: "mc_history metrics_new {#}"
| opened: "mc_history c M \<Longrightarrow> op \<in> {RecordTcp server ip, RecordTls server ip, RecordMtls server ip} \<Longrightarrow>
    size M + 1 < 2 ^ 64 \<Longrightarrow> mc_history (metric_step op c) (add_mset (server, ip) M)"
| other: "mc_history c M \<Longrightarrow> op \<in> {RecordFailure server ip, RecordLatency server ip ms} \<Longrightarrow>
    mc_history (metric_step op c) M"
| closed: "mc_history c M \<Longrightarrow> (server, ip) \<in># M \<Longrightarrow>
    mc_history (metric_step (RecordClose server ip) c) (M - {#(server, ip)#})"

definition active_of_ip :: "(string option \<times> ip_addr) multiset \<Rightarrow> ip_addr \<Rightarrow> nat" where
  "active_of_ip M ip = size (filter_mset (\<lambda>p. snd p = ip) M)"

definition active_of_server :: "(string option \<times> ip_addr) multiset \<Rightarrow> string \<Rightarrow> nat" where
  "active_of_server M name = size (filter_mset (\<lambda>p. fst p = Some name) M)"

definition mc_rel :: "metrics_collector \<Rightarrow> (string option \<times> ip_addr) multiset \<Rightarrow> bool" where
  "mc_rel c M \<longleftrightarrow> size M < 2 ^ 64 \<and> unat (mc_active c) = size M \<and>
     (\<forall>ip. unat (at_key pim_active ip (mc_per_ip c)) = active_of_ip M ip) \<and>
     (\<forall>name. unat (at_key psm_active name (mc_per_server c)) = active_of_server M name)"

lemma unat_succ64: "unat w + 1 < 2 ^ 64 \<Longrightarrow> unat ((w :: u64) + 1) = unat w + 1"
  by (simp add: unat_word_ariths)

lemma unat_saturating_dec: "unat (saturating_dec w) = unat w - 1"
proof (cases "w = 0")
  case True
  then show ?thesis by (simp add: saturating_dec_def)
next
  case False
  then have "0 < w" "unat w \<noteq> 0" by (simp_all add: word_gt_0 unat_eq_zero)
  moreover have "unat (w - 1) = unat w - 1" using False by (simp add: unat_minus_one)
  ultimately show ?thesis by (simp add: saturating_dec_def)
qed

lemma active_counts:
  "active_of_ip M ip \<le> size M" "active_of_server M name \<le> size M"
  "active_of_ip (add_mset p M) ip = active_of_ip M ip + of_bool (snd p = ip)"
  "active_of_server (add_mset p M) name = active_of_server M name + of_bool (fst p = Some name)"
  by (simp_all add: active_of_ip_def active_of_server_def size_filter_mset_lesseq)

lemma active_counts_remove:
  "p \<in># M \<Longrightarrow> active_of_ip (M - {#p#}) ip = active_of_ip M ip - of_bool (snd p = ip)"
  "p \<in># M \<Longrightarrow> active_of_server (M - {#p#}) name = active_of_server M name - of_bool (fst p = Some name)"
  by (simp_all add: active_of_ip_def active_of_server_def filter_diff_mset size_Diff_singleton)

lemma at_key_modify_dec:
  assumes "\<And>v. f (g v) = saturating_dec (f v)"
  shows "at_key f k' (modify k g m) = (if k = k' then saturating_dec (at_key f k' m) else at_key f k' m)"
  using assms by (auto simp: modify_def at_key_def saturating_dec_def split: option.splits)

lemma mc_history_rel: "mc_history c M \<Longrightarrow> mc_rel c M"
proof (induction rule: mc_history.induct)
  case start
  show ?case by (simp add: mc_rel_def metrics_new_def at_key_def active_of_ip_def active_of_server_def)
next
  case (opened c M op server ip)
  have small: "unat (at_key pim_active i (mc_per_ip c)) + 1 < 2 ^ 64"
      "unat (at_key psm_active n (mc_per_server c)) + 1 < 2 ^ 64" "unat (mc_active c) + 1 < 2 ^ 64" for i n
    using opened active_counts(1) [of M i] active_counts(2) [of M n] by (simp_all add: mc_rel_def)
  have step: "mc_active (metric_step op c) = mc_active c + 1"
      "at_key pim_active i (mc_per_ip (metric_step op c)) = at_key pim_active i (mc_per_ip c) + (if ip = i then 1 else 0)"
      "at_key psm_active n (mc_per_server (metric_step op c)) =
        at_key psm_active n (mc_per_server c) + (if server = Some n then 1 else 0)" for i n
    using opened(2) by (auto simp: metric_defs at_key_upsert [where d = 1] pim_zero_def psm_zero_def split: option.splits)
  show ?case
    using opened.IH opened.hyps(3) unat_succ64 [OF small(1)] unat_succ64 [OF small(2)] unat_succ64 [OF small(3)]
    by (auto simp: mc_rel_def step active_counts)
next
  case (other c M op server ip ms)
  have "mc_active (metric_step op c) = mc_active c"
      "at_key pim_active i (mc_per_ip (metric_step op c)) = at_key pim_active i (mc_per_ip c)"
      "at_key psm_active n (mc_per_server (metric_step op c)) = at_key psm_active n (mc_per_server c)" for i n
    using other(2) by (auto simp: metric_defs at_key_upsert [where d = 0] at_key_modify0
        pim_zero_def psm_zero_def split: option.splits)
  then show ?case using other.IH by (simp add: mc_rel_def)
next
  case (closed c M server ip)
  have "unat (at_key pim_active i (mc_per_ip (metric_step (RecordClose server ip) c))) =
        unat (at_key pim_active i (mc_per_ip c)) - of_bool (ip = i)"
      "unat (at_key psm_active n (mc_per_server (metric_step (RecordClose server ip) c))) =
        unat (at_key psm_active n (mc_per_server c)) - of_bool (server = Some n)" for i n
    by (auto simp: metric_defs at_key_modify_dec unat_saturating_dec split: option.splits)
  moreover have "unat (mc_active (metric_step (RecordClose server ip) c)) = unat (mc_active c) - 1"
    by (simp add: metric_defs unat_saturating_dec)
  ultimately show ?case
    using closed by (auto simp: mc_rel_def active_counts_remove size_Diff_singleton)
qed

section \<open>Latencies\<close>

lemma unat_u64_max: "unat u64_max = 18446744073709551615"
  by code_simp

lemma latency_run:
  assumes "c = fold (\<lambda>l. metric_step (RecordLatency server ip l)) ls metrics_new"
    and "sum_list (map unat ls) < 2 ^ 53" "length ls < 2 ^ 53"
  shows "unat (mc_latency_sum_ms c) = sum_list (map unat ls) \<and> unat (mc_latency_count c) = length ls \<and>
    mc_min_latency_ms c = Min (insert u64_max (set ls)) \<and> mc_max_latency_ms c = Max (insert 0 (set ls))"
  using assms
proof (induction ls arbitrary: c rule: rev_induct)
  case Nil
  then show ?case by (simp add: metrics_new_def)
next
  case (snoc l ls)
  define c0 where "c0 = fold (\<lambda>l. metric_step (RecordLatency server ip l)) ls metrics_new"
  have c: "c = record_connection_latency server ip l c0"
  proof -
    have "fold f (ls @ [l]) x = f l (fold f ls x)" for f and x :: metrics_collector by simp
    then have "c = metric_step (RecordLatency server ip l) c0" unfolding c0_def snoc.prems(1) .
    then show ?thesis by simp
  qed
  have sums: "sum_list (map unat ls) + unat l < 2 ^ 53" "length ls + 1 < 2 ^ 53" using snoc.prems(2,3) by simp_all
  then have IH: "unat (mc_latency_sum_ms c0) = sum_list (map unat ls)" "unat (mc_latency_count c0) = length ls"
      "mc_min_latency_ms c0 = Min (insert u64_max (set ls))" "mc_max_latency_ms c0 = Max (insert 0 (set ls))"
    using snoc.IH [OF c0_def] by simp_all
  have "insert x (set (ls @ [l])) = insert l (insert x (set ls))" for x by auto
  then have "Min (insert u64_max (set (ls @ [l]))) = min l (mc_min_latency_ms c0)"
      "Max (insert 0 (set (ls @ [l]))) = max l (mc_max_latency_ms c0)"
    by (simp_all only: IH(3,4)) (simp_all add: Min_insert Max_insert)
  then show ?case
    using IH(1,2) sums by (auto simp: c record_connection_latency_def unat_word_ariths min_def max_def)
qed

lemma sum_list_bounds:
  assumes "\<forall>x \<in> set xs. lo \<le> (x :: nat) \<and> x \<le> hi"
  shows "length xs * lo \<le> sum_list xs \<and> sum_list xs \<le> length xs * hi"
  using assms by (induction xs) auto

lemma avg_latency_bounds:
  assumes "length ls * lo \<le> total_ms" "total_ms \<le> length ls * hi" "ls \<noteq> []" "total_ms < 2 ^ 53"
    and "length ls < 2 ^ 53" "unat w = total_ms" "unat n = length ls" "hi \<le> 2 ^ 53"
  shows "of_nat lo \<le> avg_latency w n \<and> avg_latency w n \<le> of_nat hi"
proof -
  have pos: "0 < length ls" using assms(3) by simp
  then have n: "0 < n" using assms(7) by (metis unat_0 word_gt_0 less_not_refl)
  have lo: "lo \<le> 2 ^ 53"
    using assms(1,4) pos by (metis One_nat_def Suc_leI le_trans less_imp_le_nat mult_le_mono1 nat_mult_1)
  have avg: "avg_latency w n = f64_round (of_nat total_ms / of_nat (length ls))"
    using n assms(4-7) by (simp add: avg_latency_def f64_div_def f64_of_nat_def f64_round_of_nat)
  have "(of_nat (length ls * lo) :: rat) \<le> of_nat total_ms" "(of_nat total_ms :: rat) \<le> of_nat (length ls * hi)"
    using assms(1,2) by (simp_all only: of_nat_le_iff)
  then have "(of_nat lo :: rat) \<le> of_nat total_ms / of_nat (length ls)"
      "(of_nat total_ms :: rat) / of_nat (length ls) \<le> of_nat hi"
    using pos by (simp_all add: field_simps)
  from this [THEN f64_round_mono] show ?thesis
    by (simp add: avg f64_round_of_nat [OF lo] f64_round_of_nat [OF assms(8)])
qed

section \<open>Properties\<close>

text \<open>
  C22. Conservation: after any sequence of recordings, closes, latencies and resets the per-address
  connection counters add up to the three global totals and the per-address failures to the failure
  total (as \<open>u64\<close>); when every recording names a server, so do the per-server counters, each
  with its own total. The snapshot shows these numbers.
\<close>

theorem metrics_conservation:
  assumes "c = fold metric_step ops metrics_new"
  shows "table_sum ipm_connections (cm_per_ip (metrics_snapshot c)) =
      cm_tcp_connections_total (metrics_snapshot c) + cm_tls_connections_total (metrics_snapshot c) +
      cm_mtls_connections_total (metrics_snapshot c) \<and>
    table_sum ipm_failures (cm_per_ip (metrics_snapshot c)) = cm_failed_connections (metrics_snapshot c) \<and>
    (list_all names_server ops \<longrightarrow>
      table_sum svm_tcp (cm_per_server (metrics_snapshot c)) = cm_tcp_connections_total (metrics_snapshot c) \<and>
      table_sum svm_tls (cm_per_server (metrics_snapshot c)) = cm_tls_connections_total (metrics_snapshot c) \<and>
      table_sum svm_mtls (cm_per_server (metrics_snapshot c)) = cm_mtls_connections_total (metrics_snapshot c) \<and>
      table_sum svm_failures (cm_per_server (metrics_snapshot c)) = cm_failed_connections (metrics_snapshot c))"
  using metric_steps_ip_sums [OF metrics_new_sums(1), of ops]
    metric_steps_server_sums [OF metrics_new_sums(2), of ops]
  by (simp add: assms metrics_snapshot_def ip_sums_def server_sums_def server_snapshot_def ip_snapshot_def
      table_sum_fmmap)

theorem metrics_conservation_witness:
  "table_sum svm_tcp (cm_per_server (metrics_snapshot
     (fold metric_step [RecordTcp (Some ''a'') (V4 1), RecordTcp (Some ''b'') (V4 1)] metrics_new))) =
   cm_tcp_connections_total (metrics_snapshot
     (fold metric_step [RecordTcp (Some ''a'') (V4 1), RecordTcp (Some ''b'') (V4 1)] metrics_new))"
  using metrics_conservation [OF refl, of "[RecordTcp (Some ''a'') (V4 1), RecordTcp (Some ''b'') (V4 1)]"]
  by (simp del: fold_simps)

text \<open>
  Activity is exact: when every close matches a recorded connection, the active counters, the
  global one and those of every address and every server, are the numbers of open connections, and a
  connection still counted keeps its address in the snapshot.
\<close>

theorem metrics_active_exact:
  assumes "mc_history c M"
  shows "unat (cm_active_connections (metrics_snapshot c)) = size M \<and>
    (\<forall>ip. unat (at_key ipm_active ip (cm_per_ip (metrics_snapshot c))) = active_of_ip M ip) \<and>
    (\<forall>name. unat (at_key svm_active name (cm_per_server (metrics_snapshot c))) = active_of_server M name)"
  using mc_history_rel [OF assms]
  by (simp add: mc_rel_def metrics_snapshot_def server_snapshot_def ip_snapshot_def at_key_fmmap)

theorem metrics_active_exact_witness:
  "unat (cm_active_connections (metrics_snapshot (metric_step (RecordClose None (V4 1))
     (metric_step (RecordTls None (V4 1)) (metric_step (RecordTcp (Some ''a'') (V4 1)) metrics_new))))) = 1"
proof -
  have "mc_history (metric_step (RecordTls None (V4 1)) (metric_step (RecordTcp (Some ''a'') (V4 1)) metrics_new))
      (add_mset (None, V4 1) (add_mset (Some ''a'', V4 1) {#}))"
    by (intro mc_history.opened mc_history.start) auto
  from metrics_active_exact [OF mc_history.closed [OF this, of None "V4 1"]] show ?thesis by simp
qed

text \<open>
  Latency statistics: after recording any non-empty list of latencies whose sum is below
  \<open>2 ^ 53\<close>, the minimum and maximum of the snapshot are those of the list, and the average, with
  the rounding of binary64, lies between them.
\<close>

theorem metrics_latency_bounds:
  assumes "ls \<noteq> []" "sum_list (map unat ls) < 2 ^ 53" "length ls < 2 ^ 53"
    and "s = metrics_snapshot (fold (\<lambda>l. metric_step (RecordLatency server ip l)) ls metrics_new)"
  shows "cm_min_latency_ms s = Min (set ls) \<and> cm_max_latency_ms s = Max (set ls) \<and>
    of_nat (unat (cm_min_latency_ms s)) \<le> cm_avg_latency_ms s \<and>
    cm_avg_latency_ms s \<le> of_nat (unat (cm_max_latency_ms s))"
proof -
  define c where "c = fold (\<lambda>l. metric_step (RecordLatency server ip l)) ls metrics_new"
  note run = latency_run [OF c_def assms(2,3)]
  have each: "unat l \<le> sum_list (map unat ls)" if "l \<in> set ls" for l
    using that by (auto intro: member_le_sum_list)
  have "l \<noteq> u64_max" if "l \<in> set ls" for l
    using each [OF that] assms(2) by (auto simp: unat_u64_max)
  moreover have "l \<le> u64_max" for l by (simp add: u64_max_def)
  ultimately have min_l: "Min (insert u64_max (set ls)) = Min (set ls)" "Min (set ls) \<noteq> u64_max"
    using assms(1) by (auto simp: Min_insert min_absorb2 intro: Min_in)
  have max_l: "Max (insert 0 (set ls)) = Max (set ls)"
    using assms(1) by (simp add: Max_insert max_absorb2)
  have in_ls: "Min (set ls) \<in> set ls" "Max (set ls) \<in> set ls" using assms(1) by simp_all
  have "\<forall>x \<in> set (map unat ls). unat (Min (set ls)) \<le> x \<and> x \<le> unat (Max (set ls))"
    by (auto simp flip: word_le_nat_alt)
  from sum_list_bounds [OF this]
  have "of_nat (unat (Min (set ls))) \<le> avg_latency (mc_latency_sum_ms c) (mc_latency_count c) \<and>
      avg_latency (mc_latency_sum_ms c) (mc_latency_count c) \<le> of_nat (unat (Max (set ls)))"
    using run each [OF in_ls(2)] assms(1-3) by (intro avg_latency_bounds [of ls _ "sum_list (map unat ls)"]) simp_all
  then show ?thesis
    using run min_l max_l by (simp add: assms(4) metrics_snapshot_def flip: c_def)
qed

theorem metrics_latency_bounds_witness:
  "cm_max_latency_ms (metrics_snapshot
     (fold (\<lambda>l. metric_step (RecordLatency None (V4 1) l)) [3, 10, 4] metrics_new)) = Max (set [3, 10, 4])"
  using metrics_latency_bounds [of "[3, 10, 4]" _ None "V4 1", OF _ _ _ refl] by simp

text \<open>
  A reset gives the snapshot of a new collector and keeps the callbacks; a close after it finds
  nothing to decrement.
\<close>

theorem metrics_reset_fresh:
  "metrics_snapshot (metrics_reset c) = metrics_snapshot metrics_new \<and>
   mc_callbacks (metrics_reset c) = mc_callbacks c \<and>
   record_connection_close server ip (metrics_reset c) = metrics_reset c"
  by (cases c) (simp add: metrics_snapshot_def metrics_reset_def metrics_new_def record_connection_close_def
      saturating_dec_def modify_def for_server_def split: option.splits)

end
