(* ===== verification/Metrics_Concurrent.thy ===== *)
theory Metrics_Concurrent
  imports Metrics "HOL-Library.Sublist"
begin

text \<open>
  The metrics under concurrency (src/src/metrics.rs): every recording, the close, the latencies and the
  reset cut into the parts that are atomic in the code (one atomic counter, what is done under one
  lock), every interleaving of the parts of any number of calls, and a snapshot that is taken while
  they run: it locks the two tables for its whole length and reads the other fields one by one.
\<close>

section \<open>The parts of a call\<close>

datatype conn_kind = TcpConn | TlsConn | MtlsConn

datatype metric_part =
    AddTotal conn_kind
  | AddActive
  | ServerOpened conn_kind string
  | IpOpened ip_addr
  | AddFailed
  | ServerFailed string
  | IpFailed ip_addr
  | SubActive
  | ServerClosed string
  | IpClosed ip_addr
  | AddLatencySum u64
  | AddLatencyCount
  | LowerMin u64
  | RaiseMax u64
  | ServerLatency string u64
  | IpLatency ip_addr u64
  | StoreTotal conn_kind
  | StoreFailed
  | StoreActive
  | StoreLatencySum
  | StoreLatencyCount
  | StoreMin
  | StoreMax
  | ClearServers
  | ClearIps

fun add_total :: "conn_kind \<Rightarrow> metrics_collector \<Rightarrow> metrics_collector" where
  "add_total TcpConn c = c\<lparr>mc_tcp_total := mc_tcp_total c + 1\<rparr>"
| "add_total TlsConn c = c\<lparr>mc_tls_total := mc_tls_total c + 1\<rparr>"
| "add_total MtlsConn c = c\<lparr>mc_mtls_total := mc_mtls_total c + 1\<rparr>"

fun store_total :: "conn_kind \<Rightarrow> metrics_collector \<Rightarrow> metrics_collector" where
  "store_total TcpConn c = c\<lparr>mc_tcp_total := 0\<rparr>"
| "store_total TlsConn c = c\<lparr>mc_tls_total := 0\<rparr>"
| "store_total MtlsConn c = c\<lparr>mc_mtls_total := 0\<rparr>"

text \<open>The three recordings write out the same update of the server table, each with its own counter.\<close>

fun open_at_server ::
    "conn_kind \<Rightarrow> string \<Rightarrow> (string, per_server_metrics) fmap \<Rightarrow> (string, per_server_metrics) fmap" where
  "open_at_server TcpConn name = upsert name
     (\<lambda>m. m\<lparr>psm_tcp := psm_tcp m + 1, psm_active := psm_active m + 1\<rparr>) (psm_zero\<lparr>psm_tcp := 1, psm_active := 1\<rparr>)"
| "open_at_server TlsConn name = upsert name
     (\<lambda>m. m\<lparr>psm_tls := psm_tls m + 1, psm_active := psm_active m + 1\<rparr>) (psm_zero\<lparr>psm_tls := 1, psm_active := 1\<rparr>)"
| "open_at_server MtlsConn name = upsert name
     (\<lambda>m. m\<lparr>psm_mtls := psm_mtls m + 1, psm_active := psm_active m + 1\<rparr>) (psm_zero\<lparr>psm_mtls := 1, psm_active := 1\<rparr>)"

fun part_step :: "metric_part \<Rightarrow> metrics_collector \<Rightarrow> metrics_collector" where
  "part_step (AddTotal kind) c = add_total kind c"
| "part_step AddActive c = c\<lparr>mc_active := mc_active c + 1\<rparr>"
| "part_step (ServerOpened kind name) c = c\<lparr>mc_per_server := open_at_server kind name (mc_per_server c)\<rparr>"
| "part_step (IpOpened ip) c = c\<lparr>mc_per_ip := count_peer ip (mc_per_ip c)\<rparr>"
| "part_step AddFailed c = c\<lparr>mc_failed := mc_failed c + 1\<rparr>"
| "part_step (ServerFailed name) c = c\<lparr>mc_per_server := upsert name
     (\<lambda>m. m\<lparr>psm_failures := psm_failures m + 1\<rparr>) (psm_zero\<lparr>psm_failures := 1\<rparr>) (mc_per_server c)\<rparr>"
| "part_step (IpFailed ip) c = c\<lparr>mc_per_ip := upsert ip
     (\<lambda>m. m\<lparr>pim_failures := pim_failures m + 1\<rparr>) (pim_zero\<lparr>pim_failures := 1\<rparr>) (mc_per_ip c)\<rparr>"
| "part_step SubActive c = c\<lparr>mc_active := saturating_dec (mc_active c)\<rparr>"
| "part_step (ServerClosed name) c = c\<lparr>mc_per_server :=
     modify name (\<lambda>m. m\<lparr>psm_active := saturating_dec (psm_active m)\<rparr>) (mc_per_server c)\<rparr>"
| "part_step (IpClosed ip) c = c\<lparr>mc_per_ip :=
     modify ip (\<lambda>m. m\<lparr>pim_active := saturating_dec (pim_active m)\<rparr>) (mc_per_ip c)\<rparr>"
| "part_step (AddLatencySum ms) c = c\<lparr>mc_latency_sum_ms := mc_latency_sum_ms c + ms\<rparr>"
| "part_step AddLatencyCount c = c\<lparr>mc_latency_count := mc_latency_count c + 1\<rparr>"
| "part_step (LowerMin ms) c =
     c\<lparr>mc_min_latency_ms := (if ms < mc_min_latency_ms c then ms else mc_min_latency_ms c)\<rparr>"
| "part_step (RaiseMax ms) c =
     c\<lparr>mc_max_latency_ms := (if mc_max_latency_ms c < ms then ms else mc_max_latency_ms c)\<rparr>"
| "part_step (ServerLatency name ms) c = c\<lparr>mc_per_server := modify name (\<lambda>m.
     m\<lparr>psm_latency_sum_ms := psm_latency_sum_ms m + ms, psm_latency_count := psm_latency_count m + 1\<rparr>)
     (mc_per_server c)\<rparr>"
| "part_step (IpLatency ip ms) c = c\<lparr>mc_per_ip := modify ip (\<lambda>m.
     m\<lparr>pim_latency_sum_ms := pim_latency_sum_ms m + ms, pim_latency_count := pim_latency_count m + 1\<rparr>)
     (mc_per_ip c)\<rparr>"
| "part_step (StoreTotal kind) c = store_total kind c"
| "part_step StoreFailed c = c\<lparr>mc_failed := 0\<rparr>"
| "part_step StoreActive c = c\<lparr>mc_active := 0\<rparr>"
| "part_step StoreLatencySum c = c\<lparr>mc_latency_sum_ms := 0\<rparr>"
| "part_step StoreLatencyCount c = c\<lparr>mc_latency_count := 0\<rparr>"
| "part_step StoreMin c = c\<lparr>mc_min_latency_ms := u64_max\<rparr>"
| "part_step StoreMax c = c\<lparr>mc_max_latency_ms := 0\<rparr>"
| "part_step ClearServers c = c\<lparr>mc_per_server := fmempty\<rparr>"
| "part_step ClearIps c = c\<lparr>mc_per_ip := fmempty\<rparr>"

text \<open>The calls as the parts they are made of, in the order of the code.\<close>

definition server_part :: "(string \<Rightarrow> metric_part) \<Rightarrow> string option \<Rightarrow> metric_part list" where
  "server_part f server = (case server of None \<Rightarrow> [] | Some name \<Rightarrow> [f name])"

definition open_parts :: "conn_kind \<Rightarrow> string option \<Rightarrow> ip_addr \<Rightarrow> metric_part list" where
  "open_parts kind server ip =
     [AddTotal kind, AddActive] @ server_part (ServerOpened kind) server @ [IpOpened ip]"

definition failure_parts :: "string option \<Rightarrow> ip_addr \<Rightarrow> metric_part list" where
  "failure_parts server ip = AddFailed # server_part ServerFailed server @ [IpFailed ip]"

definition close_parts :: "string option \<Rightarrow> ip_addr \<Rightarrow> metric_part list" where
  "close_parts server ip = SubActive # server_part ServerClosed server @ [IpClosed ip]"

definition latency_parts :: "string option \<Rightarrow> ip_addr \<Rightarrow> u64 \<Rightarrow> metric_part list" where
  "latency_parts server ip ms =
     [AddLatencySum ms, AddLatencyCount, LowerMin ms, RaiseMax ms] @
     server_part (\<lambda>name. ServerLatency name ms) server @ [IpLatency ip ms]"

definition reset_parts :: "metric_part list" where
  "reset_parts =
     [StoreTotal TcpConn, StoreTotal TlsConn, StoreTotal MtlsConn, StoreFailed, StoreActive,
      StoreLatencySum, StoreLatencyCount, StoreMin, StoreMax, ClearServers, ClearIps]"

fun metric_parts :: "metric_op \<Rightarrow> metric_part list" where
  "metric_parts (RecordTcp server ip) = open_parts TcpConn server ip"
| "metric_parts (RecordTls server ip) = open_parts TlsConn server ip"
| "metric_parts (RecordMtls server ip) = open_parts MtlsConn server ip"
| "metric_parts (RecordFailure server ip) = failure_parts server ip"
| "metric_parts (RecordClose server ip) = close_parts server ip"
| "metric_parts (RecordLatency server ip ms) = latency_parts server ip ms"
| "metric_parts ResetMetrics = reset_parts"

lemmas parts_defs = server_part_def open_parts_def failure_parts_def close_parts_def latency_parts_def reset_parts_def

text \<open>A call whose parts are not interrupted is the sequential one.\<close>

lemma metric_parts_run: "fold part_step (metric_parts op) c = metric_step op c"
  by (cases op) (simp_all add: parts_defs metric_defs split: option.split)

section \<open>Every interleaving\<close>

text \<open>
  The calls in progress, each as the parts that are still to come. A connection is recorded and closed
  by the thread that serves it: its entry is the recording followed by the close, and the connection
  is open while exactly the close is left. There are never as many calls and connections as a
  \<open>u64\<close> can count. A call can take no step under a lock that is held.
\<close>

type_synonym metric_pool = "metric_part list multiset"

datatype metrics_table = ServerTable | IpTable

fun part_tables :: "metric_part \<Rightarrow> metrics_table set" where
  "part_tables (ServerOpened kind name) = {ServerTable}"
| "part_tables (ServerFailed name) = {ServerTable}"
| "part_tables (ServerClosed name) = {ServerTable}"
| "part_tables (ServerLatency name ms) = {ServerTable}"
| "part_tables ClearServers = {ServerTable}"
| "part_tables (IpOpened ip) = {IpTable}"
| "part_tables (IpFailed ip) = {IpTable}"
| "part_tables (IpClosed ip) = {IpTable}"
| "part_tables (IpLatency ip ms) = {IpTable}"
| "part_tables ClearIps = {IpTable}"
| "part_tables p = {}"

inductive mc_call :: "metric_part list \<Rightarrow> bool" where
  connection: "mc_call (open_parts kind server ip @ close_parts server ip)"
| failure: "mc_call (failure_parts server ip)"
| latency: "mc_call (latency_parts server ip ms)"

inductive mc_move ::
    "metrics_table set \<Rightarrow> metrics_collector \<Rightarrow> metric_pool \<Rightarrow> metrics_collector \<Rightarrow> metric_pool \<Rightarrow> bool"
  for held :: "metrics_table set" where
  call: "mc_call ps \<Longrightarrow> size M + 1 < 2 ^ 64 \<Longrightarrow> mc_move held c M c (add_mset ps M)"
| part: "part_tables p \<inter> held = {} \<Longrightarrow>
    mc_move held c (add_mset (p # ps) M) (part_step p c) (add_mset ps M)"
| returned: "mc_move held c (add_mset [] M) c M"

inductive mc_concurrent :: "metrics_collector \<Rightarrow> metric_pool \<Rightarrow> bool" where
  start: "mc_concurrent metrics_new {#}"
| move: "mc_concurrent c M \<Longrightarrow> mc_move {} c M c' M' \<Longrightarrow> mc_concurrent c' M'"

lemma mc_move_unlocked: "mc_move held c M c' M' \<Longrightarrow> mc_move {} c M c' M'"
  by (auto elim!: mc_move.cases intro: mc_move.intros)

text \<open>What an entry of the pool has already been counted in.\<close>

fun counts_total :: "metric_part \<Rightarrow> bool" where
  "counts_total (AddTotal kind) = True"
| "counts_total p = False"

fun lists_ip :: "metric_part \<Rightarrow> bool" where
  "lists_ip (IpOpened ip) = True"
| "lists_ip p = False"

fun lists_failure :: "metric_part \<Rightarrow> bool" where
  "lists_failure (IpFailed ip) = True"
| "lists_failure p = False"

fun opens_at :: "string \<Rightarrow> metric_part \<Rightarrow> bool" where
  "opens_at name (ServerOpened kind name') = (name' = name)"
| "opens_at name p = False"

definition is_active :: "metric_part list \<Rightarrow> bool" where
  "is_active ps \<longleftrightarrow> AddActive \<notin> set ps \<and> SubActive \<in> set ps"

definition active_at_ip :: "ip_addr \<Rightarrow> metric_part list \<Rightarrow> bool" where
  "active_at_ip ip ps \<longleftrightarrow> IpOpened ip \<notin> set ps \<and> IpClosed ip \<in> set ps"

definition active_at_server :: "string \<Rightarrow> metric_part list \<Rightarrow> bool" where
  "active_at_server name ps \<longleftrightarrow> \<not> list_ex (opens_at name) ps \<and> ServerClosed name \<in> set ps"

definition unlisted :: "metric_part list \<Rightarrow> bool" where
  "unlisted ps \<longleftrightarrow> \<not> list_ex counts_total ps \<and> list_ex lists_ip ps"

definition unlisted_failure :: "metric_part list \<Rightarrow> bool" where
  "unlisted_failure ps \<longleftrightarrow> AddFailed \<notin> set ps \<and> list_ex lists_failure ps"

definition pool_count :: "(metric_part list \<Rightarrow> bool) \<Rightarrow> metric_pool \<Rightarrow> nat" where
  "pool_count P M = size (filter_mset P M)"

lemma pool_count_simps [simp]:
  "pool_count P {#} = 0"
  "pool_count P (add_mset ps M) = of_bool (P ps) + pool_count P M"
  by (simp_all add: pool_count_def)

lemma pool_count_le: "pool_count P M \<le> size M"
  by (simp add: pool_count_def size_filter_mset_lesseq)

lemmas flag_defs = is_active_def active_at_ip_def active_at_server_def unlisted_def unlisted_failure_def

definition mc_entry :: "metric_part list \<Rightarrow> bool" where
  "mc_entry ps \<longleftrightarrow> (\<exists>qs. mc_call qs \<and> suffix ps qs)"

lemma mc_call_entry: "mc_call ps \<Longrightarrow> mc_entry ps"
  by (auto simp: mc_entry_def)

lemma mc_entry_tl: "mc_entry (p # ps) \<Longrightarrow> mc_entry ps"
  by (auto simp: mc_entry_def dest: suffix_ConsD)

text \<open>A call that has not begun is counted nowhere, one that is over neither.\<close>

lemma fresh_flags:
  assumes "mc_call ps"
  shows "\<not> is_active ps \<and> \<not> active_at_ip ip ps \<and> \<not> active_at_server name ps \<and> \<not> unlisted ps \<and>
    \<not> unlisted_failure ps"
  using assms by cases (auto simp: flag_defs parts_defs split: option.splits)

lemma over_flags [simp]:
  "\<not> is_active []" "\<not> active_at_ip ip []" "\<not> active_at_server name []" "\<not> unlisted []" "\<not> unlisted_failure []"
  by (simp_all add: flag_defs)

text \<open>How a part changes where its call is counted.\<close>

lemma entry_active:
  assumes "mc_entry (p # ps)"
  shows "is_active ps \<longleftrightarrow> p = AddActive \<or> is_active (p # ps) \<and> p \<noteq> SubActive"
    "p = SubActive \<Longrightarrow> is_active (p # ps)" "p = AddActive \<Longrightarrow> \<not> is_active (p # ps)"
  using assms by (auto simp: mc_entry_def flag_defs parts_defs suffix_Cons elim!: mc_call.cases split: option.splits)

lemma entry_ip:
  assumes "mc_entry (p # ps)"
  shows "active_at_ip ip ps \<longleftrightarrow> p = IpOpened ip \<or> active_at_ip ip (p # ps) \<and> p \<noteq> IpClosed ip"
    "p = IpClosed ip \<Longrightarrow> active_at_ip ip (p # ps)" "p = IpOpened ip \<Longrightarrow> \<not> active_at_ip ip (p # ps)"
  using assms by (auto simp: mc_entry_def flag_defs parts_defs suffix_Cons elim!: mc_call.cases split: option.splits)

lemma entry_server:
  assumes "mc_entry (p # ps)"
  shows "active_at_server name ps \<longleftrightarrow> opens_at name p \<or> active_at_server name (p # ps) \<and> p \<noteq> ServerClosed name"
    "p = ServerClosed name \<Longrightarrow> active_at_server name (p # ps)"
    "opens_at name p \<Longrightarrow> \<not> active_at_server name (p # ps)"
  using assms by (auto simp: mc_entry_def flag_defs parts_defs suffix_Cons elim!: mc_call.cases split: option.splits)

lemma entry_listed:
  assumes "mc_entry (p # ps)"
  shows "unlisted ps \<longleftrightarrow> counts_total p \<or> unlisted (p # ps) \<and> \<not> lists_ip p"
    "lists_ip p \<Longrightarrow> unlisted (p # ps)" "counts_total p \<Longrightarrow> \<not> unlisted (p # ps)"
    "unlisted_failure ps \<longleftrightarrow> p = AddFailed \<or> unlisted_failure (p # ps) \<and> \<not> lists_failure p"
    "lists_failure p \<Longrightarrow> unlisted_failure (p # ps)" "p = AddFailed \<Longrightarrow> \<not> unlisted_failure (p # ps)"
  using assms by (auto simp: mc_entry_def flag_defs parts_defs suffix_Cons elim!: mc_call.cases split: option.splits)

section \<open>The invariant\<close>

definition all_totals :: "metrics_collector \<Rightarrow> u64" where
  "all_totals c = mc_tcp_total c + mc_tls_total c + mc_mtls_total c"

definition pool_inv :: "metrics_collector \<Rightarrow> metric_pool \<Rightarrow> bool" where
  "pool_inv c M \<longleftrightarrow> size M < 2 ^ 64 \<and> (\<forall>ps \<in># M. mc_entry ps) \<and>
     unat (mc_active c) = pool_count is_active M \<and>
     (\<forall>ip. unat (at_key pim_active ip (mc_per_ip c)) = pool_count (active_at_ip ip) M) \<and>
     (\<forall>name. unat (at_key psm_active name (mc_per_server c)) = pool_count (active_at_server name) M) \<and>
     table_sum pim_connections (mc_per_ip c) + of_nat (pool_count unlisted M) = all_totals c \<and>
     table_sum pim_failures (mc_per_ip c) + of_nat (pool_count unlisted_failure M) = mc_failed c"

lemma add_total_fields [simp]:
  "mc_active (add_total k c) = mc_active c" "mc_per_ip (add_total k c) = mc_per_ip c"
  "mc_per_server (add_total k c) = mc_per_server c" "mc_failed (add_total k c) = mc_failed c"
  "all_totals (add_total k c) = all_totals c + 1"
  by (cases k; simp add: all_totals_def)+

lemma open_at_server_active:
  "at_key psm_active n (open_at_server k name m) = at_key psm_active n m + of_bool (name = n)"
  by (cases k) (simp_all add: at_key_upsert [where d = 1] psm_zero_def)

text \<open>The fields a part changes, and by how much; the parts of a reset are no part of the calls here.\<close>

lemma entry_no_store:
  assumes "mc_entry (p # ps)"
  shows "p \<notin> set reset_parts"
  using assms by (auto simp: mc_entry_def parts_defs suffix_Cons elim!: mc_call.cases split: option.splits)

lemma store_total_is_store [simp]: "StoreTotal k \<in> set reset_parts"
  by (cases k) (simp_all add: reset_parts_def)

lemma is_store [simp]:
  "StoreFailed \<in> set reset_parts" "StoreActive \<in> set reset_parts" "StoreLatencySum \<in> set reset_parts"
  "StoreLatencyCount \<in> set reset_parts" "StoreMin \<in> set reset_parts" "StoreMax \<in> set reset_parts"
  "ClearServers \<in> set reset_parts" "ClearIps \<in> set reset_parts"
  by (simp_all add: reset_parts_def)

definition counted :: "bool \<Rightarrow> bool \<Rightarrow> u64 \<Rightarrow> u64" where
  "counted up down w = (if up then w + 1 else if down then saturating_dec w else w)"

lemma counted_cases [simp]:
  "counted True down w = w + 1" "counted False True w = saturating_dec w" "counted False False w = w"
  by (simp_all add: counted_def)

lemma part_active:
  "p \<notin> set reset_parts \<Longrightarrow> mc_active (part_step p c) = counted (p = AddActive) (p = SubActive) (mc_active c)"
  by (cases p) simp_all

lemma part_ip:
  "p \<notin> set reset_parts \<Longrightarrow> at_key pim_active ip (mc_per_ip (part_step p c)) =
     counted (p = IpOpened ip) (p = IpClosed ip) (at_key pim_active ip (mc_per_ip c))"
  by (cases p) (simp_all add: counted_def count_peer_def pim_zero_def at_key_upsert [where d = 1]
      at_key_upsert [where d = 0] at_key_modify_dec at_key_modify0)

lemma part_server:
  "p \<notin> set reset_parts \<Longrightarrow> at_key psm_active name (mc_per_server (part_step p c)) =
     counted (opens_at name p) (p = ServerClosed name) (at_key psm_active name (mc_per_server c))"
  by (cases p) (simp_all add: counted_def open_at_server_active psm_zero_def at_key_upsert [where d = 0]
      at_key_modify_dec at_key_modify0)

text \<open>A counter that counts the entries with a property goes on counting them.\<close>

lemma counted_pool:
  assumes "unat w = pool_count P (add_mset (p # ps) M)" "size M + 1 < 2 ^ 64"
    and "P ps \<longleftrightarrow> up \<or> P (p # ps) \<and> \<not> down" "down \<Longrightarrow> P (p # ps)" "up \<Longrightarrow> \<not> P (p # ps)"
  shows "unat (counted up down w) = pool_count P (add_mset ps M)"
proof (cases up)
  case True
  then have "unat w = pool_count P M" using assms(1,5) by simp
  moreover have "unat w + 1 < 2 ^ 64" using calculation pool_count_le [of P M] assms(2) by linarith
  ultimately show ?thesis using True assms(3) by (simp add: unat_succ64)
next
  case False
  then show ?thesis using assms(1,3,4) by (cases down) (simp_all add: unat_saturating_dec)
qed

lemma all_totals_other [simp]:
  "all_totals (c\<lparr>mc_active := a\<rparr>) = all_totals c" "all_totals (c\<lparr>mc_failed := a\<rparr>) = all_totals c"
  "all_totals (c\<lparr>mc_per_server := s\<rparr>) = all_totals c" "all_totals (c\<lparr>mc_per_ip := t\<rparr>) = all_totals c"
  "all_totals (c\<lparr>mc_latency_sum_ms := a\<rparr>) = all_totals c" "all_totals (c\<lparr>mc_latency_count := a\<rparr>) = all_totals c"
  "all_totals (c\<lparr>mc_min_latency_ms := a\<rparr>) = all_totals c" "all_totals (c\<lparr>mc_max_latency_ms := a\<rparr>) = all_totals c"
  by (simp_all add: all_totals_def)

lemma part_totals:
  "p \<notin> set reset_parts \<Longrightarrow> all_totals (part_step p c) = all_totals c + of_bool (counts_total p)"
  by (cases p) simp_all

lemma part_failed:
  "p \<notin> set reset_parts \<Longrightarrow> mc_failed (part_step p c) = mc_failed c + of_bool (p = AddFailed)"
  by (cases p) simp_all

lemma part_ip_connections:
  "p \<notin> set reset_parts \<Longrightarrow> table_sum pim_connections (mc_per_ip (part_step p c)) =
     table_sum pim_connections (mc_per_ip c) + of_bool (lists_ip p)"
  by (cases p) (simp_all add: count_peer_def pim_zero_def table_sums)

lemma part_ip_failures:
  "p \<notin> set reset_parts \<Longrightarrow> table_sum pim_failures (mc_per_ip (part_step p c)) =
     table_sum pim_failures (mc_per_ip c) + of_bool (lists_failure p)"
  by (cases p) (simp_all add: count_peer_def pim_zero_def table_sums)

text \<open>A sum that lags behind a counter by the entries with a property goes on doing so.\<close>

lemma summed_pool:
  assumes "x + of_nat (pool_count P (add_mset (p # ps) M)) = (y :: u64)"
    and "P ps \<longleftrightarrow> up \<or> P (p # ps) \<and> \<not> down" "down \<Longrightarrow> P (p # ps)" "up \<Longrightarrow> \<not> P (p # ps)"
  shows "x + of_bool down + of_nat (pool_count P (add_mset ps M)) = y + of_bool up"
  using assms by (cases up; cases down) (auto simp: algebra_simps)

lemma pool_inv_part:
  assumes inv: "pool_inv c (add_mset (p # ps) M)"
  shows "pool_inv (part_step p c) (add_mset ps M)"
proof -
  have e: "mc_entry (p # ps)" and m: "size M + 1 < 2 ^ 64" using inv by (simp_all add: pool_inv_def)
  note p = entry_no_store [OF e]
  have act: "unat (mc_active c) = pool_count is_active (add_mset (p # ps) M)"
    "unat (at_key pim_active ip (mc_per_ip c)) = pool_count (active_at_ip ip) (add_mset (p # ps) M)"
    "unat (at_key psm_active name (mc_per_server c)) = pool_count (active_at_server name) (add_mset (p # ps) M)"
    for ip name using inv unfolding pool_inv_def by blast+
  have "unat (mc_active (part_step p c)) = pool_count is_active (add_mset ps M)"
    "unat (at_key pim_active ip (mc_per_ip (part_step p c))) = pool_count (active_at_ip ip) (add_mset ps M)"
    "unat (at_key psm_active name (mc_per_server (part_step p c))) = pool_count (active_at_server name) (add_mset ps M)"
    for ip name
    using counted_pool [OF act(1) m entry_active [OF e]] counted_pool [OF act(2) m entry_ip [OF e]]
      counted_pool [OF act(3) m entry_server [OF e]]
    by (simp_all only: part_active [OF p] part_ip [OF p] part_server [OF p])
  moreover have "table_sum pim_connections (mc_per_ip (part_step p c)) + of_nat (pool_count unlisted (add_mset ps M)) =
      all_totals (part_step p c)"
    using inv unfolding part_ip_connections [OF p] part_totals [OF p] pool_inv_def
    by (intro summed_pool [OF _ entry_listed(1-3) [OF e]]) blast
  moreover have "table_sum pim_failures (mc_per_ip (part_step p c)) +
      of_nat (pool_count unlisted_failure (add_mset ps M)) = mc_failed (part_step p c)"
    using inv unfolding part_ip_failures [OF p] part_failed [OF p] pool_inv_def
    by (intro summed_pool [OF _ entry_listed(4-6) [OF e]]) blast
  ultimately show ?thesis using inv mc_entry_tl [OF e] by (simp add: pool_inv_def)
qed

lemma pool_inv_move: "mc_move held c M c' M' \<Longrightarrow> pool_inv c M \<Longrightarrow> pool_inv c' M'"
proof (induction rule: mc_move.induct)
  case (call ps M c)
  then show ?case using fresh_flags [OF call(1)] mc_call_entry [OF call(1)] by (auto simp: pool_inv_def)
next
  case (part p c ps M)
  then show ?case by (blast intro: pool_inv_part)
next
  case (returned c M)
  then show ?case by (simp add: pool_inv_def)
qed

lemma mc_concurrent_inv: "mc_concurrent c M \<Longrightarrow> pool_inv c M"
proof (induction rule: mc_concurrent.induct)
  case start
  show ?case by (simp add: pool_inv_def metrics_new_def all_totals_def at_key_def)
qed (blast intro: pool_inv_move)

text \<open>Nobody in a call: each entry is a connection that is open.\<close>

definition open_pool :: "(string option \<times> ip_addr) multiset \<Rightarrow> metric_pool" where
  "open_pool conns = image_mset (\<lambda>(server, ip). close_parts server ip) conns"

lemma close_flags [simp]:
  "is_active (close_parts server ip)" "active_at_ip i (close_parts server ip) \<longleftrightarrow> ip = i"
  "active_at_server n (close_parts server ip) \<longleftrightarrow> server = Some n"
  "\<not> unlisted (close_parts server ip)" "\<not> unlisted_failure (close_parts server ip)"
  by (auto simp: flag_defs parts_defs split: option.splits)

lemma open_pool_counts:
  "pool_count is_active (open_pool conns) = size conns"
  "pool_count (active_at_ip ip) (open_pool conns) = active_of_ip conns ip"
  "pool_count (active_at_server name) (open_pool conns) = active_of_server conns name"
  "pool_count unlisted (open_pool conns) = 0" "pool_count unlisted_failure (open_pool conns) = 0"
  by (induction conns; auto simp: open_pool_def active_of_ip_def active_of_server_def)+

section \<open>A snapshot among the calls\<close>

text \<open>
  The reads of \<open>snapshot\<close>, in its order: the server table, locked until the end, the address table,
  locked until the end, and the other fields. What has been read is kept in a collector; the values of
  the snapshot are computed from it.
\<close>

datatype snapshot_read =
    ReadServers
  | ReadIps
  | ReadLatencyCount
  | ReadLatencySum
  | ReadMin
  | ReadMax
  | ReadTotal conn_kind
  | ReadFailed
  | ReadActive

definition snapshot_reads :: "snapshot_read list" where
  "snapshot_reads =
     [ReadServers, ReadIps, ReadLatencyCount, ReadLatencySum, ReadMin, ReadMax,
      ReadTotal TcpConn, ReadTotal TlsConn, ReadTotal MtlsConn, ReadFailed, ReadActive]"

fun read_total :: "conn_kind \<Rightarrow> metrics_collector \<Rightarrow> metrics_collector \<Rightarrow> metrics_collector" where
  "read_total TcpConn c r = r\<lparr>mc_tcp_total := mc_tcp_total c\<rparr>"
| "read_total TlsConn c r = r\<lparr>mc_tls_total := mc_tls_total c\<rparr>"
| "read_total MtlsConn c r = r\<lparr>mc_mtls_total := mc_mtls_total c\<rparr>"

fun read_step :: "snapshot_read \<Rightarrow> metrics_collector \<Rightarrow> metrics_collector \<Rightarrow> metrics_collector" where
  "read_step ReadServers c r = r\<lparr>mc_per_server := mc_per_server c\<rparr>"
| "read_step ReadIps c r = r\<lparr>mc_per_ip := mc_per_ip c\<rparr>"
| "read_step ReadLatencyCount c r = r\<lparr>mc_latency_count := mc_latency_count c\<rparr>"
| "read_step ReadLatencySum c r = r\<lparr>mc_latency_sum_ms := mc_latency_sum_ms c\<rparr>"
| "read_step ReadMin c r = r\<lparr>mc_min_latency_ms := mc_min_latency_ms c\<rparr>"
| "read_step ReadMax c r = r\<lparr>mc_max_latency_ms := mc_max_latency_ms c\<rparr>"
| "read_step (ReadTotal kind) c r = read_total kind c r"
| "read_step ReadFailed c r = r\<lparr>mc_failed := mc_failed c\<rparr>"
| "read_step ReadActive c r = r\<lparr>mc_active := mc_active c\<rparr>"

text \<open>Undisturbed, the reads give the snapshot of the collector.\<close>

lemma snapshot_reads_run:
  "metrics_snapshot (fold (\<lambda>p. read_step p c) snapshot_reads r) = metrics_snapshot c"
  by (simp add: snapshot_reads_def metrics_snapshot_def)

definition snapshot_locks :: "snapshot_read list \<Rightarrow> metrics_table set" where
  "snapshot_locks rs =
     (if ReadServers \<in> set rs then {} else {ServerTable}) \<union> (if ReadIps \<in> set rs then {} else {IpTable})"

text \<open>
  A snapshot in progress: the reads still to come and what has been read. Another snapshot at the same
  time would only hold locks and keep some of the moves from being taken.
\<close>

inductive mc_snapshotting ::
    "metrics_collector \<Rightarrow> metric_pool \<Rightarrow> snapshot_read list \<Rightarrow> metrics_collector \<Rightarrow> bool" where
  called: "mc_concurrent c M \<Longrightarrow> mc_snapshotting c M snapshot_reads metrics_new"
| read: "mc_snapshotting c M (p # rs) r \<Longrightarrow> mc_snapshotting c M rs (read_step p c r)"
| move: "mc_snapshotting c M rs r \<Longrightarrow> mc_move (snapshot_locks rs) c M c' M' \<Longrightarrow> mc_snapshotting c' M' rs r"

lemma mc_snapshotting_concurrent: "mc_snapshotting c M rs r \<Longrightarrow> mc_concurrent c M"
  by (induction rule: mc_snapshotting.induct) (blast intro: mc_concurrent.move mc_move_unlocked)+

text \<open>
  What the snapshot shows of a counter: what it has read, or what it would read now. Behind the counter
  by at most the entries with a property.
\<close>

fun kind_total :: "conn_kind \<Rightarrow> metrics_collector \<Rightarrow> u64" where
  "kind_total TcpConn c = mc_tcp_total c"
| "kind_total TlsConn c = mc_tls_total c"
| "kind_total MtlsConn c = mc_mtls_total c"

definition seen_total :: "snapshot_read list \<Rightarrow> metrics_collector \<Rightarrow> metrics_collector \<Rightarrow> conn_kind \<Rightarrow> u64" where
  "seen_total rs r c kind = kind_total kind (if ReadTotal kind \<in> set rs then c else r)"

definition seen_totals :: "snapshot_read list \<Rightarrow> metrics_collector \<Rightarrow> metrics_collector \<Rightarrow> u64" where
  "seen_totals rs r c = seen_total rs r c TcpConn + seen_total rs r c TlsConn + seen_total rs r c MtlsConn"

definition seen_failed :: "snapshot_read list \<Rightarrow> metrics_collector \<Rightarrow> metrics_collector \<Rightarrow> u64" where
  "seen_failed rs r c = mc_failed (if ReadFailed \<in> set rs then c else r)"

definition behind :: "u64 \<Rightarrow> u64 \<Rightarrow> (metric_part list \<Rightarrow> bool) \<Rightarrow> metric_pool \<Rightarrow> bool" where
  "behind x y P M \<longleftrightarrow> (\<exists>k \<le> pool_count P M. x + of_nat k = y)"

lemma behind_refl [simp]: "behind x x P M"
  unfolding behind_def by (intro exI [of _ 0]) simp

lemma behind_call: "behind x y P M \<Longrightarrow> behind x y P (add_mset ps M)"
  unfolding behind_def by (metis le_add2 le_trans pool_count_simps(2))

lemma behind_lag:
  assumes "behind x y P M" "z + of_nat (pool_count P M) = y"
  shows "\<exists>k \<le> pool_count P M. x = z + of_nat k"
proof -
  obtain k where k: "k \<le> pool_count P M" "x + of_nat k = y" using assms(1) unfolding behind_def by blast
  then have "x = z + of_nat (pool_count P M - k)" using assms(2) by (simp add: of_nat_diff algebra_simps)
  then show ?thesis by (intro exI [of _ "pool_count P M - k"]) simp
qed

lemma behind_part:
  assumes "behind x y P (add_mset (p # ps) M)"
    and flags: "P ps \<longleftrightarrow> up \<or> P (p # ps) \<and> \<not> down" "up \<Longrightarrow> \<not> P (p # ps)" and "\<not> down"
    and x': "x' = x \<or> up \<and> x' = x + 1"
  shows "behind x' (y + of_bool up) P (add_mset ps M)"
proof -
  obtain k where k: "k \<le> pool_count P (add_mset (p # ps) M)" "x + of_nat k = y"
    using assms(1) by (auto simp: behind_def)
  show ?thesis
  proof (cases "x' = x \<and> up")
    case True
    then show ?thesis using k flags unfolding behind_def by (intro exI [of _ "Suc k"]) (auto simp: algebra_simps)
  next
    case False
    then show ?thesis
      using k flags \<open>\<not> down\<close> x' unfolding behind_def by (intro exI [of _ k]) (auto simp: algebra_simps)
  qed
qed

lemma kind_total_part:
  "p \<notin> set reset_parts \<Longrightarrow> kind_total k (part_step p c) = kind_total k c + of_bool (p = AddTotal k)"
proof (cases p)
  case (AddTotal j)
  then show ?thesis by (cases j; cases k) simp_all
qed (cases k; simp)+

lemma seen_totals_part:
  assumes "p \<notin> set reset_parts"
  shows "seen_totals rs r (part_step p c) = seen_totals rs r c \<or>
    counts_total p \<and> seen_totals rs r (part_step p c) = seen_totals rs r c + 1"
proof (cases p)
  case (AddTotal j)
  then show ?thesis
    using assms by (cases j) (simp_all add: seen_totals_def seen_total_def kind_total_part)
qed (use assms in \<open>simp_all add: seen_totals_def seen_total_def kind_total_part\<close>)

lemma seen_failed_part:
  "p \<notin> set reset_parts \<Longrightarrow> seen_failed rs r (part_step p c) = seen_failed rs r c \<or>
    p = AddFailed \<and> seen_failed rs r (part_step p c) = seen_failed rs r c + 1"
  by (simp add: seen_failed_def part_failed)

lemma seen_read:
  assumes "suffix (p # rs) snapshot_reads"
  shows "seen_totals rs (read_step p c r) c = seen_totals (p # rs) r c"
    "seen_failed rs (read_step p c r) c = seen_failed (p # rs) r c"
  using assms by (auto simp: snapshot_reads_def suffix_Cons seen_totals_def seen_total_def seen_failed_def)

lemma seen_early:
  assumes "suffix rs snapshot_reads" "ReadIps \<in> set rs"
  shows "seen_totals rs r c = all_totals c" "seen_failed rs r c = mc_failed c"
  using assms by (auto simp: snapshot_reads_def suffix_Cons seen_totals_def seen_total_def seen_failed_def all_totals_def)

definition snapshot_inv :: "metrics_collector \<Rightarrow> metric_pool \<Rightarrow> snapshot_read list \<Rightarrow> metrics_collector \<Rightarrow> bool" where
  "snapshot_inv c M rs r \<longleftrightarrow> suffix rs snapshot_reads \<and>
     (ReadIps \<in> set rs \<or> mc_per_ip r = mc_per_ip c) \<and>
     behind (seen_totals rs r c) (all_totals c) unlisted M \<and>
     behind (seen_failed rs r c) (mc_failed c) unlisted_failure M"

lemma snapshot_inv_read:
  assumes "snapshot_inv c M (p # rs) r"
  shows "snapshot_inv c M rs (read_step p c r)"
proof -
  have suf: "suffix (p # rs) snapshot_reads" using assms by (simp add: snapshot_inv_def)
  have "mc_per_ip (read_total k c r) = mc_per_ip r" for k by (cases k) simp_all
  then have "mc_per_ip (read_step p c r) = (if p = ReadIps then mc_per_ip c else mc_per_ip r)"
    by (cases p) simp_all
  then show ?thesis
    using assms suf by (auto simp: snapshot_inv_def seen_read [OF suf] dest: suffix_ConsD)
qed

lemma snapshot_inv_move:
  assumes "mc_move (snapshot_locks rs) c M c' M'" "pool_inv c M" "snapshot_inv c M rs r"
  shows "snapshot_inv c' M' rs r"
  using assms
proof cases
  case (call ps)
  then show ?thesis using assms by (simp add: snapshot_inv_def behind_call)
next
  case (part p ps M0)
  have e: "mc_entry (p # ps)" using assms(2) part by (simp add: pool_inv_def)
  note p = entry_no_store [OF e]
  have suf: "suffix rs snapshot_reads" using assms(3) by (simp add: snapshot_inv_def)
  show ?thesis
  proof (cases "ReadIps \<in> set rs")
    case True
    then show ?thesis using suf by (simp add: snapshot_inv_def seen_early [OF suf])
  next
    case False
    then have free: "IpTable \<notin> part_tables p" using part(4) by (auto simp: snapshot_locks_def)
    then have no: "\<not> lists_ip p" "\<not> lists_failure p" "mc_per_ip (part_step p c) = mc_per_ip c"
      using p by (cases p; auto)+
    have "behind (seen_totals rs r c) (all_totals c) unlisted (add_mset (p # ps) M0)"
      "behind (seen_failed rs r c) (mc_failed c) unlisted_failure (add_mset (p # ps) M0)"
      using assms(3) part by (simp_all add: snapshot_inv_def)
    then show ?thesis
      using assms(3) part no False behind_part entry_listed [OF e] seen_totals_part [OF p] seen_failed_part [OF p]
      by (simp add: snapshot_inv_def part_totals [OF p] part_failed [OF p])
  qed
next
  case returned
  then show ?thesis using assms by (simp add: snapshot_inv_def behind_def)
qed

lemma mc_snapshotting_inv: "mc_snapshotting c M rs r \<Longrightarrow> snapshot_inv c M rs r"
proof (induction rule: mc_snapshotting.induct)
  case (called c M)
  have early: "ReadIps \<in> set snapshot_reads" by (simp add: snapshot_reads_def)
  show ?case by (simp add: snapshot_inv_def early seen_early [OF _ early])
next
  case (move c M rs r c' M')
  then show ?case using mc_concurrent_inv [OF mc_snapshotting_concurrent [OF move(1)]] by (blast intro: snapshot_inv_move)
qed (rule snapshot_inv_read)

text \<open>Runs: several parts of a call, several reads of a snapshot.\<close>

lemma mc_run_call:
  assumes "mc_concurrent c M" "mc_call (ps @ qs)" "size M + 1 < 2 ^ 64"
  shows "mc_concurrent (fold part_step ps c) (add_mset qs M)"
proof -
  have "mc_concurrent c (add_mset (ps @ qs) M)"
    by (rule mc_concurrent.move [OF assms(1)], rule mc_move.call [OF assms(2,3)])
  then show ?thesis
  proof (induction ps arbitrary: c)
    case (Cons p ps)
    then have "mc_concurrent (part_step p c) (add_mset (ps @ qs) M)"
      by (intro mc_concurrent.move [OF _ mc_move.part]) simp_all
    then show ?case by (simp add: Cons.IH)
  qed simp
qed

lemma mc_run_reads:
  "mc_snapshotting c M (ps @ rs) r \<Longrightarrow> mc_snapshotting c M rs (fold (\<lambda>p. read_step p c) ps r)"
proof (induction ps arbitrary: r)
  case (Cons p ps)
  then show ?case using mc_snapshotting.read [of c M p "ps @ rs" r] by simp
qed simp

section \<open>Properties\<close>

text \<open>
  C6. The metrics are exact under concurrency: however the atomic parts of any number of recordings,
  closes and latencies interleave, the active counter, that of every address and that of every server
  are the numbers of calls and connections that have been counted in them and not yet taken back, so
  no decrement ever saturates; the address table lags behind the totals by exactly the recordings
  between the total and the table, and the same for the failures. When no call is in progress, all of
  them are the numbers of open connections, and the connections and failures in the address table add
  up to the totals.
\<close>

theorem metrics_concurrent_exact:
  assumes "mc_concurrent c M"
  shows "unat (mc_active c) = pool_count is_active M \<and>
    unat (at_key pim_active ip (mc_per_ip c)) = pool_count (active_at_ip ip) M \<and>
    unat (at_key psm_active name (mc_per_server c)) = pool_count (active_at_server name) M \<and>
    table_sum pim_connections (mc_per_ip c) + of_nat (pool_count unlisted M) = all_totals c \<and>
    table_sum pim_failures (mc_per_ip c) + of_nat (pool_count unlisted_failure M) = mc_failed c \<and>
    (M = open_pool conns \<longrightarrow>
       unat (mc_active c) = size conns \<and>
       unat (at_key pim_active ip (mc_per_ip c)) = active_of_ip conns ip \<and>
       unat (at_key psm_active name (mc_per_server c)) = active_of_server conns name \<and>
       table_sum pim_connections (mc_per_ip c) = all_totals c \<and>
       table_sum pim_failures (mc_per_ip c) = mc_failed c)"
  using mc_concurrent_inv [OF assms] by (auto simp: pool_inv_def open_pool_counts)

text \<open>One connection is open; another one is in its total and in the active counter, not in the tables.\<close>

definition two_callers :: metrics_collector where
  "two_callers = fold part_step [AddTotal TcpConn, AddActive]
     (fold part_step (open_parts TlsConn None (V4 2)) metrics_new)"

lemma two_callers_run:
  "mc_concurrent two_callers
     (add_mset ([ServerOpened TcpConn ''a'', IpOpened (V4 1)] @ close_parts (Some ''a'') (V4 1))
       {#close_parts None (V4 2)#})"
proof -
  have "mc_concurrent (fold part_step (open_parts TlsConn None (V4 2)) metrics_new) {#close_parts None (V4 2)#}"
    by (rule mc_run_call) (simp_all add: mc_concurrent.start mc_call.connection)
  moreover have "mc_call ([AddTotal TcpConn, AddActive] @
      [ServerOpened TcpConn ''a'', IpOpened (V4 1)] @ close_parts (Some ''a'') (V4 1))"
    using mc_call.connection [of TcpConn "Some ''a''" "V4 1"] by (simp add: open_parts_def server_part_def)
  ultimately show ?thesis unfolding two_callers_def by (rule mc_run_call) simp
qed

theorem metrics_concurrent_exact_witness:
  "unat (mc_active two_callers) = 2 \<and> unat (at_key pim_active (V4 1) (mc_per_ip two_callers)) = 0 \<and>
   table_sum pim_connections (mc_per_ip two_callers) + 1 = all_totals two_callers"
  using metrics_concurrent_exact [OF two_callers_run, of "V4 1" "''a''" "{#}"]
  by (simp add: flag_defs parts_defs)

text \<open>
  C21. A snapshot taken among the calls, which may go on between its reads where it holds no lock: it
  never shows more connections in its address table than in its three totals, nor more failures, and
  the table lacks at most as many as there are recordings in progress when it ends; with none, the two
  are equal.
\<close>

theorem snapshot_not_ahead:
  assumes "mc_snapshotting c M [] r"
  shows "\<exists>k \<le> pool_count unlisted M. \<exists>l \<le> pool_count unlisted_failure M.
    cm_tcp_connections_total (metrics_snapshot r) + cm_tls_connections_total (metrics_snapshot r) +
      cm_mtls_connections_total (metrics_snapshot r) =
      table_sum ipm_connections (cm_per_ip (metrics_snapshot r)) + of_nat k \<and>
    cm_failed_connections (metrics_snapshot r) =
      table_sum ipm_failures (cm_per_ip (metrics_snapshot r)) + of_nat l"
proof -
  have inv: "snapshot_inv c M [] r" and pool: "pool_inv c M"
    using assms mc_snapshotting_inv mc_snapshotting_concurrent mc_concurrent_inv by blast+
  have "behind (all_totals r) (all_totals c) unlisted M" "behind (mc_failed r) (mc_failed c) unlisted_failure M"
    "mc_per_ip r = mc_per_ip c"
    using inv by (simp_all add: snapshot_inv_def seen_totals_def seen_total_def seen_failed_def all_totals_def)
  with pool have "\<exists>k \<le> pool_count unlisted M. all_totals r = table_sum pim_connections (mc_per_ip r) + of_nat k"
    "\<exists>l \<le> pool_count unlisted_failure M. mc_failed r = table_sum pim_failures (mc_per_ip r) + of_nat l"
    by (auto simp: pool_inv_def intro: behind_lag)
  then show ?thesis
    unfolding metrics_snapshot_def by (auto simp: table_sum_fmmap ip_snapshot_def all_totals_def)
qed

text \<open>
  A snapshot that has copied the tables when a call enters: the total it reads counts the new
  connection, its address table does not.
\<close>

definition late_snapshot :: metrics_collector where
  "late_snapshot =
     fold (\<lambda>p. read_step p (add_total TcpConn metrics_new)) (drop 2 snapshot_reads)
       (fold (\<lambda>p. read_step p metrics_new) (take 2 snapshot_reads) metrics_new)"

lemma late_snapshot_run:
  "mc_snapshotting (add_total TcpConn metrics_new) {#tl (open_parts TcpConn None (V4 1)) @ close_parts None (V4 1)#} []
     late_snapshot"
proof -
  let ?open = "open_parts TcpConn None (V4 1) @ close_parts None (V4 1)"
  have "mc_snapshotting metrics_new {#} (drop 2 snapshot_reads)
      (fold (\<lambda>p. read_step p metrics_new) (take 2 snapshot_reads) metrics_new)" (is "mc_snapshotting _ _ ?rs ?r")
    by (rule mc_run_reads) (simp add: mc_snapshotting.called [OF mc_concurrent.start])
  then have "mc_snapshotting metrics_new {#?open#} ?rs ?r"
    by (rule mc_snapshotting.move) (simp add: mc_move.call mc_call.connection)
  then have "mc_snapshotting metrics_new {#AddTotal TcpConn # tl (open_parts TcpConn None (V4 1)) @ close_parts None (V4 1)#}
      ?rs ?r"
    by (simp add: open_parts_def)
  then have "mc_snapshotting (part_step (AddTotal TcpConn) metrics_new)
      {#tl (open_parts TcpConn None (V4 1)) @ close_parts None (V4 1)#} ?rs ?r"
    by (rule mc_snapshotting.move) (rule mc_move.part, simp)
  then show ?thesis unfolding late_snapshot_def by (intro mc_run_reads) simp
qed

theorem snapshot_not_ahead_witness:
  "\<exists>k \<le> 1. cm_tcp_connections_total (metrics_snapshot late_snapshot) +
     cm_tls_connections_total (metrics_snapshot late_snapshot) +
     cm_mtls_connections_total (metrics_snapshot late_snapshot) =
     table_sum ipm_connections (cm_per_ip (metrics_snapshot late_snapshot)) + of_nat k"
proof -
  have "pool_count unlisted {#tl (open_parts TcpConn None (V4 1)) @ close_parts None (V4 1)#} = 1"
    by (simp add: flag_defs parts_defs)
  with snapshot_not_ahead [OF late_snapshot_run] show ?thesis by auto
qed

text \<open>
  The average of a snapshot is not protected in this way: a latency is added to the sum before it is
  counted, and a snapshot in between shows an average above the maximum.
\<close>

lemma undisturbed_snapshot:
  "mc_concurrent c M \<Longrightarrow> mc_snapshotting c M [] (fold (\<lambda>p. read_step p c) snapshot_reads metrics_new)"
  by (rule mc_run_reads) (simp add: mc_snapshotting.called)

lemma torn_average:
  "\<exists>c M r. mc_snapshotting c M [] r \<and> cm_max_latency_ms (metrics_snapshot r) = 10 \<and>
     cm_avg_latency_ms (metrics_snapshot r) = 1010"
proof -
  let ?c = "fold part_step (latency_parts None (V4 1) 10) metrics_new"
  have "mc_concurrent ?c {#[]#}"
    by (rule mc_run_call) (simp_all add: mc_concurrent.start mc_call.latency)
  then have c: "mc_concurrent ?c {#}" by (rule mc_concurrent.move) (rule mc_move.returned)
  have "mc_call ([AddLatencySum 1000] @ tl (latency_parts None (V4 1) 1000))"
    using mc_call.latency [of None "V4 1" 1000] by (simp add: latency_parts_def)
  note snap = undisturbed_snapshot [OF mc_run_call [OF c this], unfolded fold_simps]
  have f64: "f64_round 1010 = 1010" "f64_round 1 = 1"
    using f64_round_of_nat [of 1010] f64_round_of_nat [of 1] by simp_all
  show ?thesis
    by (rule exI, rule exI, rule exI, rule conjI, rule snap)
      (simp_all add: f64 f64_div_def f64_of_nat_def metrics_snapshot_def snapshot_reads_def latency_parts_def server_part_def metrics_new_def avg_latency_def)
qed

end
