(* ===== verification/Load_Balancer.thy ===== *)
theory Load_Balancer
  imports Net_Addr
begin

text \<open>
  Backend pools (src/src/load\_balancer.rs): FNV-1a, the ring of virtual nodes, round robin and
  consistent hashing. The ring is sorted with an unstable sort, which fixes the result only up to
  the order of nodes with equal hashes; the sort is a parameter with that contract.
\<close>

datatype sticky_key = StickyIp | StickyIpPort

datatype strategy = RoundRobin | ConsistentHash u32 sticky_key

record backend =
  be_addr :: socket_addr
  be_weight :: u32

definition backend_new :: "socket_addr \<Rightarrow> backend" where
  "backend_new addr = \<lparr>be_addr = addr, be_weight = 1\<rparr>"

definition with_weight :: "u32 \<Rightarrow> backend \<Rightarrow> backend" where
  "with_weight weight b = b\<lparr>be_weight := max weight 1\<rparr>"

definition fnv_offset :: u64 where
  "fnv_offset = 14695981039346656037"

definition fnv_prime :: u64 where
  "fnv_prime = 1099511628211"

definition fnv1a :: "u8 list \<Rightarrow> u64" where
  "fnv1a bytes = foldl (\<lambda>h b. (h XOR ucast b) * fnv_prime) fnv_offset bytes"

definition hash_addr_ip :: "socket_addr \<Rightarrow> u64" where
  "hash_addr_ip addr = fnv1a (as_bytes (''ip:'' @ display_ip (sa_ip addr)))"

definition hash_addr_ipport :: "socket_addr \<Rightarrow> u64" where
  "hash_addr_ipport addr = fnv1a (as_bytes (''ipport:'' @ display_socket addr))"

record ring_node =
  rn_hash :: u64
  rn_backend_idx :: usize

record backend_pool =
  bp_backends :: "backend list"
  bp_strategy :: strategy
  bp_ring :: "ring_node list"
  bp_counter :: u64

type_synonym sorter = "ring_node list \<Rightarrow> ring_node list"

definition node_hash :: "backend \<Rightarrow> nat \<Rightarrow> u64" where
  "node_hash b i = fnv1a (as_bytes (display_socket (be_addr b) @ ''#'' @ show_nat i))"

text \<open>The virtual nodes of one backend; their number is a \<open>u32\<close> product and wraps.\<close>

definition virtual_nodes :: "u32 \<Rightarrow> nat \<Rightarrow> backend \<Rightarrow> ring_node list" where
  "virtual_nodes replicas idx b =
     map (\<lambda>i. \<lparr>rn_hash = node_hash b i, rn_backend_idx = idx\<rparr>) [0..<unat (replicas * be_weight b)]"

definition ring_nodes :: "u32 \<Rightarrow> backend list \<Rightarrow> ring_node list" where
  "ring_nodes replicas bs = concat (map (\<lambda>(idx, b). virtual_nodes replicas idx b) (enumerate 0 bs))"

definition rebuild_ring :: "sorter \<Rightarrow> backend_pool \<Rightarrow> backend_pool" where
  "rebuild_ring srt p =
     (case bp_strategy p of
        RoundRobin \<Rightarrow> p
      | ConsistentHash replicas _ \<Rightarrow> p\<lparr>bp_ring := srt (ring_nodes replicas (bp_backends p))\<rparr>)"

definition round_robin :: "backend list \<Rightarrow> backend_pool" where
  "round_robin bs = \<lparr>bp_backends = bs, bp_strategy = RoundRobin, bp_ring = [], bp_counter = 0\<rparr>"

definition consistent_hash :: "sorter \<Rightarrow> backend list \<Rightarrow> u32 \<Rightarrow> sticky_key \<Rightarrow> backend_pool" where
  "consistent_hash srt bs replicas sticky =
     rebuild_ring srt \<lparr>bp_backends = bs, bp_strategy = ConsistentHash replicas sticky, bp_ring = [],
       bp_counter = 0\<rparr>"

definition add_backend :: "sorter \<Rightarrow> backend \<Rightarrow> backend_pool \<Rightarrow> backend_pool" where
  "add_backend srt b p = rebuild_ring srt (p\<lparr>bp_backends := bp_backends p @ [b]\<rparr>)"

definition remove_backend :: "sorter \<Rightarrow> socket_addr \<Rightarrow> backend_pool \<Rightarrow> bool \<times> backend_pool" where
  "remove_backend srt addr p =
     (let before = length (bp_backends p);
          p = p\<lparr>bp_backends := filter (\<lambda>b. be_addr b \<noteq> addr) (bp_backends p)\<rparr>;
          removed = (length (bp_backends p) < before) in
      (removed, if removed then rebuild_ring srt p else p))"

definition pool_backends :: "backend_pool \<Rightarrow> socket_addr list" where
  "pool_backends p = map be_addr (bp_backends p)"

definition pool_len :: "backend_pool \<Rightarrow> usize" where
  "pool_len p = length (bp_backends p)"

definition pool_is_empty :: "backend_pool \<Rightarrow> bool" where
  "pool_is_empty p = (pool_len p = 0)"

text \<open>Indexing a slice panics out of bounds: \<open>None\<close>.\<close>

definition index_slice :: "'a list \<Rightarrow> nat \<Rightarrow> 'a option" where
  "index_slice xs i = (if i < length xs then Some (xs ! i) else None)"

definition partition_point :: "('a \<Rightarrow> bool) \<Rightarrow> 'a list \<Rightarrow> nat" where
  "partition_point P xs = length (takeWhile P xs)"

datatype selection = NoBackend | Selected socket_addr | SelectPanics

definition backend_at :: "backend_pool \<Rightarrow> nat \<Rightarrow> selection" where
  "backend_at p i =
     (case index_slice (bp_backends p) i of None \<Rightarrow> SelectPanics | Some b \<Rightarrow> Selected (be_addr b))"

definition select :: "socket_addr \<Rightarrow> backend_pool \<Rightarrow> selection \<times> backend_pool" where
  "select peer p =
     (if bp_backends p = [] then (NoBackend, p)
      else case bp_strategy p of
        RoundRobin \<Rightarrow>
          (let idx = unat (bp_counter p) mod length (bp_backends p) in
           (backend_at p idx, p\<lparr>bp_counter := bp_counter p + 1\<rparr>))
      | ConsistentHash _ sticky \<Rightarrow>
          if bp_ring p = [] then (backend_at p 0, p)
          else
            let key_hash = (case sticky of StickyIp \<Rightarrow> hash_addr_ip peer
                              | StickyIpPort \<Rightarrow> hash_addr_ipport peer);
                idx = partition_point (\<lambda>node. rn_hash node < key_hash) (bp_ring p) in
            (case index_slice (bp_ring p) (idx mod length (bp_ring p)) of
               None \<Rightarrow> SelectPanics
             | Some node \<Rightarrow> backend_at p (rn_backend_idx node), p))"

section \<open>The contract of the sort\<close>

locale ring_sorter =
  fixes srt :: sorter
  assumes sort_mset: "mset (srt xs) = mset xs"
    and sort_sorted: "sorted (map rn_hash (srt xs))"

interpretation stable: ring_sorter "sort_key rn_hash"
  by unfold_locales simp_all

section \<open>The ring as hashes and addresses\<close>

definition ring_pairs :: "u32 \<Rightarrow> backend list \<Rightarrow> (u64 \<times> socket_addr) list" where
  "ring_pairs replicas bs =
     concat (map (\<lambda>b. map (\<lambda>i. (node_hash b i, be_addr b)) [0..<unat (replicas * be_weight b)]) bs)"

definition node_pair :: "backend list \<Rightarrow> ring_node \<Rightarrow> u64 \<times> socket_addr" where
  "node_pair bs n = (rn_hash n, be_addr (bs ! rn_backend_idx n))"

definition owner :: "u64 \<Rightarrow> (u64 \<times> socket_addr) list \<Rightarrow> socket_addr" where
  "owner key L = snd (hd (dropWhile (\<lambda>p. fst p < key) L @ L))"

lemma ring_nodes_offset:
  "map (node_pair (pre @ bs))
     (concat (map (\<lambda>(idx, b). virtual_nodes replicas idx b) (enumerate (length pre) bs))) =
   ring_pairs replicas bs"
proof (induction bs arbitrary: pre)
  case Nil
  then show ?case by (simp add: ring_pairs_def)
next
  case (Cons b bs)
  from Cons.IH [of "pre @ [b]"] show ?case
    by (simp add: ring_pairs_def virtual_nodes_def node_pair_def)
qed

lemma ring_nodes_pairs: "map (node_pair bs) (ring_nodes replicas bs) = ring_pairs replicas bs"
  using ring_nodes_offset [of "[]" bs replicas] by (simp add: ring_nodes_def)

lemma ring_nodes_index: "n \<in> set (ring_nodes replicas bs) \<Longrightarrow> rn_backend_idx n < length bs"
  by (auto simp: ring_nodes_def virtual_nodes_def in_set_enumerate_eq)

lemma ring_pairs_filter:
  "ring_pairs replicas (filter (\<lambda>b. be_addr b \<noteq> addr) bs) =
     filter (\<lambda>p. snd p \<noteq> addr) (ring_pairs replicas bs)"
proof (induction bs)
  case Nil
  then show ?case by (simp add: ring_pairs_def)
next
  case (Cons b bs)
  have "filter (\<lambda>p. snd p \<noteq> addr) (map (\<lambda>i. (node_hash b i, be_addr b)) xs) =
      (if be_addr b = addr then [] else map (\<lambda>i. (node_hash b i, be_addr b)) xs)" for xs
    by (induction xs) auto
  with Cons show ?case by (simp add: ring_pairs_def)
qed

lemma owner_cases:
  assumes "L \<noteq> []"
  obtains pre h post where "L = pre @ (h, owner key L) # post"
    "(\<forall>p \<in> set pre. fst p < key) \<and> key \<le> h \<or> pre = [] \<and> (\<forall>p \<in> set L. fst p < key)"
proof (cases "dropWhile (\<lambda>p. fst p < key) L")
  case Nil
  then have all: "\<forall>p \<in> set L. fst p < key" by (simp add: dropWhile_eq_Nil_conv)
  obtain h a post where L: "L = (h, a) # post" using assms by (metis list.exhaust surj_pair)
  then have "owner key L = a" using Nil by (simp add: owner_def)
  then show thesis using that [of "[]" h post] L all by simp
next
  case (Cons p post)
  obtain h a where p: "p = (h, a)" by (cases p)
  have "L = takeWhile (\<lambda>p. fst p < key) L @ (h, a) # post" using Cons p by (metis takeWhile_dropWhile_id)
  moreover have "owner key L = a" using Cons p by (simp add: owner_def)
  moreover have "key \<le> h" using Cons p by (metis dropWhile_eq_Cons_conv fst_conv not_less)
  ultimately show thesis using that [of "takeWhile (\<lambda>p. fst p < key) L" h post]
    by (auto dest: set_takeWhileD)
qed

lemma owner_filter:
  assumes "L \<noteq> []" "owner key L \<noteq> addr"
  shows "owner key (filter (\<lambda>p. snd p \<noteq> addr) L) = owner key L"
proof -
  obtain pre h post where L: "L = pre @ (h, owner key L) # post"
    and alt: "(\<forall>p \<in> set pre. fst p < key) \<and> key \<le> h \<or> pre = [] \<and> (\<forall>p \<in> set L. fst p < key)"
    by (rule owner_cases [OF assms(1)])
  define a where "a = owner key L"
  have L': "L = pre @ (h, a) # post" using L by (simp add: a_def)
  have a: "a \<noteq> addr" using assms(2) by (simp add: a_def)
  have "owner key (filter (\<lambda>p. snd p \<noteq> addr) (pre @ (h, a) # post)) = a"
  proof (rule disjE [OF alt])
    assume k: "(\<forall>p \<in> set pre. fst p < key) \<and> key \<le> h"
    then have "dropWhile (\<lambda>p. fst p < key) (filter (\<lambda>p. snd p \<noteq> addr) pre @ ys) = dropWhile (\<lambda>p. fst p < key) ys"
      for ys by (intro dropWhile_append2) auto
    with k leD [of key h] show "owner key (filter (\<lambda>p. snd p \<noteq> addr) (pre @ (h, a) # post)) = a"
      using a by (simp add: owner_def)
  next
    assume "pre = [] \<and> (\<forall>p \<in> set L. fst p < key)"
    then have "pre = []" "\<forall>p \<in> set ((h, a) # filter (\<lambda>p. snd p \<noteq> addr) post). fst p < key"
      using L' by auto
    moreover from this(2) have "dropWhile (\<lambda>p. fst p < key) ((h, a) # filter (\<lambda>p. snd p \<noteq> addr) post) = []"
      by (simp add: dropWhile_eq_Nil_conv)
    ultimately show "owner key (filter (\<lambda>p. snd p \<noteq> addr) (pre @ (h, a) # post)) = a"
      using a by (simp add: owner_def del: dropWhile_eq_Nil_conv)
  qed
  then have "owner key (filter (\<lambda>p. snd p \<noteq> addr) L) = a" by (simp only: L')
  then show ?thesis unfolding a_def .
qed

lemma sorted_pairs_unique:
  assumes "mset xs = mset ys" "sorted (map fst xs)" "sorted (map fst ys)" "distinct (map fst ys)"
  shows "(xs :: (u64 \<times> 'a) list) = ys"
proof (rule map_sorted_distinct_set_unique [of fst])
  show "set xs = set ys" using assms(1) by (rule mset_eq_setD)
  then show "inj_on fst (set xs \<union> set ys)" using assms(4) by (simp add: distinct_map)
  show "distinct (map fst xs)"
    using assms(1,4) by (metis mset_eq_imp_distinct_iff mset_map)
qed (use assms in auto)

section \<open>Invariant of a pool\<close>

definition pool_ok :: "backend_pool \<Rightarrow> bool" where
  "pool_ok p \<longleftrightarrow>
     (case bp_strategy p of
        RoundRobin \<Rightarrow> True
      | ConsistentHash replicas _ \<Rightarrow>
          mset (bp_ring p) = mset (ring_nodes replicas (bp_backends p)) \<and> sorted (map rn_hash (bp_ring p)))"

definition pool_ring :: "backend_pool \<Rightarrow> (u64 \<times> socket_addr) list" where
  "pool_ring p = map (node_pair (bp_backends p)) (bp_ring p)"

definition key_of :: "sticky_key \<Rightarrow> socket_addr \<Rightarrow> u64" where
  "key_of sticky peer = (case sticky of StickyIp \<Rightarrow> hash_addr_ip peer | StickyIpPort \<Rightarrow> hash_addr_ipport peer)"

lemma pool_ring_index: "pool_ok p \<Longrightarrow> bp_strategy p = ConsistentHash replicas sticky \<Longrightarrow>
    n \<in> set (bp_ring p) \<Longrightarrow> rn_backend_idx n < length (bp_backends p)"
  using ring_nodes_index mset_eq_setD by (fastforce simp: pool_ok_def)

lemma pool_ring_sorted: "pool_ok p \<Longrightarrow> bp_strategy p = ConsistentHash replicas sticky \<Longrightarrow>
    sorted (map fst (pool_ring p)) \<and> mset (pool_ring p) = mset (ring_pairs replicas (bp_backends p))"
proof -
  assume "pool_ok p" "bp_strategy p = ConsistentHash replicas sticky"
  then have "mset (bp_ring p) = mset (ring_nodes replicas (bp_backends p))" "sorted (map rn_hash (bp_ring p))"
    by (simp_all add: pool_ok_def)
  moreover have "map fst (pool_ring p) = map rn_hash (bp_ring p)" by (simp add: pool_ring_def node_pair_def)
  moreover from calculation(1) have "mset (pool_ring p) = mset (ring_pairs replicas (bp_backends p))"
    by (simp add: pool_ring_def flip: ring_nodes_pairs)
  ultimately show ?thesis by metis
qed

lemma select_ring:
  assumes "pool_ok p" "bp_strategy p = ConsistentHash replicas sticky" "bp_ring p \<noteq> []" "bp_backends p \<noteq> []"
  shows "fst (select peer p) = Selected (owner (key_of sticky peer) (pool_ring p))"
proof -
  let ?k = "key_of sticky peer"
  let ?R = "bp_ring p"
  define i where "i = length (takeWhile (\<lambda>n. rn_hash n < ?k) ?R)"
  have drop_i: "dropWhile (\<lambda>n. rn_hash n < ?k) ?R = drop i ?R" by (simp add: i_def dropWhile_eq_drop)
  have i: "i mod length ?R < length ?R" using assms(3) by simp
  have "?R ! (i mod length ?R) = hd (dropWhile (\<lambda>n. rn_hash n < ?k) ?R @ ?R)"
  proof (cases "i < length ?R")
    case True
    then show ?thesis by (simp add: drop_i hd_drop_conv_nth hd_append)
  next
    case False
    moreover have "i \<le> length ?R" by (simp add: i_def length_takeWhile_le)
    ultimately show ?thesis using assms(3) by (simp add: drop_i hd_conv_nth)
  qed
  moreover have "dropWhile (\<lambda>q. fst q < ?k) (map f ?R) = map f (dropWhile (\<lambda>n. rn_hash n < ?k) ?R)"
    if "\<forall>n. fst (f n) = rn_hash n" for f :: "ring_node \<Rightarrow> u64 \<times> socket_addr"
    using that by (simp add: dropWhile_map comp_def)
  then have "dropWhile (\<lambda>q. fst q < ?k) (pool_ring p) @ pool_ring p =
      map (node_pair (bp_backends p)) (dropWhile (\<lambda>n. rn_hash n < ?k) ?R @ ?R)"
    by (simp add: pool_ring_def node_pair_def)
  then have "owner ?k (pool_ring p) =
      snd (hd (map (node_pair (bp_backends p)) (dropWhile (\<lambda>n. rn_hash n < ?k) ?R @ ?R)))"
    unfolding owner_def by (rule arg_cong)
  then have "owner ?k (pool_ring p) = snd (node_pair (bp_backends p) (hd (dropWhile (\<lambda>n. rn_hash n < ?k) ?R @ ?R)))"
    using assms(3) by (subst (asm) hd_map) simp_all
  ultimately have "owner ?k (pool_ring p) = be_addr (bp_backends p ! rn_backend_idx (?R ! (i mod length ?R)))"
    by (simp add: node_pair_def)
  moreover have "rn_backend_idx (?R ! (i mod length ?R)) < length (bp_backends p)"
    using pool_ring_index [OF assms(1,2)] i by simp
  ultimately show ?thesis
    using assms(2-4) i
    by (simp add: select_def Let_def key_of_def [symmetric] partition_point_def i_def [symmetric]
        index_slice_def backend_at_def)
qed

context ring_sorter
begin

lemma rebuild_ok: "pool_ok (rebuild_ring srt p)"
  by (auto simp: pool_ok_def rebuild_ring_def sort_mset sort_sorted split: strategy.splits)

lemma rebuild_frame [simp]:
  "bp_backends (rebuild_ring srt p) = bp_backends p" "bp_strategy (rebuild_ring srt p) = bp_strategy p"
  "bp_counter (rebuild_ring srt p) = bp_counter p"
  by (auto simp: rebuild_ring_def split: strategy.splits)

lemma consistent_hash_ok: "pool_ok (consistent_hash srt bs replicas sticky)"
  by (simp add: consistent_hash_def rebuild_ok)

lemma add_backend_ok: "pool_ok (add_backend srt b p)"
  by (simp add: add_backend_def rebuild_ok)

lemma remove_backend_ok: "pool_ok p \<Longrightarrow> pool_ok (snd (remove_backend srt addr p))"
proof -
  assume ok: "pool_ok p"
  have "filter (\<lambda>b. be_addr b \<noteq> addr) (bp_backends p) = bp_backends p"
    if "\<not> length (filter (\<lambda>b. be_addr b \<noteq> addr) (bp_backends p)) < length (bp_backends p)"
    using that by (metis filter_id_conv length_filter_less)
  then show ?thesis using ok by (auto simp: remove_backend_def Let_def rebuild_ok)
qed

lemma remove_backend_backends [simp]:
  "bp_backends (snd (remove_backend srt addr p)) = filter (\<lambda>b. be_addr b \<noteq> addr) (bp_backends p)"
  "bp_strategy (snd (remove_backend srt addr p)) = bp_strategy p"
  by (simp_all add: remove_backend_def Let_def)

end

lemma round_robin_ok: "pool_ok (round_robin bs)"
  by (simp add: pool_ok_def round_robin_def)

lemma select_frame:
  "bp_backends (snd (select peer p)) = bp_backends p \<and> bp_strategy (snd (select peer p)) = bp_strategy p \<and>
   bp_ring (snd (select peer p)) = bp_ring p"
  by (auto simp: select_def Let_def split: strategy.splits)

lemma select_ok: "pool_ok p \<Longrightarrow> pool_ok (snd (select peer p))"
  using select_frame [of peer p] by (auto simp: pool_ok_def split: strategy.splits)

lemma owner_in: "L \<noteq> [] \<Longrightarrow> owner key L \<in> snd ` set L"
  by (metis owner_cases in_set_conv_decomp image_eqI snd_conv)

lemma pairs_addr: "p \<in> set (ring_pairs replicas bs) \<Longrightarrow> snd p \<in> be_addr ` set bs"
  by (auto simp: ring_pairs_def)

text \<open>The outcomes of a sequence of selections.\<close>

fun select_all :: "socket_addr list \<Rightarrow> backend_pool \<Rightarrow> selection list \<times> backend_pool" where
  "select_all [] p = ([], p)"
| "select_all (peer # peers) p =
     (let (r, p) = select peer p; (rs, p) = select_all peers p in (r # rs, p))"

text \<open>The operations that change a pool.\<close>

datatype pool_op = AddBackend backend | RemoveBackend socket_addr | SelectFor socket_addr

fun pool_step :: "sorter \<Rightarrow> pool_op \<Rightarrow> backend_pool \<Rightarrow> backend_pool" where
  "pool_step srt (AddBackend b) p = add_backend srt b p"
| "pool_step srt (RemoveBackend addr) p = snd (remove_backend srt addr p)"
| "pool_step srt (SelectFor peer) p = snd (select peer p)"

lemma pool_steps_ok: "ring_sorter srt \<Longrightarrow> pool_ok p \<Longrightarrow> pool_ok (fold (pool_step srt) cs p)"
proof (induction cs arbitrary: p)
  case (Cons c cs)
  have "pool_ok (pool_step srt c p)"
    using Cons.prems ring_sorter.add_backend_ok ring_sorter.remove_backend_ok select_ok by (cases c) auto
  then show ?case using Cons by simp
qed simp

lemma owner_split:
  assumes "L \<noteq> []" shows "owner key L \<in> snd ` set L"
  using assms by (rule owner_in)

lemma select_member:
  assumes "pool_ok p" "bp_backends p \<noteq> []"
  shows "\<exists>a \<in> set (pool_backends p). fst (select peer p) = Selected a"
proof (cases "bp_strategy p")
  case RoundRobin
  let ?i = "unat (bp_counter p) mod length (bp_backends p)"
  have "?i < length (bp_backends p)" using assms(2) by simp
  moreover from this have "be_addr (bp_backends p ! ?i) \<in> set (pool_backends p)" by (simp add: pool_backends_def)
  ultimately show ?thesis
    using assms(2) RoundRobin by (simp add: select_def Let_def backend_at_def index_slice_def)
next
  case (ConsistentHash replicas sticky)
  show ?thesis
  proof (cases "bp_ring p = []")
    case True
    have "be_addr (bp_backends p ! 0) \<in> set (pool_backends p)" using assms(2) by (simp add: pool_backends_def)
    then show ?thesis
      using assms(2) True ConsistentHash by (simp add: select_def backend_at_def index_slice_def)
  next
    case False
    then have "pool_ring p \<noteq> []" by (simp add: pool_ring_def)
    then have "owner (key_of sticky peer) (pool_ring p) \<in> snd ` set (ring_pairs replicas (bp_backends p))"
      using owner_in pool_ring_sorted [OF assms(1) ConsistentHash] mset_eq_setD by metis
    then have "owner (key_of sticky peer) (pool_ring p) \<in> set (pool_backends p)"
      using pairs_addr by (fastforce simp: pool_backends_def)
    then show ?thesis using select_ring [OF assms(1) ConsistentHash False assms(2)] by blast
  qed
qed

section \<open>Properties\<close>

text \<open>
  Selection is safe after any sequence of additions, removals and selections, whatever the
  order the sort gives to equal hashes: it never indexes out of bounds, it finds no backend only in
  an empty pool, and otherwise it returns an address of the pool.
\<close>

theorem select_safe:
  assumes "ring_sorter srt" "p0 = round_robin bs \<or> p0 = consistent_hash srt bs replicas sticky"
    and "p = fold (pool_step srt) cs p0"
  shows "fst (select peer p) \<noteq> SelectPanics \<and>
    (if pool_is_empty p then fst (select peer p) = NoBackend
     else \<exists>a \<in> set (pool_backends p). fst (select peer p) = Selected a)"
proof -
  have "pool_ok p0"
    using assms(1,2) round_robin_ok ring_sorter.consistent_hash_ok by auto
  then have "pool_ok p" unfolding assms(3) by (rule pool_steps_ok [OF assms(1)])
  then show ?thesis
    using select_member [of p peer] by (auto simp: pool_is_empty_def pool_len_def select_def)
qed

definition peer_v4 :: "nat \<Rightarrow> nat \<Rightarrow> socket_addr" where
  "peer_v4 n port = SockV4 (ipv4_new 10 0 0 (of_nat n)) (of_nat port)"

theorem select_safe_witness:
  "fst (select (peer_v4 9 1) (fold (pool_step (sort_key rn_hash)) [RemoveBackend (peer_v4 1 80)]
     (consistent_hash (sort_key rn_hash) [backend_new (peer_v4 1 80)] 3 StickyIp))) \<noteq> SelectPanics"
  using select_safe [OF stable.ring_sorter_axioms disjI2 [OF refl] refl] by blast

lemma select_round_robin:
  assumes "bp_strategy p = RoundRobin" "bp_backends p \<noteq> []"
  shows "select peer p =
    (Selected (pool_backends p ! (unat (bp_counter p) mod pool_len p)), p\<lparr>bp_counter := bp_counter p + 1\<rparr>)"
  using assms by (simp add: select_def Let_def backend_at_def index_slice_def pool_backends_def pool_len_def)

lemma select_all_round_robin:
  assumes "bp_strategy p = RoundRobin" "bp_backends p \<noteq> []" "unat (bp_counter p) + length peers \<le> 2 ^ 64"
  shows "fst (select_all peers p) =
    map (\<lambda>i. Selected (pool_backends p ! (i mod pool_len p))) [unat (bp_counter p)..<unat (bp_counter p) + length peers]"
  using assms
proof (induction peers arbitrary: p)
  case Nil
  then show ?case by simp
next
  case (Cons peer peers)
  let ?p = "p\<lparr>bp_counter := bp_counter p + 1\<rparr>"
  show ?case
  proof (cases peers)
    case Nil
    then show ?thesis using Cons.prems by (simp add: select_round_robin)
  next
    case (Cons q qs)
    then have "unat (bp_counter p) + 1 < 2 ^ 64" using Cons.prems(3) by simp
    then have succ: "unat (bp_counter p + 1) = unat (bp_counter p) + 1" by (simp add: unat_word_ariths)
    have "fst (select_all peers ?p) = map (\<lambda>i. Selected (pool_backends p ! (i mod pool_len p)))
        [unat (bp_counter p) + 1..<unat (bp_counter p) + 1 + length peers]"
      using Cons.IH [of ?p] Cons.prems succ by (simp add: pool_backends_def pool_len_def)
    then show ?thesis
      using Cons.prems by (simp add: select_round_robin split_beta Let_def upt_rec [of "unat (bp_counter p)"]
          del: upt_Suc)
  qed
qed

lemma mod_block:
  assumes "0 < k"
  shows "mset (map (\<lambda>i. f (i mod k)) [c..<c + k]) = mset (map f [0..<k])"
proof (induction c)
  case 0
  have "map (\<lambda>i. f (i mod k)) [0..<k] = map f [0..<k]" by (rule map_cong) auto
  then show ?case by (simp add: add_0 del: map_eq_conv)
next
  case (Suc c)
  have "[c..<c + k] = c # [Suc c..<c + k]" using assms by (simp add: upt_rec)
  moreover have "[Suc c..<Suc c + k] = [Suc c..<c + k] @ [c + k]" using assms by simp
  ultimately show ?case using Suc.IH by simp
qed

lemma mod_blocks:
  assumes "0 < k"
  shows "mset (map (\<lambda>i. f (i mod k)) [c..<c + n * k]) = repeat_mset n (mset (map f [0..<k]))"
proof (induction n)
  case 0
  show ?case by simp
next
  case (Suc n)
  have "c + Suc n * k = c + n * k + k" by simp
  then have "[c..<c + Suc n * k] = [c..<c + n * k] @ [c + n * k..<c + n * k + k]"
    by (simp only:) (rule upt_add_eq_append, simp)
  then have "mset (map (\<lambda>i. f (i mod k)) [c..<c + Suc n * k]) =
      repeat_mset n (mset (map f [0..<k])) + mset (map f [0..<k])"
    using Suc.IH mod_block [OF assms, of f "c + n * k"] by (simp only: map_append mset_append)
  then show ?case by (simp only: repeat_mset_Suc add.commute)
qed

text \<open>
  Round robin is fair and cyclic: the i-th selection returns the i-th backend in turn, and
  among any \<open>n\<close> full turns every backend (every occurrence in the pool) is selected exactly \<open>n\<close>
  times, as long as the counter does not pass \<open>2 ^ 64\<close>. Weights play no role.
\<close>

theorem round_robin_fair:
  assumes "bp_strategy p = RoundRobin" "bp_backends p \<noteq> []"
    and "length peers = n * pool_len p" "unat (bp_counter p) + length peers \<le> 2 ^ 64"
  shows "fst (select_all peers p) =
      map (\<lambda>i. Selected (pool_backends p ! (i mod pool_len p))) [unat (bp_counter p)..<unat (bp_counter p) + length peers] \<and>
    mset (fst (select_all peers p)) = repeat_mset n (mset (map Selected (pool_backends p)))"
proof -
  have "0 < pool_len p" using assms(2) by (simp add: pool_len_def)
  then have "mset (map (\<lambda>i. Selected (pool_backends p ! (i mod pool_len p))) [unat (bp_counter p)..<unat (bp_counter p) + n * pool_len p]) =
      repeat_mset n (mset (map (\<lambda>i. Selected (pool_backends p ! i)) [0..<pool_len p]))"
    using mod_blocks [of "pool_len p" "\<lambda>i. Selected (pool_backends p ! i)"] by simp
  moreover have "map (\<lambda>i. Selected (pool_backends p ! i)) [0..<pool_len p] = map Selected (pool_backends p)"
    by (rule nth_equalityI) (simp_all add: pool_len_def pool_backends_def)
  ultimately show ?thesis using select_all_round_robin [OF assms(1,2,4)] assms(3) by simp
qed

theorem round_robin_fair_witness:
  "mset (fst (select_all (replicate 4 (peer_v4 9 1)) (round_robin [backend_new (peer_v4 1 80), backend_new (peer_v4 2 80)]))) =
     repeat_mset 2 (mset (map Selected [peer_v4 1 80, peer_v4 2 80]))"
  using conjunct2 [OF round_robin_fair [of "round_robin [backend_new (peer_v4 1 80), backend_new (peer_v4 2 80)]"
      "replicate 4 (peer_v4 9 1)" 2]]
  by (simp add: round_robin_def pool_len_def pool_backends_def backend_new_def del: select_all.simps)

context ring_sorter
begin

lemma remove_ring:
  assumes "pool_ok p" "bp_strategy p = ConsistentHash replicas sticky"
    and "distinct (map fst (ring_pairs replicas (bp_backends p)))"
  shows "pool_ring (snd (remove_backend srt addr p)) = filter (\<lambda>q. snd q \<noteq> addr) (pool_ring p)"
proof (rule sorted_pairs_unique)
  let ?p = "snd (remove_backend srt addr p)"
  have p': "sorted (map fst (pool_ring ?p))"
      "mset (pool_ring ?p) = mset (filter (\<lambda>q. snd q \<noteq> addr) (ring_pairs replicas (bp_backends p)))"
    using pool_ring_sorted [OF remove_backend_ok [OF assms(1)]] assms(2)
    by (simp_all add: ring_pairs_filter)
  have p: "sorted (map fst (pool_ring p))" "mset (pool_ring p) = mset (ring_pairs replicas (bp_backends p))"
    using pool_ring_sorted [OF assms(1,2)] by simp_all
  show "mset (pool_ring ?p) = mset (filter (\<lambda>q. snd q \<noteq> addr) (pool_ring p))"
    using p(2) p'(2) by (simp add: mset_filter)
  show "sorted (map fst (pool_ring ?p))" by (rule p'(1))
  show "sorted (map fst (filter (\<lambda>q. snd q \<noteq> addr) (pool_ring p)))" using p(1) by (rule sorted_filter)
  have "distinct (map fst (pool_ring p))"
    using assms(3) p(2) by (metis mset_eq_imp_distinct_iff mset_map)
  then show "distinct (map fst (filter (\<lambda>q. snd q \<noteq> addr) (pool_ring p)))" by (rule distinct_map_filter)
qed

lemma add_ring:
  assumes "pool_ok p" "bp_strategy p = ConsistentHash replicas sticky" "be_addr b \<notin> set (pool_backends p)"
    and "distinct (map fst (ring_pairs replicas (bp_backends p @ [b])))"
  shows "filter (\<lambda>q. snd q \<noteq> be_addr b) (pool_ring (add_backend srt b p)) = pool_ring p"
proof (rule sorted_pairs_unique)
  let ?p = "add_backend srt b p"
  have "bp_backends ?p = bp_backends p @ [b]" "bp_strategy ?p = ConsistentHash replicas sticky"
    using assms(2) by (simp_all add: add_backend_def)
  then have p': "sorted (map fst (pool_ring ?p))" "mset (pool_ring ?p) = mset (ring_pairs replicas (bp_backends p @ [b]))"
    using pool_ring_sorted [OF add_backend_ok] by simp_all
  have p: "sorted (map fst (pool_ring p))" "mset (pool_ring p) = mset (ring_pairs replicas (bp_backends p))"
    using pool_ring_sorted [OF assms(1,2)] by simp_all
  have "filter (\<lambda>c. be_addr c \<noteq> be_addr b) (bp_backends p) = bp_backends p"
    by (rule filter_True) (use assms(3) in \<open>metis pool_backends_def image_eqI set_map\<close>)
  then have "filter (\<lambda>c. be_addr c \<noteq> be_addr b) (bp_backends p @ [b]) = bp_backends p" by simp
  then have "filter (\<lambda>q. snd q \<noteq> be_addr b) (ring_pairs replicas (bp_backends p @ [b])) =
      ring_pairs replicas (bp_backends p)"
    using ring_pairs_filter [of replicas "be_addr b" "bp_backends p @ [b]"] by simp
  then show "mset (filter (\<lambda>q. snd q \<noteq> be_addr b) (pool_ring ?p)) = mset (pool_ring p)"
    using p(2) p'(2) by (metis mset_filter)
  show "sorted (map fst (filter (\<lambda>q. snd q \<noteq> be_addr b) (pool_ring ?p)))" using p'(1) by (rule sorted_filter)
  show "sorted (map fst (pool_ring p))" by (rule p(1))
  have "distinct (map fst (ring_pairs replicas (bp_backends p)))"
    using assms(4) by (simp add: ring_pairs_def)
  then show "distinct (map fst (pool_ring p))"
    using p(2) by (metis mset_eq_imp_distinct_iff mset_map)
qed

lemma empty_ring_selects_first:
  "bp_ring p = [] \<Longrightarrow> bp_strategy p = ConsistentHash replicas sticky \<Longrightarrow> bp_backends p \<noteq> [] \<Longrightarrow>
     fst (select peer p) = Selected (hd (pool_backends p))"
  by (cases "bp_backends p") (simp_all add: select_def backend_at_def index_slice_def pool_backends_def)

lemma remove_keeps_selection:
  assumes "pool_ok p" "bp_strategy p = ConsistentHash replicas sticky"
    and "distinct (map fst (ring_pairs replicas (bp_backends p)))"
    and "fst (select peer p) = Selected a" "a \<noteq> addr"
  shows "fst (select peer (snd (remove_backend srt addr p))) = Selected a"
proof -
  let ?p = "snd (remove_backend srt addr p)"
  have ne: "bp_backends p \<noteq> []" using assms(4) by (auto simp: select_def)
  note ring = remove_ring [OF assms(1-3), of addr]
  have s: "bp_strategy ?p = ConsistentHash replicas sticky" using assms(2) by simp
  show ?thesis
  proof (cases "bp_ring p = []")
    case True
    then have a: "a = hd (pool_backends p)"
      using empty_ring_selects_first [OF _ assms(2) ne] assms(4) by simp
    obtain b bs where bs: "bp_backends p = b # bs" using ne by (cases "bp_backends p") auto
    have "bp_backends ?p = b # filter (\<lambda>b. be_addr b \<noteq> addr) bs"
      using bs a assms(5) by (simp add: pool_backends_def)
    moreover have "bp_ring ?p = []" using ring True by (simp add: pool_ring_def)
    ultimately show ?thesis using empty_ring_selects_first [OF _ s] a bs by (simp add: pool_backends_def)
  next
    case False
    then have L: "pool_ring p \<noteq> []" by (simp add: pool_ring_def)
    have a: "owner (key_of sticky peer) (pool_ring p) = a"
      using select_ring [OF assms(1,2) False ne] assms(4) by simp
    then have "owner (key_of sticky peer) (pool_ring ?p) = a"
      using owner_filter [OF L] assms(5) ring by simp
    moreover have "a \<in> snd ` set (pool_ring p)" using owner_in [OF L] a by metis
    then have in': "a \<in> snd ` set (pool_ring ?p)" using assms(5) ring by auto
    moreover from in' have "bp_ring ?p \<noteq> []" by (auto simp: pool_ring_def)
    moreover have "set (pool_ring ?p) = set (ring_pairs replicas (bp_backends ?p))"
      using pool_ring_sorted [OF remove_backend_ok [OF assms(1)] s] mset_eq_setD by blast
    then have "a \<in> be_addr ` set (bp_backends ?p)" using in' pairs_addr by (auto simp del: remove_backend_backends)
    then have "set (bp_backends ?p) \<noteq> {}" by (metis empty_iff image_is_empty)
    then have "bp_backends ?p \<noteq> []" by (simp only: set_empty not_False_eq_True)
    ultimately show ?thesis using select_ring [OF remove_backend_ok [OF assms(1)] s] by simp
  qed
qed

lemma add_keeps_selection:
  assumes "pool_ok p" "bp_strategy p = ConsistentHash replicas sticky" "be_addr b \<notin> set (pool_backends p)"
    and "distinct (map fst (ring_pairs replicas (bp_backends p @ [b])))" "bp_backends p \<noteq> []"
  shows "fst (select peer (add_backend srt b p)) \<in> {Selected (be_addr b), fst (select peer p)}"
proof -
  let ?p = "add_backend srt b p"
  note ring = add_ring [OF assms(1-4)]
  have p': "bp_backends ?p = bp_backends p @ [b]" "bp_strategy ?p = ConsistentHash replicas sticky"
    using assms(2) by (simp_all add: add_backend_def)
  show ?thesis
  proof (cases "bp_ring ?p = []")
    case True
    then have "bp_ring p = []" using ring by (simp add: pool_ring_def)
    then show ?thesis
      using empty_ring_selects_first [OF True p'(2)] empty_ring_selects_first [OF _ assms(2,5)] p'(1) assms(5)
      by (simp add: pool_backends_def hd_append)
  next
    case False
    then have L: "pool_ring ?p \<noteq> []" by (simp add: pool_ring_def)
    let ?a = "owner (key_of sticky peer) (pool_ring ?p)"
    have sel: "fst (select peer ?p) = Selected ?a" using select_ring [OF add_backend_ok p'(2) False] p'(1) by simp
    show ?thesis
    proof (cases "?a = be_addr b")
      case True
      then show ?thesis using sel by simp
    next
      case other: False
      then have "owner (key_of sticky peer) (pool_ring p) = ?a" using owner_filter [OF L] ring by metis
      moreover have "?a \<in> snd ` set (pool_ring p)" using owner_in [OF L] other unfolding ring [symmetric] by fastforce
      then have "bp_ring p \<noteq> []" by (auto simp: pool_ring_def)
      ultimately show ?thesis using select_ring [OF assms(1,2) _ assms(5)] sel by simp
    qed
  qed
qed

end

text \<open>
  C7. Consistent hashing disturbs as little as it can: when no two virtual nodes collide, removing
  a backend changes the selection of no peer that was not on it, and adding a backend moves peers to
  the new backend only.
\<close>

theorem consistent_hash_minimal_disruption:
  assumes "ring_sorter srt" "pool_ok p" "bp_strategy p = ConsistentHash replicas sticky"
    and "distinct (map fst (ring_pairs replicas (bp_backends p @ [b])))"
    and "be_addr b \<notin> set (pool_backends p)" "fst (select peer p) = Selected a"
  shows "(a = addr \<or> fst (select peer (snd (remove_backend srt addr p))) = Selected a) \<and>
    fst (select peer (add_backend srt b p)) \<in> {Selected (be_addr b), Selected a}"
proof
  have "distinct (map fst (ring_pairs replicas (bp_backends p)))"
    using assms(4) by (simp add: ring_pairs_def)
  from ring_sorter.remove_keeps_selection [OF assms(1-3) this assms(6)]
  show "a = addr \<or> fst (select peer (snd (remove_backend srt addr p))) = Selected a" by blast
  have "bp_backends p \<noteq> []" using assms(6) by (auto simp: select_def)
  from ring_sorter.add_keeps_selection [OF assms(1-3,5,4) this, of peer]
  show "fst (select peer (add_backend srt b p)) \<in> {Selected (be_addr b), Selected a}"
    unfolding assms(6) .
qed

definition demo_pool :: backend_pool where
  "demo_pool = consistent_hash (sort_key rn_hash)
     [backend_new (peer_v4 1 80), backend_new (peer_v4 2 80)] 2 StickyIp"

lemma demo_shown:
  "display_socket (peer_v4 (Suc 0) 80) = ''10.0.0.1:80''" "display_socket (peer_v4 2 80) = ''10.0.0.2:80''"
  "display_socket (peer_v4 3 80) = ''10.0.0.3:80''" "show_nat 0 = ''0''" "show_nat (Suc 0) = ''1''"
  by code_simp+

lemma demo_ring_distinct:
  "distinct (map fst (ring_pairs 2 [backend_new (peer_v4 1 80), backend_new (peer_v4 2 80), backend_new (peer_v4 3 80)]))"
  by (simp add: ring_pairs_def upt_rec node_hash_def backend_new_def demo_shown fnv1a_def fnv_offset_def fnv_prime_def as_bytes_def)

theorem consistent_hash_minimal_disruption_witness:
  "\<exists>a. fst (select (peer_v4 9 1) demo_pool) = Selected a \<and>
     fst (select (peer_v4 9 1) (add_backend (sort_key rn_hash) (backend_new (peer_v4 3 80)) demo_pool)) \<in>
       {Selected (peer_v4 3 80), Selected a}"
proof -
  let ?b = "backend_new (peer_v4 3 80)"
  have ok: "pool_ok demo_pool" unfolding demo_pool_def by (rule stable.consistent_hash_ok)
  have p: "bp_strategy demo_pool = ConsistentHash 2 StickyIp"
      "bp_backends demo_pool = [backend_new (peer_v4 1 80), backend_new (peer_v4 2 80)]"
    by (simp_all add: demo_pool_def consistent_hash_def)
  then obtain a where a: "fst (select (peer_v4 9 1) demo_pool) = Selected a"
    using select_member [OF ok, of "peer_v4 9 1"] by auto
  have "distinct (map fst (ring_pairs 2 (bp_backends demo_pool @ [?b])))"
    using demo_ring_distinct by (simp add: p(2))
  moreover have "be_addr ?b \<notin> set (pool_backends demo_pool)"
    by (simp add: pool_backends_def p(2) backend_new_def peer_v4_def ipv4_new_def)
  ultimately have "fst (select (peer_v4 9 1) (add_backend (sort_key rn_hash) ?b demo_pool)) \<in>
      {Selected (be_addr ?b), Selected a}"
    using consistent_hash_minimal_disruption [OF stable.ring_sorter_axioms ok p(1) _ _ a] by blast
  with a show ?thesis by (auto simp: backend_new_def)
qed

text \<open>
  Session affinity: with the sticky key \<open>Ip\<close> a consistent-hash pool selects the same backend
  for all connections of an address, whatever their ports, and selecting changes nothing in the pool.
\<close>

theorem sticky_ip_affinity:
  assumes "bp_strategy p = ConsistentHash replicas StickyIp" "sa_ip peer = sa_ip peer'"
  shows "select peer p = select peer' p \<and> snd (select peer p) = p"
  using assms by (simp add: select_def hash_addr_ip_def Let_def)

theorem sticky_ip_affinity_witness:
  "fst (select (peer_v4 9 1) demo_pool) = fst (select (peer_v4 9 2) demo_pool)"
proof -
  have "bp_strategy demo_pool = ConsistentHash 2 StickyIp" by (simp add: demo_pool_def consistent_hash_def)
  from sticky_ip_affinity [OF this, of "peer_v4 9 1" "peer_v4 9 2"] show ?thesis by (simp add: peer_v4_def)
qed

text \<open>
  The number of virtual nodes is a 32-bit product. When \<open>replicas * weight\<close> is a multiple of
  \<open>2 ^ 32\<close> for every backend (for instance 65536 replicas of weight 65536) the ring is empty and
  every peer is sent to the first backend.
\<close>

theorem virtual_nodes_wrap:
  assumes "ring_sorter srt" "bs \<noteq> []"
    and "\<forall>b \<in> set bs. (2 ^ 32 :: nat) dvd unat replicas * unat (be_weight b)"
  shows "fst (select peer (consistent_hash srt bs replicas sticky)) = Selected (be_addr (hd bs))"
proof -
  have "replicas * be_weight b = 0" if "b \<in> set bs" for b
  proof -
    have "unat (replicas * be_weight b) = 0" using assms(3) that by (simp add: unat_word_ariths)
    then show ?thesis by (simp add: unat_eq_zero)
  qed
  then have "ring_nodes replicas bs = []"
    by (auto simp: ring_nodes_def virtual_nodes_def in_set_enumerate_eq)
  moreover have "srt [] = []" using ring_sorter.sort_mset [OF assms(1), of "[]"] by simp
  ultimately show ?thesis
    using assms(2)
    by (cases bs) (simp_all add: consistent_hash_def rebuild_ring_def select_def backend_at_def index_slice_def)
qed

lemma heavy_weight: "be_weight (with_weight 65536 b) = 65536" "be_addr (with_weight w b) = be_addr b"
  by (simp_all add: with_weight_def max_def word_le_nat_alt)

theorem virtual_nodes_wrap_witness:
  "fst (select (peer_v4 9 1) (consistent_hash (sort_key rn_hash)
     [with_weight 65536 (backend_new (peer_v4 1 80)), with_weight 65536 (backend_new (peer_v4 2 80))] 65536 StickyIpPort)) =
   Selected (peer_v4 1 80)"
  using virtual_nodes_wrap [OF stable.ring_sorter_axioms, of "[with_weight 65536 (backend_new (peer_v4 1 80)),
      with_weight 65536 (backend_new (peer_v4 2 80))]" 65536 "peer_v4 9 1" StickyIpPort]
  by (simp add: heavy_weight) (simp add: backend_new_def)

end
