(* ===== verification/Rust_Str.thy ===== *)
theory Rust_Str
  imports Prelude "HOL-Library.Sublist"
begin

text \<open>
  The string methods of the Rust standard library the crate uses, on byte strings: splitting,
  lines, trimming of Unicode white space, and decoding of UTF-8 with and without replacement.
\<close>

fun split_once :: "char \<Rightarrow> string \<Rightarrow> (string \<times> string) option" where
  "split_once c [] = None"
| "split_once c (x # xs) =
     (if x = c then Some ([], xs)
      else (case split_once c xs of None \<Rightarrow> None | Some (a, b) \<Rightarrow> Some (x # a, b)))"

lemma split_once_none: "split_once c s = None \<longleftrightarrow> c \<notin> set s"
  by (induction s) (auto split: option.splits)

lemma split_once_someD: "split_once c s = Some (a, b) \<Longrightarrow> s = a @ c # b \<and> c \<notin> set a"
proof (induction s arbitrary: a)
  case (Cons x xs)
  then show ?case by (cases "x = c"; cases "split_once c xs") auto
qed simp

lemma split_once_append: "c \<notin> set a \<Longrightarrow> split_once c (a @ c # b) = Some (a, b)"
  by (induction a) auto

lemma split_once_some: "split_once c s = Some (a, b) \<longleftrightarrow> s = a @ c # b \<and> c \<notin> set a"
  using split_once_someD [of c s a b] split_once_append [of c a b] by blast

definition strip_prefix :: "string \<Rightarrow> string \<Rightarrow> string option" where
  "strip_prefix p s = (if prefix p s then Some (drop (length p) s) else None)"

lemma strip_prefix_some: "strip_prefix p s = Some r \<longleftrightarrow> s = p @ r"
  by (auto simp: strip_prefix_def prefix_def)

definition trim_end_matches :: "char \<Rightarrow> string \<Rightarrow> string" where
  "trim_end_matches c s = rev (dropWhile (\<lambda>x. x = c) (rev s))"

text \<open>\<open>lines\<close>: lines end at a line feed; one carriage return before it belongs to the line end.\<close>

definition strip_cr :: "string \<Rightarrow> string" where
  "strip_cr l = (if l \<noteq> [] \<and> last l = CHR 0x0D then butlast l else l)"

fun split_lines :: "string \<Rightarrow> string \<Rightarrow> string list" where
  "split_lines line [] = (if line = [] then [] else [line])"
| "split_lines line (c # cs) =
     (if c = CHR 0x0A then strip_cr line # split_lines [] cs else split_lines (line @ [c]) cs)"

definition str_lines :: "string \<Rightarrow> string list" where
  "str_lines s = split_lines [] s"

text \<open>The UTF-8 encodings of the characters with the Unicode property \<open>White_Space\<close>.\<close>

definition whitespace_seqs :: "string list" where
  "whitespace_seqs = map (map char_of)
     ([[9], [10], [11], [12], [13], [32 :: nat], [0xC2, 0x85], [0xC2, 0xA0], [0xE1, 0x9A, 0x80]] @
      map (\<lambda>b. [0xE2, 0x80, b]) ([0x80..<0x8B] @ [0xA8, 0xA9, 0xAF]) @
      [[0xE2, 0x81, 0x9F], [0xE3, 0x80, 0x80]])"

fun trim_front :: "nat \<Rightarrow> string list \<Rightarrow> string \<Rightarrow> string" where
  "trim_front 0 seqs s = s"
| "trim_front (Suc fuel) seqs s =
     (case find (\<lambda>w. prefix w s) seqs of None \<Rightarrow> s | Some w \<Rightarrow> trim_front fuel seqs (drop (length w) s))"

definition trim :: "string \<Rightarrow> string" where
  "trim s =
     (let s = trim_front (length s) whitespace_seqs s in
      rev (trim_front (length s) (map rev whitespace_seqs) (rev s)))"

section \<open>UTF-8\<close>

definition byte_at :: "string \<Rightarrow> nat \<Rightarrow> nat" where
  "byte_at s i = (if i < length s then of_char (s ! i) else 0)"

definition is_cont :: "nat \<Rightarrow> bool" where
  "is_cont b = (128 \<le> b \<and> b \<le> 191)"

definition second_of_three :: "nat \<Rightarrow> nat \<Rightarrow> bool" where
  "second_of_three b1 b2 =
     (if b1 = 0xE0 then 0xA0 \<le> b2 \<and> b2 \<le> 0xBF
      else if b1 = 0xED then 0x80 \<le> b2 \<and> b2 \<le> 0x9F
      else is_cont b2)"

definition second_of_four :: "nat \<Rightarrow> nat \<Rightarrow> bool" where
  "second_of_four b1 b2 =
     (if b1 = 0xF0 then 0x90 \<le> b2 \<and> b2 \<le> 0xBF
      else if b1 = 0xF4 then 0x80 \<le> b2 \<and> b2 \<le> 0x8F
      else is_cont b2)"

text \<open>
  The first character: whether it is well formed, and its length, or the length of the maximal
  malformed part.
\<close>

definition utf8_head :: "string \<Rightarrow> bool \<times> nat" where
  "utf8_head s =
     (let b1 = byte_at s 0; b2 = byte_at s 1 in
      if b1 < 0x80 then (True, 1)
      else if 0xC2 \<le> b1 \<and> b1 \<le> 0xDF then (if is_cont b2 then (True, 2) else (False, 1))
      else if 0xE0 \<le> b1 \<and> b1 \<le> 0xEF then
        (if \<not> second_of_three b1 b2 then (False, 1)
         else if is_cont (byte_at s 2) then (True, 3) else (False, 2))
      else if 0xF0 \<le> b1 \<and> b1 \<le> 0xF4 then
        (if \<not> second_of_four b1 b2 then (False, 1)
         else if \<not> is_cont (byte_at s 2) then (False, 2)
         else if is_cont (byte_at s 3) then (True, 4) else (False, 3))
      else (False, 1))"

lemma utf8_head_pos: "0 < snd (utf8_head s)"
  by (simp add: utf8_head_def Let_def)

function utf8_valid :: "string \<Rightarrow> bool" where
  "utf8_valid [] = True"
| "utf8_valid (c # cs) =
     (fst (utf8_head (c # cs)) \<and> utf8_valid (drop (snd (utf8_head (c # cs))) (c # cs)))"
  by pat_completeness auto
termination
proof (relation "measure length")
  fix c cs
  show "(drop (snd (utf8_head (c # cs))) (c # cs), c # cs) \<in> measure length"
    using utf8_head_pos [of "c # cs"] by (simp add: less_Suc_eq_le)
qed simp

definition replacement_char :: string where
  "replacement_char = map char_of [0xEF, 0xBF, 0xBD :: nat]"

function utf8_lossy :: "string \<Rightarrow> string" where
  "utf8_lossy [] = []"
| "utf8_lossy (c # cs) =
     (let h = utf8_head (c # cs) in
      (if fst h then take (snd h) (c # cs) else replacement_char) @ utf8_lossy (drop (snd h) (c # cs)))"
  by pat_completeness auto
termination
proof (relation "measure length")
  fix c cs and h :: "bool \<times> nat"
  assume "h = utf8_head (c # cs)"
  then show "(drop (snd h) (c # cs), c # cs) \<in> measure length"
    using utf8_head_pos [of "c # cs"] by (simp add: less_Suc_eq_le)
qed simp

lemma utf8_lossy_valid: "utf8_valid s \<Longrightarrow> utf8_lossy s = s"
proof (induction s rule: utf8_valid.induct)
  case (2 c cs)
  then have "utf8_lossy (drop (snd (utf8_head (c # cs))) (c # cs)) = drop (snd (utf8_head (c # cs))) (c # cs)"
    by simp
  then show ?case using "2.prems" by (simp add: Let_def del: drop_Suc_Cons take_Suc_Cons)
qed simp

lemma utf8_ascii_head: "of_char c < (128 :: nat) \<Longrightarrow> utf8_head (c # cs) = (True, 1)"
  by (simp add: utf8_head_def byte_at_def)

lemma utf8_ascii: "\<forall>c \<in> set s. of_char c < (128 :: nat) \<Longrightarrow> utf8_valid s"
  by (induction s) (simp_all add: utf8_ascii_head)

end
