(* ===== verification/Routing.thy ===== *)
theory Routing
  imports Net_Addr Rust_Str
begin

text \<open>
  Routing by source address (src/src/routing.rs): prefixes, groups, rules and the rule table. A
  pool in an action is shared by reference in the code; here it is an index into a store of pools
  kept by the caller.
\<close>

section \<open>Prefixes\<close>

record ip_prefix =
  pf_base :: ip_addr
  pf_len :: u8

definition prefix_v4 :: "u8 \<Rightarrow> u8 \<Rightarrow> u8 \<Rightarrow> u8 \<Rightarrow> u8 \<Rightarrow> ip_prefix" where
  "prefix_v4 a b c d prefix_len = \<lparr>pf_base = V4 (ipv4_new a b c d), pf_len = prefix_len\<rparr>"

definition prefix_v6 :: "u16 list \<Rightarrow> u8 \<Rightarrow> ip_prefix" where
  "prefix_v6 segs prefix_len = \<lparr>pf_base = V6 (ipv6_new segs), pf_len = prefix_len\<rparr>"

definition prefix_parse :: "string \<Rightarrow> ip_prefix option" where
  "prefix_parse s =
     (case split_once (CHR ''/'') s of
        None \<Rightarrow> None
      | Some (addr_str, prefix_str) \<Rightarrow>
          (case parse_ip addr_str of
             None \<Rightarrow> None
           | Some base \<Rightarrow>
               (case parse_u8 prefix_str of
                  None \<Rightarrow> None
                | Some prefix_len \<Rightarrow> Some \<lparr>pf_base = base, pf_len = of_nat prefix_len\<rparr>)))"

text \<open>The mask of the code, \<open>!0 << (w - bits)\<close>.\<close>

definition mask_bits :: "nat \<Rightarrow> 'a::len word" where
  "mask_bits bits = push_bit (LENGTH('a) - bits) (NOT 0)"

definition prefix_contains :: "ip_prefix \<Rightarrow> ip_addr \<Rightarrow> bool" where
  "prefix_contains p ip =
     (case (pf_base p, ip) of
        (V4 base_n, V4 ip_n) \<Rightarrow>
          (let bits = min (unat (pf_len p)) 32 in
           if bits = 0 then True
           else let mask = mask_bits bits in (base_n AND mask) = (ip_n AND mask))
      | (V6 base_n, V6 ip_n) \<Rightarrow>
          (let bits = min (unat (pf_len p)) 128 in
           if bits = 0 then True
           else let mask = mask_bits bits in (base_n AND mask) = (ip_n AND mask))
      | _ \<Rightarrow> False)"

section \<open>Groups, rules and the table\<close>

record ip_group =
  ig_ips :: "ip_addr list"
  ig_prefixes :: "ip_prefix list"

definition group_new :: ip_group where
  "group_new = \<lparr>ig_ips = [], ig_prefixes = []\<rparr>"

definition add_ip :: "ip_addr \<Rightarrow> ip_group \<Rightarrow> ip_group" where
  "add_ip ip g = g\<lparr>ig_ips := ig_ips g @ [ip]\<rparr>"

definition add_prefix :: "ip_prefix \<Rightarrow> ip_group \<Rightarrow> ip_group" where
  "add_prefix p g = g\<lparr>ig_prefixes := ig_prefixes g @ [p]\<rparr>"

definition group_contains :: "ip_group \<Rightarrow> ip_addr \<Rightarrow> bool" where
  "group_contains g ip = (ip \<in> set (ig_ips g) \<or> list_ex (\<lambda>p. prefix_contains p ip) (ig_prefixes g))"

type_synonym pool_ref = nat

datatype route_action = Forward socket_addr | Pool pool_ref | Reject

text \<open>How an action is logged; the length of a pool is looked up where the pools are.\<close>

fun debug_route_action :: "(pool_ref \<Rightarrow> nat) \<Rightarrow> route_action \<Rightarrow> string" where
  "debug_route_action pool_len (Forward addr) = ''Forward('' @ display_socket addr @ '')''"
| "debug_route_action pool_len (Pool pool) = ''Pool('' @ show_nat (pool_len pool) @ '' backends)''"
| "debug_route_action pool_len Reject = ''Reject''"

record routing_rule =
  rr_name :: string
  rr_source_group :: "string option"
  rr_source_ips :: "ip_addr list"
  rr_source_port_range :: "(u16 \<times> u16) option"
  rr_action :: route_action

definition rule_new :: "string \<Rightarrow> route_action \<Rightarrow> routing_rule" where
  "rule_new name action =
     \<lparr>rr_name = name, rr_source_group = None, rr_source_ips = [], rr_source_port_range = None,
      rr_action = action\<rparr>"

definition from_group :: "string \<Rightarrow> routing_rule \<Rightarrow> routing_rule" where
  "from_group g r = r\<lparr>rr_source_group := Some g\<rparr>"

definition from_ips :: "ip_addr list \<Rightarrow> routing_rule \<Rightarrow> routing_rule" where
  "from_ips ips r = r\<lparr>rr_source_ips := rr_source_ips r @ ips\<rparr>"

definition from_ip :: "ip_addr \<Rightarrow> routing_rule \<Rightarrow> routing_rule" where
  "from_ip ip r = r\<lparr>rr_source_ips := rr_source_ips r @ [ip]\<rparr>"

definition from_port_range :: "u16 \<Rightarrow> u16 \<Rightarrow> routing_rule \<Rightarrow> routing_rule" where
  "from_port_range start end' r = r\<lparr>rr_source_port_range := Some (start, end')\<rparr>"

definition from_port :: "u16 \<Rightarrow> routing_rule \<Rightarrow> routing_rule" where
  "from_port port r = from_port_range port port r"

type_synonym groups = "(string, ip_group) fmap"

definition rule_matches :: "socket_addr \<Rightarrow> groups \<Rightarrow> routing_rule \<Rightarrow> bool" where
  "rule_matches peer groups r =
     (let peer_ip = sa_ip peer; peer_port = sa_port peer in
      if (case rr_source_port_range r of
            None \<Rightarrow> False
          | Some (start, end') \<Rightarrow> peer_port < start \<or> end' < peer_port) then False
      else
        let has_ip_criteria = (rr_source_group r \<noteq> None \<or> rr_source_ips r \<noteq> []) in
        if has_ip_criteria then
          let in_exact = (peer_ip \<in> set (rr_source_ips r));
              in_group = (case rr_source_group r of
                None \<Rightarrow> False
              | Some g \<Rightarrow> (case fmlookup groups g of
                  None \<Rightarrow> False | Some grp \<Rightarrow> group_contains grp peer_ip)) in
          if \<not> in_exact \<and> \<not> in_group then False else True
        else True)"

record routing_table =
  rt_groups :: groups
  rt_rules :: "routing_rule list"
  rt_default_action :: route_action

definition table_new :: "route_action \<Rightarrow> routing_table" where
  "table_new action = \<lparr>rt_groups = fmempty, rt_rules = [], rt_default_action = action\<rparr>"

definition add_group :: "string \<Rightarrow> ip_group \<Rightarrow> routing_table \<Rightarrow> routing_table" where
  "add_group name g t = t\<lparr>rt_groups := fmupd name g (rt_groups t)\<rparr>"

definition add_rule :: "routing_rule \<Rightarrow> routing_table \<Rightarrow> routing_table" where
  "add_rule r t = t\<lparr>rt_rules := rt_rules t @ [r]\<rparr>"

definition prepend_rule :: "routing_rule \<Rightarrow> routing_table \<Rightarrow> routing_table" where
  "prepend_rule r t = t\<lparr>rt_rules := r # rt_rules t\<rparr>"

definition set_default :: "route_action \<Rightarrow> routing_table \<Rightarrow> routing_table" where
  "set_default action t = t\<lparr>rt_default_action := action\<rparr>"

fun resolve_loop :: "socket_addr \<Rightarrow> groups \<Rightarrow> route_action \<Rightarrow> routing_rule list \<Rightarrow> route_action" where
  "resolve_loop peer groups dflt [] = dflt"
| "resolve_loop peer groups dflt (r # rs) =
     (if rule_matches peer groups r then rr_action r else resolve_loop peer groups dflt rs)"

definition resolve :: "socket_addr \<Rightarrow> routing_table \<Rightarrow> route_action" where
  "resolve peer t = resolve_loop peer (rt_groups t) (rt_default_action t) (rt_rules t)"

section \<open>Lemmas\<close>

lemma mask_eq_iff:
  fixes a b :: "'a::len word"
  assumes "bits \<le> LENGTH('a)"
  shows "(a AND mask_bits bits) = (b AND mask_bits bits) \<longleftrightarrow>
    unat a div 2 ^ (LENGTH('a) - bits) = unat b div 2 ^ (LENGTH('a) - bits)"
proof -
  let ?n = "LENGTH('a) - bits"
  have "(a AND mask_bits bits) = (b AND mask_bits bits) \<longleftrightarrow> drop_bit ?n a = drop_bit ?n b"
  proof
    assume eq: "(a AND mask_bits bits) = (b AND mask_bits bits)"
    show "drop_bit ?n a = drop_bit ?n b"
    proof (rule bit_word_eqI)
      fix k assume "k < LENGTH('a)"
      have "bit (a AND mask_bits bits) (?n + k) = bit (b AND mask_bits bits) (?n + k)" by (simp only: eq)
      then have "?n + k < LENGTH('a) \<Longrightarrow> bit a (?n + k) = bit b (?n + k)"
        by (auto simp: mask_bits_def bit_simps)
      then show "bit (drop_bit ?n a) k = bit (drop_bit ?n b) k"
        by (auto simp: bit_simps dest: bit_imp_le_length)
    qed
  next
    assume eq: "drop_bit ?n a = drop_bit ?n b"
    show "(a AND mask_bits bits) = (b AND mask_bits bits)"
    proof (rule bit_word_eqI)
      fix k assume k: "k < LENGTH('a)"
      have "bit (drop_bit ?n a) (k - ?n) = bit (drop_bit ?n b) (k - ?n)" by (simp only: eq)
      then show "bit (a AND mask_bits bits) k = bit (b AND mask_bits bits) k"
        using k by (auto simp: mask_bits_def bit_simps)
    qed
  qed
  also have "\<dots> \<longleftrightarrow> unat (drop_bit ?n a) = unat (drop_bit ?n b)" by (simp only: word_unat_eq_iff)
  also have "\<dots> \<longleftrightarrow> unat a div 2 ^ ?n = unat b div 2 ^ ?n"
    unfolding unat_drop_bit_eq by (simp only: drop_bit_eq_div)
  finally show ?thesis .
qed

lemma resolve_loop_first:
  "resolve_loop peer groups dflt rs =
     (case dropWhile (\<lambda>r. \<not> rule_matches peer groups r) rs of [] \<Rightarrow> dflt | r # _ \<Rightarrow> rr_action r)"
  by (induction rs) simp_all

lemma resolve_loop_append:
  "resolve_loop peer groups dflt (rs @ rs') = resolve_loop peer groups (resolve_loop peer groups dflt rs') rs"
  by (induction rs) simp_all

section \<open>Properties\<close>

text \<open>
  A prefix contains an address exactly when both are of the same family and agree on the first
  \<open>prefix_len\<close> bits, a length beyond the width counting as the full width.
\<close>

theorem prefix_contains_iff:
  "prefix_contains \<lparr>pf_base = V4 a, pf_len = l\<rparr> (V4 b) =
     (unat a div 2 ^ (32 - min (unat l) 32) = unat b div 2 ^ (32 - min (unat l) 32)) \<and>
   prefix_contains \<lparr>pf_base = V6 c, pf_len = l\<rparr> (V6 d) =
     (unat c div 2 ^ (128 - min (unat l) 128) = unat d div 2 ^ (128 - min (unat l) 128)) \<and>
   \<not> prefix_contains \<lparr>pf_base = V4 a, pf_len = l\<rparr> (V6 d) \<and>
   \<not> prefix_contains \<lparr>pf_base = V6 c, pf_len = l\<rparr> (V4 b)"
proof (intro conjI)
  have top: "unat w div 2 ^ LENGTH('w) = 0" for w :: "'w::len word" by (rule div_less) (rule unsigned_less)
  have top32: "unat w div 2 ^ 32 = 0" for w :: u32 using top [of w] by simp
  have top128: "unat w div 2 ^ 128 = 0" for w :: u128 using top [of w] by simp
  show "prefix_contains \<lparr>pf_base = V4 a, pf_len = l\<rparr> (V4 b) =
     (unat a div 2 ^ (32 - min (unat l) 32) = unat b div 2 ^ (32 - min (unat l) 32))"
    using mask_eq_iff [of "min (unat l) 32" a b] top32 by (simp add: prefix_contains_def Let_def)
  show "prefix_contains \<lparr>pf_base = V6 c, pf_len = l\<rparr> (V6 d) =
     (unat c div 2 ^ (128 - min (unat l) 128) = unat d div 2 ^ (128 - min (unat l) 128))"
    using mask_eq_iff [of "min (unat l) 128" c d] top128 by (simp add: prefix_contains_def Let_def)
qed (simp_all add: prefix_contains_def)

text \<open>
  The first matching rule wins: the resolved action is that of a matching rule no earlier rule
  of the table precedes with a match, or the default action when none matches; a prepended rule
  takes precedence over all others, an appended one only over the default.
\<close>

theorem resolve_first_match:
  "resolve peer t =
     (case find (rule_matches peer (rt_groups t)) (rt_rules t) of
        Some r \<Rightarrow> rr_action r | None \<Rightarrow> rt_default_action t) \<and>
   resolve peer (prepend_rule r t) =
     (if rule_matches peer (rt_groups t) r then rr_action r else resolve peer t) \<and>
   resolve peer (add_rule r t) =
     (if list_ex (rule_matches peer (rt_groups t)) (rt_rules t) then resolve peer t
      else if rule_matches peer (rt_groups t) r then rr_action r else rt_default_action t)"
proof -
  have loop: "resolve_loop peer groups dflt rs =
      (case find (rule_matches peer groups) rs of Some r \<Rightarrow> rr_action r | None \<Rightarrow> dflt)" for groups dflt rs
    by (induction rs) simp_all
  have ex: "list_ex P xs \<longleftrightarrow> find P xs \<noteq> None" for P and xs :: "routing_rule list"
    by (auto simp: find_None_iff list_ex_iff)
  show ?thesis
    unfolding ex resolve_def prepend_rule_def add_rule_def
    by (simp add: resolve_loop_append) (simp add: loop split: option.splits)
qed

text \<open>
  A rule matches exactly when the source port is in its range, if it has one, and the source
  address is among its addresses or in its named group, if it names any; a group that is not defined
  has no members.
\<close>

theorem rule_matches_iff:
  "rule_matches peer groups r =
    ((case rr_source_port_range r of None \<Rightarrow> True | Some (lo, hi) \<Rightarrow> sa_port peer \<in> {lo..hi}) \<and>
     (rr_source_group r = None \<and> rr_source_ips r = [] \<or> sa_ip peer \<in> set (rr_source_ips r) \<or>
      (\<exists>g grp. rr_source_group r = Some g \<and> fmlookup groups g = Some grp \<and>
        (sa_ip peer \<in> set (ig_ips grp) \<or> (\<exists>p \<in> set (ig_prefixes grp). prefix_contains p (sa_ip peer))))))"
  by (auto simp: rule_matches_def Let_def group_contains_def list_ex_iff not_less split: option.splits)

text \<open>
  Misconfigured restrictions fail closed: a rule that names only an undefined group, or whose
  port range is empty, matches no connection, so resolving skips it.
\<close>

theorem undefined_group_fails_closed:
  assumes "rr_source_group r = Some g \<and> fmlookup (rt_groups t) g = None \<and> rr_source_ips r = [] \<or>
    (\<exists>lo hi. rr_source_port_range r = Some (lo, hi) \<and> hi < lo)"
    and "rt_rules t = before @ r # after"
  shows "resolve peer t = resolve peer (t\<lparr>rt_rules := before @ after\<rparr>)"
proof -
  have "\<not> rule_matches peer (rt_groups t) r"
    using assms(1) by (auto simp: rule_matches_iff dest: leD le_less_trans)
  then show ?thesis by (simp add: resolve_def assms(2) resolve_loop_append)
qed

theorem undefined_group_fails_closed_witness:
  "resolve (SockV4 1 2) (add_rule (from_group ''ops'' (rule_new ''a'' Reject)) (table_new (Pool 0))) = Pool 0"
  using undefined_group_fails_closed [of "from_group ''ops'' (rule_new ''a'' Reject)" "''ops''"
      "add_rule (from_group ''ops'' (rule_new ''a'' Reject)) (table_new (Pool 0))" "[]" "[]" "SockV4 1 2"]
  by (simp add: add_rule_def from_group_def rule_new_def table_new_def resolve_def)

lemma prefix_examples:
  "prefix_parse ''10.1.0.0/16'' = Some (prefix_v4 10 1 0 0 16)"
  "prefix_parse ''10.0.0.0/33'' = Some (prefix_v4 10 0 0 0 33)"
  "prefix_parse ''10.0.0.0'' = None"
  "prefix_parse ''10.0.0.0/'' = None"
  "prefix_parse ''10.0.0.0/8/8'' = None"
  by code_simp+

end
