(* ===== verification/Connection.thy ===== *)
theory Connection
  imports Std_Guards
begin

text \<open>
  Connections (src/src/handler.rs): streams, the connection that owns one with its guard session,
  and the I/O helpers that report to the guards. Sockets and TLS streams are foreign types: type
  variables of the model, and what the operating system answers to a read or a write is an argument
  of the operation.
\<close>

record connection_metadata =
  cm_peer_addr :: socket_addr
  cm_local_addr :: "socket_addr option"
  cm_tls :: bool
  cm_tls_server_name :: "string option"

definition connection_metadata_new :: "socket_addr \<Rightarrow> socket_addr option \<Rightarrow> bool \<Rightarrow> connection_metadata" where
  "connection_metadata_new peer_addr local_addr tls =
     \<lparr>cm_peer_addr = peer_addr, cm_local_addr = local_addr, cm_tls = tls, cm_tls_server_name = None\<rparr>"

section \<open>Streams\<close>

datatype ('t, 's, 'c) transport = TcpStream 't | ServerTls 's | ClientTls 'c

fun transport_is_tls :: "('t, 's, 'c) transport \<Rightarrow> bool" where
  "transport_is_tls (TcpStream _) = False"
| "transport_is_tls (ServerTls _) = True"
| "transport_is_tls (ClientTls _) = True"

fun as_tcp :: "('t, 's, 'c) transport \<Rightarrow> 't option" where
  "as_tcp (TcpStream s) = Some s"
| "as_tcp _ = None"

fun as_server_tls :: "('t, 's, 'c) transport \<Rightarrow> 's option" where
  "as_server_tls (ServerTls s) = Some s"
| "as_server_tls _ = None"

fun as_client_tls :: "('t, 's, 'c) transport \<Rightarrow> 'c option" where
  "as_client_tls (ClientTls s) = Some s"
| "as_client_tls _ = None"

text \<open>\<open>tcp()\<close>: the socket under a TLS stream is what the TLS library returns (\<open>get_ref().0\<close>).\<close>

fun transport_tcp :: "('s \<Rightarrow> 't) \<Rightarrow> ('c \<Rightarrow> 't) \<Rightarrow> ('t, 's, 'c) transport \<Rightarrow> 't" where
  "transport_tcp server_ref client_ref (TcpStream s) = s"
| "transport_tcp server_ref client_ref (ServerTls s) = server_ref s"
| "transport_tcp server_ref client_ref (ClientTls s) = client_ref s"

text \<open>Every I/O method of a transport is the method of the stream it holds.\<close>

fun transport_io :: "('t \<Rightarrow> 'r \<times> 't) \<Rightarrow> ('s \<Rightarrow> 'r \<times> 's) \<Rightarrow> ('c \<Rightarrow> 'r \<times> 'c) \<Rightarrow>
    ('t, 's, 'c) transport \<Rightarrow> 'r \<times> ('t, 's, 'c) transport" where
  "transport_io tcp server client (TcpStream s) = map_prod id TcpStream (tcp s)"
| "transport_io tcp server client (ServerTls s) = map_prod id ServerTls (server s)"
| "transport_io tcp server client (ClientTls s) = map_prod id ClientTls (client s)"

text \<open>The blocking streams, and what \<open>Read\<close> and \<open>Write\<close> do on them.\<close>

datatype ('t, 's, 'c) sync_transport = SyncTcp 't | SyncServerTls 's | SyncClientTls 'c

fun sync_transport_is_tls :: "('t, 's, 'c) sync_transport \<Rightarrow> bool" where
  "sync_transport_is_tls (SyncTcp _) = False"
| "sync_transport_is_tls (SyncServerTls _) = True"
| "sync_transport_is_tls (SyncClientTls _) = True"

fun sync_transport_io :: "('t \<Rightarrow> 'r \<times> 't) \<Rightarrow> ('s \<Rightarrow> 'r \<times> 's) \<Rightarrow> ('c \<Rightarrow> 'r \<times> 'c) \<Rightarrow>
    ('t, 's, 'c) sync_transport \<Rightarrow> 'r \<times> ('t, 's, 'c) sync_transport" where
  "sync_transport_io tcp server client (SyncTcp s) = map_prod id SyncTcp (tcp s)"
| "sync_transport_io tcp server client (SyncServerTls s) = map_prod id SyncServerTls (server s)"
| "sync_transport_io tcp server client (SyncClientTls s) = map_prod id SyncClientTls (client s)"

datatype ('a, 'b) connection_stream = AsyncStream 'a | SyncStream 'b

fun cs_is_tls :: "(('t, 's, 'c) transport, ('t2, 's2, 'c2) sync_transport) connection_stream \<Rightarrow> bool" where
  "cs_is_tls (AsyncStream s) = transport_is_tls s"
| "cs_is_tls (SyncStream s) = sync_transport_is_tls s"

fun as_async :: "('a, 'b) connection_stream \<Rightarrow> 'a option" where
  "as_async (AsyncStream s) = Some s"
| "as_async (SyncStream _) = None"

fun as_sync :: "('a, 'b) connection_stream \<Rightarrow> 'b option" where
  "as_sync (SyncStream s) = Some s"
| "as_sync (AsyncStream _) = None"

section \<open>Connections\<close>

record ('a, 'b) connection =
  cn_metadata :: connection_metadata
  cn_stream :: "('a, 'b) connection_stream option"
  cn_guard_session :: "guard_session option"

definition from_async_stream :: "connection_metadata \<Rightarrow> 'a \<Rightarrow> ('a, 'b) connection" where
  "from_async_stream metadata stream =
     \<lparr>cn_metadata = metadata, cn_stream = Some (AsyncStream stream), cn_guard_session = None\<rparr>"

definition from_async_tcp :: "connection_metadata \<Rightarrow> 't \<Rightarrow> (('t, 's, 'c) transport, 'b) connection" where
  "from_async_tcp metadata stream = from_async_stream metadata (TcpStream stream)"

definition from_async_server_tls :: "connection_metadata \<Rightarrow> 's \<Rightarrow> (('t, 's, 'c) transport, 'b) connection" where
  "from_async_server_tls metadata stream = from_async_stream metadata (ServerTls stream)"

definition from_client_tls :: "connection_metadata \<Rightarrow> 'c \<Rightarrow> (('t, 's, 'c) transport, 'b) connection" where
  "from_client_tls metadata stream = from_async_stream metadata (ClientTls stream)"

definition from_sync_stream :: "connection_metadata \<Rightarrow> 'b \<Rightarrow> ('a, 'b) connection" where
  "from_sync_stream metadata stream =
     \<lparr>cn_metadata = metadata, cn_stream = Some (SyncStream stream), cn_guard_session = None\<rparr>"

definition from_sync_tcp :: "connection_metadata \<Rightarrow> 't \<Rightarrow> ('a, ('t, 's, 'c) sync_transport) connection" where
  "from_sync_tcp metadata stream = from_sync_stream metadata (SyncTcp stream)"

definition from_sync_server_tls :: "connection_metadata \<Rightarrow> 's \<Rightarrow> ('a, ('t, 's, 'c) sync_transport) connection" where
  "from_sync_server_tls metadata stream = from_sync_stream metadata (SyncServerTls stream)"

definition from_sync_client_tls :: "connection_metadata \<Rightarrow> 'c \<Rightarrow> ('a, ('t, 's, 'c) sync_transport) connection" where
  "from_sync_client_tls metadata stream = from_sync_stream metadata (SyncClientTls stream)"

definition with_guard_session :: "guard_session \<Rightarrow> ('a, 'b) connection \<Rightarrow> ('a, 'b) connection" where
  "with_guard_session ss c = c\<lparr>cn_guard_session := Some ss\<rparr>"

definition conn_is_tls ::
    "(('t, 's, 'c) transport, ('t2, 's2, 'c2) sync_transport) connection \<Rightarrow> bool" where
  "conn_is_tls c = (case cn_stream c of None \<Rightarrow> False | Some s \<Rightarrow> cs_is_tls s)"

definition conn_metadata :: "('a, 'b) connection \<Rightarrow> connection_metadata" where
  "conn_metadata c = cn_metadata c"

definition conn_peer_addr :: "('a, 'b) connection \<Rightarrow> socket_addr" where
  "conn_peer_addr c = cm_peer_addr (cn_metadata c)"

definition conn_local_addr :: "('a, 'b) connection \<Rightarrow> socket_addr option" where
  "conn_local_addr c = cm_local_addr (cn_metadata c)"

definition conn_tls_server_name :: "('a, 'b) connection \<Rightarrow> string option" where
  "conn_tls_server_name c = cm_tls_server_name (cn_metadata c)"

definition conn_stream :: "('a, 'b) connection \<Rightarrow> ('a, 'b) connection_stream outcome" where
  "conn_stream c =
     (case cn_stream c of None \<Rightarrow> Panic ''stream was already taken'' | Some s \<Rightarrow> Ok s)"

definition async_stream :: "('a, 'b) connection \<Rightarrow> 'a option outcome" where
  "async_stream c =
     (case conn_stream c of Ok s \<Rightarrow> Ok (as_async s) | Err e \<Rightarrow> Err e | Panic msg \<Rightarrow> Panic msg)"

section \<open>I/O helpers\<close>

text \<open>
  A connection acts on its own session and on the guard stack. An I/O error of the stream becomes
  \<open>SynError::Io\<close> with its message.
\<close>

datatype 'r io = IoOk 'r | IoErr string

type_synonym ('a, 'b, 'g) conn_state = "('a, 'b) connection \<times> 'g guard_stack"

definition required_stream :: "('a, 'b) connection \<Rightarrow> unit outcome" where
  "required_stream c =
     (case cn_stream c of
        None \<Rightarrow> Err (connection_error ''stream taken'')
      | Some s \<Rightarrow>
          (case as_async s of
             None \<Rightarrow> Err (connection_error ''async stream required'')
           | Some _ \<Rightarrow> Ok ()))"

definition expected_stream :: "('a, 'b) connection \<Rightarrow> unit outcome" where
  "expected_stream c =
     (case cn_stream c of
        None \<Rightarrow> Panic ''stream taken''
      | Some s \<Rightarrow> (case as_async s of None \<Rightarrow> Panic ''async stream'' | Some _ \<Rightarrow> Ok ()))"

definition report_payload ::
    "'g guard_ops \<Rightarrow> (nat \<Rightarrow> instant) \<Rightarrow> u8 list \<Rightarrow> ('a, 'b, 'g) conn_state \<Rightarrow>
     unit outcome \<times> ('a, 'b, 'g) conn_state" where
  "report_payload ops clk payload cst =
     (case cst of (c, st) \<Rightarrow>
        case cn_guard_session c of
          None \<Rightarrow> (Ok (), c, st)
        | Some ss \<Rightarrow> (let (r, st) = record_payload ops clk payload ss st in (r, c, st)))"

definition report_touch ::
    "'g guard_ops \<Rightarrow> (nat \<Rightarrow> instant) \<Rightarrow> ('a, 'b, 'g) conn_state \<Rightarrow>
     unit outcome \<times> ('a, 'b, 'g) conn_state" where
  "report_touch ops clk cst =
     (case cst of (c, st) \<Rightarrow>
        case cn_guard_session c of
          None \<Rightarrow> (Ok (), c, st)
        | Some ss \<Rightarrow> (let (r, st) = touch ops clk ss st in (r, c, st)))"

text \<open>\<open>read\<close>: the stream delivers the bytes \<open>got\<close>, none at its end.\<close>

definition conn_read ::
    "'g guard_ops \<Rightarrow> (nat \<Rightarrow> instant) \<Rightarrow> u8 list io \<Rightarrow> ('a, 'b, 'g) conn_state \<Rightarrow>
     u8 list outcome \<times> ('a, 'b, 'g) conn_state" where
  "conn_read ops clk got cst =
     (case required_stream (fst cst) of
        Err e \<Rightarrow> (Err e, cst)
      | Panic msg \<Rightarrow> (Panic msg, cst)
      | Ok _ \<Rightarrow>
          (case got of
             IoErr msg \<Rightarrow> (Err (Io msg), cst)
           | IoOk bytes \<Rightarrow>
               if 0 < length bytes then
                 (case report_payload ops clk bytes cst of
                    (Ok _, cst) \<Rightarrow> (Ok bytes, cst)
                  | (Err e, cst) \<Rightarrow> (Err e, cst)
                  | (Panic msg, cst) \<Rightarrow> (Panic msg, cst))
               else (Ok bytes, cst)))"

definition conn_read_exact ::
    "'g guard_ops \<Rightarrow> (nat \<Rightarrow> instant) \<Rightarrow> u8 list io \<Rightarrow> ('a, 'b, 'g) conn_state \<Rightarrow>
     u8 list outcome \<times> ('a, 'b, 'g) conn_state" where
  "conn_read_exact ops clk got cst =
     (case required_stream (fst cst) of
        Err e \<Rightarrow> (Err e, cst)
      | Panic msg \<Rightarrow> (Panic msg, cst)
      | Ok _ \<Rightarrow>
          (case got of
             IoErr msg \<Rightarrow> (Err (Io msg), cst)
           | IoOk bytes \<Rightarrow>
               (case report_payload ops clk bytes cst of
                  (Ok _, cst) \<Rightarrow> (Ok bytes, cst)
                | (Err e, cst) \<Rightarrow> (Err e, cst)
                | (Panic msg, cst) \<Rightarrow> (Panic msg, cst))))"

definition conn_write_all ::
    "'g guard_ops \<Rightarrow> (nat \<Rightarrow> instant) \<Rightarrow> unit io \<Rightarrow> ('a, 'b, 'g) conn_state \<Rightarrow>
     unit outcome \<times> ('a, 'b, 'g) conn_state" where
  "conn_write_all ops clk sent cst =
     (case expected_stream (fst cst) of
        Err e \<Rightarrow> (Err e, cst)
      | Panic msg \<Rightarrow> (Panic msg, cst)
      | Ok _ \<Rightarrow>
          (case sent of
             IoErr msg \<Rightarrow> (Err (Io msg), cst)
           | IoOk _ \<Rightarrow> report_touch ops clk cst))"

definition conn_flush :: "unit io \<Rightarrow> ('a, 'b, 'g) conn_state \<Rightarrow> unit outcome \<times> ('a, 'b, 'g) conn_state" where
  "conn_flush flushed cst =
     (case expected_stream (fst cst) of
        Ok _ \<Rightarrow> (case flushed of IoErr msg \<Rightarrow> (Err (Io msg), cst) | IoOk _ \<Rightarrow> (Ok (), cst))
      | r \<Rightarrow> (r, cst))"

definition conn_shutdown :: "unit io \<Rightarrow> ('a, 'b, 'g) conn_state \<Rightarrow> unit outcome \<times> ('a, 'b, 'g) conn_state" where
  "conn_shutdown done cst =
     (case required_stream (fst cst) of
        Ok _ \<Rightarrow> (case done of IoErr msg \<Rightarrow> (Err (Io msg), cst) | IoOk _ \<Rightarrow> (Ok (), cst))
      | r \<Rightarrow> (r, cst))"

text \<open>
  Dropping a connection closes its session; then the session itself is dropped, which closes it
  again.
\<close>

definition drop_connection ::
    "'g guard_ops \<Rightarrow> (nat \<Rightarrow> instant) \<Rightarrow> ('a, 'b, 'g) conn_state \<Rightarrow> 'g guard_stack" where
  "drop_connection ops clk cst =
     (case cst of (c, st) \<Rightarrow>
        case cn_guard_session c of
          None \<Rightarrow> st
        | Some ss \<Rightarrow> (let (ss, st) = close_session ops clk ss st in drop_session ops clk ss st))"

text \<open>\<open>into_stream\<close> takes the stream out and drops the rest of the connection.\<close>

definition into_stream ::
    "'g guard_ops \<Rightarrow> (nat \<Rightarrow> instant) \<Rightarrow> ('a, 'b, 'g) conn_state \<Rightarrow>
     ('a, 'b) connection_stream outcome \<times> 'g guard_stack" where
  "into_stream ops clk cst =
     (case cst of (c, st) \<Rightarrow>
        (case cn_stream c of None \<Rightarrow> Panic ''stream was already taken'' | Some s \<Rightarrow> Ok s,
         drop_connection ops clk (c\<lparr>cn_stream := None\<rparr>, st)))"

section \<open>Lemmas\<close>

datatype conn_op =
    ConnRead "nat \<Rightarrow> instant" "u8 list io"
  | ConnReadExact "nat \<Rightarrow> instant" "u8 list io"
  | ConnWriteAll "nat \<Rightarrow> instant" "unit io"
  | ConnFlush "unit io"
  | ConnShutdown "unit io"

fun conn_step :: "'g guard_ops \<Rightarrow> conn_op \<Rightarrow> ('a, 'b, 'g) conn_state \<Rightarrow> ('a, 'b, 'g) conn_state" where
  "conn_step ops (ConnRead clk got) cst = snd (conn_read ops clk got cst)"
| "conn_step ops (ConnReadExact clk got) cst = snd (conn_read_exact ops clk got cst)"
| "conn_step ops (ConnWriteAll clk sent) cst = snd (conn_write_all ops clk sent cst)"
| "conn_step ops (ConnFlush r) cst = snd (conn_flush r cst)"
| "conn_step ops (ConnShutdown r) cst = snd (conn_shutdown r cst)"

text \<open>What an operation of a connection does to its session is one session operation or none.\<close>

lemma report_payload_session:
  assumes "cn_guard_session c = Some ss"
  shows "\<exists>st'. snd (report_payload ops clk payload (c, st)) = (c, st') \<and>
    session_step ops (RecordPayload clk payload) (ss, st) = (ss, st')"
  using assms by (simp add: report_payload_def split_beta)

lemma report_touch_session:
  assumes "cn_guard_session c = Some ss"
  shows "\<exists>st'. snd (report_touch ops clk (c, st)) = (c, st') \<and> session_step ops (Touch clk) (ss, st) = (ss, st')"
  using assms by (simp add: report_touch_def split_beta)

lemma conn_step_session:
  assumes "cn_guard_session c = Some ss"
  shows "\<exists>cs st'. conn_step ops op (c, st) = (c, st') \<and> fold (session_step ops) cs (ss, st) = (ss, st')"
proof -
  have skip: "\<exists>cs st'. (c, st) = (c, st') \<and> fold (session_step ops) cs (ss, st) = (ss, st')"
    by (intro exI [of _ "[]"]) simp
  have payload: "\<exists>cs st'. snd (report_payload ops clk payload (c, st)) = (c, st') \<and>
      fold (session_step ops) cs (ss, st) = (ss, st')" for clk payload
    using report_payload_session [OF assms, of ops clk payload st] by (metis fold_simps)
  have touched: "\<exists>cs st'. snd (report_touch ops clk (c, st)) = (c, st') \<and>
      fold (session_step ops) cs (ss, st) = (ss, st')" for clk
    using report_touch_session [OF assms, of ops clk st] by (metis fold_simps)
  have rp: "snd (case report_payload ops clk payload (c, st) of
        (Ok _, cst) \<Rightarrow> (Ok payload, cst) | (Err e, cst) \<Rightarrow> (Err e, cst) | (Panic msg, cst) \<Rightarrow> (Panic msg, cst)) =
      snd (report_payload ops clk payload (c, st))" for clk payload
    by (simp split: prod.splits outcome.splits)
  show ?thesis
    using skip payload touched
    by (cases op) (auto simp: conn_read_def conn_read_exact_def conn_write_all_def conn_flush_def
        conn_shutdown_def rp split: outcome.splits io.splits)
qed

lemma conn_steps_session:
  assumes "cn_guard_session c = Some ss"
  shows "\<exists>cs st'. fold (conn_step ops) os (c, st) = (c, st') \<and> fold (session_step ops) cs (ss, st) = (ss, st')"
proof (induction os arbitrary: st)
  case Nil
  show ?case by (intro exI [of _ "[]"]) simp
next
  case (Cons op os)
  obtain cs st1 where one: "conn_step ops op (c, st) = (c, st1)" "fold (session_step ops) cs (ss, st) = (ss, st1)"
    using conn_step_session [OF assms] by blast
  obtain cs' st2 where rest: "fold (conn_step ops) os (c, st1) = (c, st2)"
      "fold (session_step ops) cs' (ss, st1) = (ss, st2)"
    using Cons.IH by blast
  then have "fold (session_step ops) (cs @ cs') (ss, st) = (ss, st2)" using one(2) by simp
  moreover have "fold (conn_step ops) (op # os) (c, st) = (c, st2)" using one(1) rest(1) by simp
  ultimately show ?case by blast
qed

lemma drop_connection_session:
  assumes "cn_guard_session c = Some ss"
  shows "drop_connection ops clk (c, st) = drop_session ops clk ss st"
  using assms
  by (auto simp: drop_connection_def drop_session_def close_session_def Let_def split: prod.splits)

section \<open>Properties\<close>

text \<open>
  A guarded connection gives back what it holds: after the reservation, the establishment, any
  sequence of reads, writes, flushes and shutdowns with any results of the socket, and the drop of the
  connection, every guard counts for it what it counted before the reservation; the operations never
  lose the stream.
\<close>

theorem connection_gives_everything_back:
  assumes "context_ok ctx" "all_ready ctx st" "gs_reserve std_ops clk ctx st = (Ok ss, st1)"
    and "mark_established std_ops clk1 ss st1 = (r, ss2, st2)"
    and "fold (conn_step std_ops) os (with_guard_session ss2 c0, st2) = (c, st3)"
  shows "map (std_usage ctx) (gs_guards (drop_connection std_ops clk2 (c, st3))) =
      map (std_usage ctx) (gs_guards st) \<and> cn_stream c = cn_stream c0"
proof -
  have s: "cn_guard_session (with_guard_session ss2 c0) = Some ss2" by (simp add: with_guard_session_def)
  obtain cs where c: "c = with_guard_session ss2 c0" "fold (session_step std_ops) cs (ss2, st2) = (ss2, st3)"
    using conn_steps_session [OF s, of std_ops os st2] assms(5) by auto
  have "fold (session_step std_ops) (MarkEstablished clk1 # cs) (ss, st1) = (ss2, st3)"
    using assms(4) c(2) by simp
  from session_gives_everything_back_aux [OF assms(1-3) this]
  show ?thesis using drop_connection_session [OF s, of std_ops clk2 st3] c(1) by (simp add: with_guard_session_def)
qed

theorem connection_gives_everything_back_witness:
  "\<exists>c st3. fold (conn_step std_ops) [ConnRead id (IoOk [1, 2, 3, 4, 5]), ConnWriteAll id (IoErr ''reset'')]
       (with_guard_session (fst (snd (mark_established std_ops id
          (case fst (gs_reserve std_ops id (demo_ctx 1) open_stack) of Ok ss \<Rightarrow> ss)
          (snd (gs_reserve std_ops id (demo_ctx 1) open_stack)))))
        (from_async_tcp (connection_metadata_new (gc_peer_addr (demo_ctx 1)) None False) ()),
        snd (snd (mark_established std_ops id
          (case fst (gs_reserve std_ops id (demo_ctx 1) open_stack) of Ok ss \<Rightarrow> ss)
          (snd (gs_reserve std_ops id (demo_ctx 1) open_stack))))) =
       (c :: ((unit, unit, unit) transport, unit) connection, st3) \<and>
     map (std_usage (demo_ctx 1)) (gs_guards (drop_connection std_ops id (c, st3))) =
     map (std_usage (demo_ctx 1)) (gs_guards open_stack)"
proof -
  obtain ss st1 where r: "gs_reserve std_ops id (demo_ctx 1) open_stack = (Ok ss, st1)" by (rule open_stack_reserves)
  obtain e ss2 st2 where m: "mark_established std_ops id ss st1 = (e, ss2, st2)" by (metis surj_pair)
  obtain c :: "((unit, unit, unit) transport, unit) connection" and st3 where
    f: "fold (conn_step std_ops) [ConnRead id (IoOk [1, 2, 3, 4, 5]), ConnWriteAll id (IoErr ''reset'')]
      (with_guard_session ss2 (from_async_tcp (connection_metadata_new (gc_peer_addr (demo_ctx 1)) None False) ()), st2) = (c, st3)"
    by (metis surj_pair)
  have "all_ready (demo_ctx 1) open_stack" by (simp add: open_stack_def)
  from connection_gives_everything_back [OF demo_ctx_ok this r m f, of id] f show ?thesis
    by (simp only: r m fst_conv snd_conv outcome.case) blast
qed

text \<open>
  Taking the stream out of a connection ends its guard session at once: \<open>into_stream\<close> hands the
  open stream to the caller, and every guard already counts what it counted before the reservation, so
  the connection goes on outside all limits.
\<close>

theorem into_stream_escapes_guards:
  assumes "context_ok ctx" "all_ready ctx st" "gs_reserve std_ops clk ctx st = (Ok ss, st1)"
    and "mark_established std_ops clk1 ss st1 = (r, ss2, st2)" "cn_stream c0 = Some s"
  shows "\<exists>st3. into_stream std_ops clk2 (with_guard_session ss2 c0, st2) = (Ok s, st3) \<and>
    map (std_usage ctx) (gs_guards st3) = map (std_usage ctx) (gs_guards st)"
proof -
  have "fold (session_step std_ops) [MarkEstablished clk1] (ss, st1) = (ss2, st2)" using assms(4) by simp
  from session_gives_everything_back_aux [OF assms(1-3) this, of clk2] show ?thesis
    using assms(5) drop_connection_session [of "with_guard_session ss2 c0\<lparr>cn_stream := None\<rparr>" ss2 std_ops clk2 st2]
    by (simp add: into_stream_def with_guard_session_def)
qed

theorem into_stream_escapes_guards_witness:
  "\<exists>ss ss2 st2 st3. fst (gs_reserve std_ops id (demo_ctx 1) open_stack) = Ok ss \<and>
     into_stream std_ops id (with_guard_session ss2
       (from_sync_tcp (connection_metadata_new (gc_peer_addr (demo_ctx 1)) None False) () ::
         (unit, (unit, unit, unit) sync_transport) connection), st2) = (Ok (SyncStream (SyncTcp ())), st3) \<and>
     map (std_usage (demo_ctx 1)) (gs_guards st3) = map (std_usage (demo_ctx 1)) (gs_guards open_stack)"
proof -
  obtain ss st1 where r: "gs_reserve std_ops id (demo_ctx 1) open_stack = (Ok ss, st1)" by (rule open_stack_reserves)
  obtain e ss2 st2 where m: "mark_established std_ops id ss st1 = (e, ss2, st2)" by (metis surj_pair)
  let ?c0 = "from_sync_tcp (connection_metadata_new (gc_peer_addr (demo_ctx 1)) None False) () ::
    (unit, (unit, unit, unit) sync_transport) connection"
  have "all_ready (demo_ctx 1) open_stack" by (simp add: open_stack_def)
  moreover have "cn_stream ?c0 = Some (SyncStream (SyncTcp ()))" by (simp add: from_sync_tcp_def from_sync_stream_def)
  ultimately show ?thesis
    using into_stream_escapes_guards [OF demo_ctx_ok _ r m, of ?c0 "SyncStream (SyncTcp ())" id] r by fastforce
qed

text \<open>
  The async helpers refuse a sync connection in two ways: reads and shutdown answer with an error,
  \<open>write_all\<close> and \<open>flush\<close> panic; either way no guard is called.
\<close>

theorem async_helpers_on_sync_stream:
  "let cst = (from_sync_stream metadata s, st) in
   conn_read ops clk got cst = (Err (Runtime ''async stream required''), cst) \<and>
   conn_read_exact ops clk got cst = (Err (Runtime ''async stream required''), cst) \<and>
   conn_shutdown r cst = (Err (Runtime ''async stream required''), cst) \<and>
   conn_write_all ops clk r cst = (Panic ''async stream'', cst) \<and>
   conn_flush r cst = (Panic ''async stream'', cst)"
  by (simp add: conn_read_def conn_read_exact_def conn_shutdown_def conn_write_all_def conn_flush_def
      required_stream_def expected_stream_def from_sync_stream_def connection_error_def)

end
