(* ===== verification/Connection_Filter.thy ===== *)
theory Connection_Filter
  imports Connection
begin

text \<open>
  Connection filters (src/src/connection_filter.rs). The trait has one method, so a filter is a
  function from the connection to a result; the program may supply its own, and a composite filter
  holds a list of them.
\<close>

type_synonym ('a, 'b) connection_filter = "('a, 'b) connection \<Rightarrow> unit outcome"

definition conn_peer_ip :: "('a, 'b) connection \<Rightarrow> ip_addr" where
  "conn_peer_ip conn = sa_ip (conn_peer_addr conn)"

record ip_whitelist_filter =
  allowed_ips :: "ip_addr set"

definition ip_whitelist_new :: "ip_addr list \<Rightarrow> ip_whitelist_filter" where
  "ip_whitelist_new ips = \<lparr>allowed_ips = set ips\<rparr>"

definition ip_whitelist_filter :: "ip_whitelist_filter \<Rightarrow> ('a, 'b) connection_filter" where
  "ip_whitelist_filter f conn =
     (if conn_peer_ip conn \<in> allowed_ips f then Ok ()
      else Err (runtime_error ''Connection from IP not in whitelist''))"

record ip_blocklist_filter =
  blocked_ips :: "ip_addr set"

definition ip_blocklist_new :: "ip_addr list \<Rightarrow> ip_blocklist_filter" where
  "ip_blocklist_new ips = \<lparr>blocked_ips = set ips\<rparr>"

definition ip_blocklist_filter :: "ip_blocklist_filter \<Rightarrow> ('a, 'b) connection_filter" where
  "ip_blocklist_filter f conn =
     (if conn_peer_ip conn \<in> blocked_ips f then Err (runtime_error ''Connection from blocked IP'')
      else Ok ())"

definition tls_only_filter :: "('a, 'b) connection_filter" where
  "tls_only_filter conn =
     (if cm_tls (cn_metadata conn) then Ok ()
      else Err (runtime_error ''TLS required for this connection''))"

record ('a, 'b) composite_filter =
  cf_filters :: "('a, 'b) connection_filter list"

definition composite_new :: "('a, 'b) composite_filter" where
  "composite_new = \<lparr>cf_filters = []\<rparr>"

definition add_filter :: "('a, 'b) connection_filter \<Rightarrow> ('a, 'b) composite_filter \<Rightarrow> ('a, 'b) composite_filter" where
  "add_filter f c = c\<lparr>cf_filters := cf_filters c @ [f]\<rparr>"

fun filter_loop :: "('a, 'b) connection_filter list \<Rightarrow> ('a, 'b) connection_filter" where
  "filter_loop [] conn = Ok ()"
| "filter_loop (f # fs) conn =
     (case f conn of Ok _ \<Rightarrow> filter_loop fs conn | Err e \<Rightarrow> Err e | Panic msg \<Rightarrow> Panic msg)"

definition composite_filter :: "('a, 'b) composite_filter \<Rightarrow> ('a, 'b) connection_filter" where
  "composite_filter c conn = filter_loop (cf_filters c) conn"

section \<open>Lemmas\<close>

lemma filter_loop_append:
  "filter_loop (fs @ gs) conn =
     (case filter_loop fs conn of Ok _ \<Rightarrow> filter_loop gs conn | r \<Rightarrow> r)"
  by (induction fs) (auto split: outcome.splits)

lemma filter_loop_ok: "filter_loop fs conn = Ok () \<longleftrightarrow> (\<forall>f \<in> set fs. f conn = Ok ())"
  by (induction fs) (auto split: outcome.splits)

lemma composite_added:
  "composite_filter (fold add_filter fs composite_new) conn = filter_loop fs conn"
proof -
  have "cf_filters (fold add_filter fs c) = cf_filters c @ fs" for c :: "('a, 'b) composite_filter"
    by (induction fs arbitrary: c) (simp_all add: add_filter_def)
  then show ?thesis by (simp add: composite_filter_def composite_new_def)
qed

text \<open>
  A composite filter admits a connection exactly when every filter added to it does; otherwise
  its answer is that of the first filter, in the order of addition, that does not admit it, and a
  composite inside a composite behaves as its filters written in its place.
\<close>

theorem composite_filter_conjunction:
  "(composite_filter (fold add_filter fs composite_new) conn = Ok () \<longleftrightarrow> (\<forall>f \<in> set fs. f conn = Ok ())) \<and>
   composite_filter (fold add_filter fs composite_new) conn =
     (case dropWhile (\<lambda>f. f conn = Ok ()) fs of [] \<Rightarrow> Ok () | f # _ \<Rightarrow> f conn) \<and>
   composite_filter (fold add_filter (fs @ [composite_filter (fold add_filter gs composite_new)] @ hs) composite_new) conn =
     composite_filter (fold add_filter (fs @ gs @ hs) composite_new) conn"
proof (intro conjI)
  show "composite_filter (fold add_filter fs composite_new) conn =
     (case dropWhile (\<lambda>f. f conn = Ok ()) fs of [] \<Rightarrow> Ok () | f # _ \<Rightarrow> f conn)"
    unfolding composite_added by (induction fs) (auto split: outcome.splits)
  show "composite_filter (fold add_filter (fs @ [composite_filter (fold add_filter gs composite_new)] @ hs) composite_new) conn =
     composite_filter (fold add_filter (fs @ gs @ hs) composite_new) conn"
    unfolding composite_added filter_loop_append by (auto simp: composite_added split: outcome.splits)
qed (simp add: composite_added filter_loop_ok)

theorem composite_filter_conjunction_witness:
  "composite_filter (fold add_filter [tls_only_filter, ip_blocklist_filter (ip_blocklist_new [])] composite_new)
     (from_async_stream (connection_metadata_new (SockV4 1 80) None False) (TcpStream ()) ::
       ((unit, unit, unit) transport, unit) connection) =
   Err (runtime_error ''TLS required for this connection'')"
  using composite_filter_conjunction [of "[tls_only_filter, ip_blocklist_filter (ip_blocklist_new [])]"
      "from_async_stream (connection_metadata_new (SockV4 1 80) None False) (TcpStream ()) ::
        ((unit, unit, unit) transport, unit) connection"]
  by (simp add: tls_only_filter_def from_async_stream_def connection_metadata_new_def)

text \<open>The three concrete filters, as decisions on the metadata.\<close>

lemma concrete_filters:
  "ip_whitelist_filter (ip_whitelist_new ips) conn = Ok () \<longleftrightarrow> conn_peer_ip conn \<in> set ips"
  "ip_blocklist_filter (ip_blocklist_new ips) conn = Ok () \<longleftrightarrow> conn_peer_ip conn \<notin> set ips"
  "tls_only_filter conn = Ok () \<longleftrightarrow> cm_tls (cn_metadata conn)"
  by (simp_all add: ip_whitelist_filter_def ip_whitelist_new_def ip_blocklist_filter_def
      ip_blocklist_new_def tls_only_filter_def)

end
