(* ===== verification/Config.thy ===== *)
theory Config
  imports Std_Guards Rust_Str
begin

text \<open>
  Configuration (src/src/config.rs): the accept mode, PEM sources, the TLS, server and client
  configurations and their builders. A builder holds the configuration it builds, so its state is
  that configuration. \<open>GuardStackConfig\<close> is in \<open>Std_Guards\<close>. The number of processors the default
  worker count asks for is an argument.
\<close>

datatype accept_mode = AcceptTcp | AcceptTls | AcceptMixed

definition accept_mode_default :: accept_mode where
  "accept_mode_default = AcceptTcp"

datatype pem_source = PemFile string | PemInline string

definition pem_file :: "string \<Rightarrow> pem_source" where
  "pem_file path = PemFile path"

definition inline_pem :: "string \<Rightarrow> pem_source" where
  "inline_pem pem = PemInline pem"

definition from_pem_bytes :: "u8 list \<Rightarrow> pem_source" where
  "from_pem_bytes bytes = PemInline (utf8_lossy (of_bytes bytes))"

definition pem_from_file :: "string \<Rightarrow> pem_source" where
  "pem_from_file path = pem_file path"

section \<open>TLS\<close>

record tls_config =
  tls_enabled :: bool
  tls_server_name :: "string option"
  tls_certificate_chain :: "pem_source option"
  tls_private_key :: "pem_source option"
  tls_client_certificate_chain :: "pem_source option"
  tls_client_private_key :: "pem_source option"
  tls_trust_anchors :: "pem_source list"
  tls_alpn_protocols :: "string list"
  tls_verify_peer :: bool
  tls_use_system_roots :: bool
  tls_require_client_auth :: bool

definition tls_config_default :: tls_config where
  "tls_config_default =
     \<lparr>tls_enabled = False, tls_server_name = None, tls_certificate_chain = None, tls_private_key = None,
      tls_client_certificate_chain = None, tls_client_private_key = None, tls_trust_anchors = [],
      tls_alpn_protocols = [''h2'', ''http/1.1''], tls_verify_peer = True, tls_use_system_roots = True,
      tls_require_client_auth = False\<rparr>"

definition tls_builder :: tls_config where
  "tls_builder = tls_config_default"

definition tls_disabled :: tls_config where
  "tls_disabled = tls_config_default"

definition build_enabled :: "bool \<Rightarrow> tls_config \<Rightarrow> tls_config" where
  "build_enabled v c = c\<lparr>tls_enabled := v\<rparr>"

definition build_server_name :: "string \<Rightarrow> tls_config \<Rightarrow> tls_config" where
  "build_server_name name c = c\<lparr>tls_server_name := Some name\<rparr>"

definition build_certificate_chain :: "pem_source \<Rightarrow> tls_config \<Rightarrow> tls_config" where
  "build_certificate_chain src c = c\<lparr>tls_certificate_chain := Some src\<rparr>"

definition build_private_key :: "pem_source \<Rightarrow> tls_config \<Rightarrow> tls_config" where
  "build_private_key src c = c\<lparr>tls_private_key := Some src\<rparr>"

definition build_client_certificate_chain :: "pem_source \<Rightarrow> tls_config \<Rightarrow> tls_config" where
  "build_client_certificate_chain src c = c\<lparr>tls_client_certificate_chain := Some src\<rparr>"

definition build_client_private_key :: "pem_source \<Rightarrow> tls_config \<Rightarrow> tls_config" where
  "build_client_private_key src c = c\<lparr>tls_client_private_key := Some src\<rparr>"

definition build_trust_anchor :: "pem_source \<Rightarrow> tls_config \<Rightarrow> tls_config" where
  "build_trust_anchor src c = c\<lparr>tls_trust_anchors := tls_trust_anchors c @ [src]\<rparr>"

definition build_alpn_protocol :: "string \<Rightarrow> tls_config \<Rightarrow> tls_config" where
  "build_alpn_protocol protocol c = c\<lparr>tls_alpn_protocols := tls_alpn_protocols c @ [protocol]\<rparr>"

definition build_alpn_protocols :: "string list \<Rightarrow> tls_config \<Rightarrow> tls_config" where
  "build_alpn_protocols protocols c = c\<lparr>tls_alpn_protocols := protocols\<rparr>"

definition build_verify_peer :: "bool \<Rightarrow> tls_config \<Rightarrow> tls_config" where
  "build_verify_peer v c = c\<lparr>tls_verify_peer := v\<rparr>"

definition build_use_system_roots :: "bool \<Rightarrow> tls_config \<Rightarrow> tls_config" where
  "build_use_system_roots v c = c\<lparr>tls_use_system_roots := v\<rparr>"

definition build_require_client_auth :: "bool \<Rightarrow> tls_config \<Rightarrow> tls_config" where
  "build_require_client_auth v c = c\<lparr>tls_require_client_auth := v\<rparr>"

section \<open>Server\<close>

record server_config =
  svc_bind_addr :: socket_addr
  svc_worker_threads :: usize
  svc_connection_timeout :: duration
  svc_max_connections :: usize
  svc_tcp_nodelay :: bool
  svc_tls :: tls_config
  svc_guards :: guard_stack_config
  svc_name :: string
  svc_accept_mode :: accept_mode

definition guard_stack_config_default :: guard_stack_config where
  "guard_stack_config_default =
     \<lparr>gsc_rate_limiter = None, gsc_ip_ban = None, gsc_throttle = None, gsc_syn_guard = None,
      gsc_slow_loris = None, gsc_udp_amplification = None\<rparr>"

definition local_7000 :: socket_addr where
  "local_7000 = SockV4 (ipv4_new 127 0 0 1) 7000"

text \<open>\<open>available_parallelism\<close> answers a positive number or an error, here \<open>None\<close>.\<close>

definition server_config_default :: "usize option \<Rightarrow> server_config" where
  "server_config_default parallelism =
     \<lparr>svc_bind_addr = local_7000,
      svc_worker_threads = (case parallelism of Some n \<Rightarrow> n | None \<Rightarrow> 4),
      svc_connection_timeout = secs 30, svc_max_connections = 100000, svc_tcp_nodelay = True,
      svc_tls = tls_config_default, svc_guards = guard_stack_config_default,
      svc_name = ''synclaire-server'', svc_accept_mode = AcceptTcp\<rparr>"

definition server_builder :: "usize option \<Rightarrow> server_config" where
  "server_builder parallelism = server_config_default parallelism"

definition server_bind_addr :: "socket_addr \<Rightarrow> server_config \<Rightarrow> server_config" where
  "server_bind_addr addr c = c\<lparr>svc_bind_addr := addr\<rparr>"

definition server_worker_threads :: "usize \<Rightarrow> server_config \<Rightarrow> server_config" where
  "server_worker_threads n c = c\<lparr>svc_worker_threads := max n 1\<rparr>"

definition server_connection_timeout :: "duration \<Rightarrow> server_config \<Rightarrow> server_config" where
  "server_connection_timeout d c = c\<lparr>svc_connection_timeout := d\<rparr>"

definition server_max_connections :: "usize \<Rightarrow> server_config \<Rightarrow> server_config" where
  "server_max_connections n c = c\<lparr>svc_max_connections := max n 1\<rparr>"

definition server_tcp_nodelay :: "bool \<Rightarrow> server_config \<Rightarrow> server_config" where
  "server_tcp_nodelay v c = c\<lparr>svc_tcp_nodelay := v\<rparr>"

definition server_tls :: "tls_config \<Rightarrow> server_config \<Rightarrow> server_config" where
  "server_tls tls c = c\<lparr>svc_tls := tls\<rparr>"

definition server_guards :: "guard_stack_config \<Rightarrow> server_config \<Rightarrow> server_config" where
  "server_guards guards c = c\<lparr>svc_guards := guards\<rparr>"

definition server_config_name :: "string \<Rightarrow> server_config \<Rightarrow> server_config" where
  "server_config_name name c = c\<lparr>svc_name := name\<rparr>"

definition server_accept_mode :: "accept_mode \<Rightarrow> server_config \<Rightarrow> server_config" where
  "server_accept_mode mode c = c\<lparr>svc_accept_mode := mode\<rparr>"

section \<open>Client\<close>

record client_config =
  clc_connect_addr :: socket_addr
  clc_connection_timeout :: duration
  clc_tcp_nodelay :: bool
  clc_tls :: tls_config
  clc_name :: string

definition client_config_default :: client_config where
  "client_config_default =
     \<lparr>clc_connect_addr = local_7000, clc_connection_timeout = secs 10, clc_tcp_nodelay = True,
      clc_tls = tls_config_default, clc_name = ''synclaire-client''\<rparr>"

definition client_builder :: client_config where
  "client_builder = client_config_default"

definition client_connect_addr :: "socket_addr \<Rightarrow> client_config \<Rightarrow> client_config" where
  "client_connect_addr addr c = c\<lparr>clc_connect_addr := addr\<rparr>"

definition client_connection_timeout :: "duration \<Rightarrow> client_config \<Rightarrow> client_config" where
  "client_connection_timeout d c = c\<lparr>clc_connection_timeout := d\<rparr>"

definition client_tcp_nodelay :: "bool \<Rightarrow> client_config \<Rightarrow> client_config" where
  "client_tcp_nodelay v c = c\<lparr>clc_tcp_nodelay := v\<rparr>"

definition client_tls :: "tls_config \<Rightarrow> client_config \<Rightarrow> client_config" where
  "client_tls tls c = c\<lparr>clc_tls := tls\<rparr>"

definition client_config_name :: "string \<Rightarrow> client_config \<Rightarrow> client_config" where
  "client_config_name name c = c\<lparr>clc_name := name\<rparr>"

section \<open>What a builder can reach\<close>

datatype server_build_op =
    BindAddr socket_addr | WorkerThreads usize | ConnectionTimeout duration | MaxConnections usize
  | TcpNodelay bool | ServerTlsConfig tls_config | ServerGuards guard_stack_config | ServerName string
  | ServerAcceptMode accept_mode

fun server_build :: "server_build_op \<Rightarrow> server_config \<Rightarrow> server_config" where
  "server_build (BindAddr a) = server_bind_addr a"
| "server_build (WorkerThreads n) = server_worker_threads n"
| "server_build (ConnectionTimeout d) = server_connection_timeout d"
| "server_build (MaxConnections n) = server_max_connections n"
| "server_build (TcpNodelay v) = server_tcp_nodelay v"
| "server_build (ServerTlsConfig t) = server_tls t"
| "server_build (ServerGuards g) = server_guards g"
| "server_build (ServerName n) = server_config_name n"
| "server_build (ServerAcceptMode m) = server_accept_mode m"

lemmas server_build_defs = server_bind_addr_def server_worker_threads_def server_connection_timeout_def
  server_max_connections_def server_tcp_nodelay_def server_tls_def server_guards_def
  server_config_name_def server_accept_mode_def

text \<open>What the servers rely on: somebody to do the work and room for a connection.\<close>

definition server_config_ok :: "server_config \<Rightarrow> bool" where
  "server_config_ok c \<longleftrightarrow> 0 < svc_worker_threads c \<and> 0 < svc_max_connections c"

lemma server_build_ok: "server_config_ok c \<Longrightarrow> server_config_ok (server_build op c)"
  by (cases op) (simp_all add: server_config_ok_def server_build_defs)

lemma server_builds_ok: "server_config_ok c \<Longrightarrow> server_config_ok (fold server_build os c)"
  by (induction os arbitrary: c) (simp_all add: server_build_ok)

text \<open>
  C40. Whatever the calls of the server builder and whatever the machine answers about its processors,
  the configuration that is built is well formed: at least one worker thread and room for at least
  one connection.
\<close>

theorem server_builder_well_formed:
  assumes "parallelism \<noteq> Some 0"
  shows "server_config_ok (fold server_build os (server_builder parallelism))"
proof (rule server_builds_ok)
  show "server_config_ok (server_builder parallelism)"
    using assms by (auto simp: server_config_ok_def server_builder_def server_config_default_def split: option.splits)
qed

theorem server_builder_well_formed_witness:
  "server_config_ok (fold server_build [WorkerThreads 0, MaxConnections 0] (server_builder None))"
  by (rule server_builder_well_formed) simp

end
