(* ===== verification/Base64.thy ===== *)
theory Base64
  imports Rust_Str
begin

text \<open>
  The base64 codec of the proxy (module \<open>base64\<close> at the end of src/src/proxy.rs), with its 32-bit
  accumulators, and the round trip.
\<close>

definition base64_chars :: string where
  "base64_chars = ''ABCDEFGHIJKLMNOPQRSTUVWXYZabcdefghijklmnopqrstuvwxyz0123456789+/''"

definition base64_char :: "u32 \<Rightarrow> char" where
  "base64_char v = base64_chars ! unat (v AND 0x3F)"

definition encode_chunk :: "u8 list \<Rightarrow> string" where
  "encode_chunk chunk =
     (let b1 = chunk ! 0;
          b2 = (if 1 < length chunk then chunk ! 1 else 0);
          b3 = (if 2 < length chunk then chunk ! 2 else 0);
          n = (push_bit 16 (ucast b1) OR push_bit 8 (ucast b2) OR ucast b3 :: u32) in
      [base64_char (drop_bit 18 n), base64_char (drop_bit 12 n),
       if 1 < length chunk then base64_char (drop_bit 6 n) else CHR ''='',
       if 2 < length chunk then base64_char n else CHR ''=''])"

fun encode_chunks :: "u8 list \<Rightarrow> string" where
  "encode_chunks (b1 # b2 # b3 # rest) = encode_chunk [b1, b2, b3] @ encode_chunks rest"
| "encode_chunks [] = []"
| "encode_chunks chunk = encode_chunk chunk"

definition base64_encode :: "string \<Rightarrow> string" where
  "base64_encode input = encode_chunks (as_bytes input)"

definition base64_value :: "char \<Rightarrow> u32 option" where
  "base64_value ch =
     (let c = (of_char ch :: nat) in
      if 65 \<le> c \<and> c \<le> 90 then Some (of_nat (c - 65))
      else if 97 \<le> c \<and> c \<le> 122 then Some (of_nat (c - 97 + 26))
      else if 48 \<le> c \<and> c \<le> 57 then Some (of_nat (c - 48 + 52))
      else if c = 43 then Some 62
      else if c = 47 then Some 63
      else None)"

fun decode_loop :: "u32 \<Rightarrow> nat \<Rightarrow> string \<Rightarrow> u8 list \<Rightarrow> string + u8 list" where
  "decode_loop n bits [] acc = Inr acc"
| "decode_loop n bits (c # cs) acc =
     (case base64_value c of
        None \<Rightarrow> Inl ''Invalid base64 character''
      | Some val \<Rightarrow>
          let n = push_bit 6 n OR val; bits = bits + 6 in
          if 8 \<le> bits
          then decode_loop n (bits - 8) cs (acc @ [ucast (drop_bit (bits - 8) n AND 0xFF)])
          else decode_loop n bits cs acc)"

definition base64_decode :: "string \<Rightarrow> string + u8 list" where
  "base64_decode input = decode_loop 0 0 (trim_end_matches (CHR ''='') input) []"

section \<open>Round trip\<close>

lemma base64_chars_codes: "map (of_char :: char \<Rightarrow> nat) base64_chars = [65..<91] @ [97..<123] @ [48..<58] @ [43, 47]"
  by (simp add: base64_chars_def upt_rec)

lemma base64_chars_code:
  assumes "k < 64"
  shows "(of_char (base64_chars ! k) :: nat) =
    (if k < 26 then 65 + k else if k < 52 then 71 + k else if k < 62 then k - 4 else if k < 63 then 43 else 47)"
proof -
  have "length base64_chars = 64" by (simp add: base64_chars_def)
  then have "(of_char (base64_chars ! k) :: nat) = ([65..<91] @ [97..<123] @ [48..<58] @ [43, 47]) ! k"
    using assms nth_map [of k base64_chars "of_char :: char \<Rightarrow> nat"] by (simp add: base64_chars_codes)
  then show ?thesis using assms by (auto simp: nth_append nth_Cons' simp del: upt_rec_numeral)
qed

lemma base64_value_char: "k < 64 \<Longrightarrow> base64_value (base64_chars ! k) = Some (of_nat k)"
  by (cases "k = 62"; cases "k = 63") (auto simp: base64_value_def base64_chars_code Let_def)

lemma base64_no_pad: "k < 64 \<Longrightarrow> base64_chars ! k \<noteq> CHR ''=''"
proof -
  have "list_all (\<lambda>k. base64_chars ! k \<noteq> CHR ''='') [0..<64]" by code_simp
  then show "k < 64 \<Longrightarrow> ?thesis" by (simp add: list_all_iff)
qed

lemma unat_and_63: "unat ((v :: u32) AND 0x3F) < 64"
proof -
  have "v AND 0x3F = take_bit 6 v" by (simp add: take_bit_eq_mask mask_numeral)
  then have "unat (v AND 0x3F) = unat v mod 64" by (simp only: unsigned_take_bit_eq) (simp add: take_bit_eq_mod)
  then show ?thesis by simp
qed

lemma base64_value_of_char [simp]: "base64_value (base64_char v) = Some (v AND 0x3F)"
  using base64_value_char [OF unat_and_63 [of v]] by (simp add: base64_char_def)

lemma base64_char_not_pad [simp]: "base64_char v \<noteq> CHR ''=''"
  unfolding base64_char_def by (rule base64_no_pad [OF unat_and_63])

lemma bit_u8_high [simp]: "8 \<le> n \<Longrightarrow> \<not> bit (b :: u8) n"
  using bit_imp_le_length [of b n] by auto

text \<open>The three bytes of a group, whatever is left in the upper bits of the accumulator.\<close>

lemma group_bytes:
  fixes b1 b2 b3 :: u8 and n w :: u32
  assumes "w = push_bit 16 (ucast b1) OR push_bit 8 (ucast b2) OR ucast b3"
  defines "n2 \<equiv> push_bit 6 (push_bit 6 n OR (drop_bit 18 w AND 0x3F)) OR (drop_bit 12 w AND 0x3F)"
  defines "n3 \<equiv> push_bit 6 n2 OR (drop_bit 6 w AND 0x3F)"
  shows "ucast (drop_bit 4 n2 AND 0xFF) = b1"
    and "ucast (drop_bit 2 n3 AND 0xFF) = b2"
    and "ucast ((push_bit 6 n3 OR (w AND 0x3F)) AND 0xFF) = b3"
proof -
  have two: "Suc (Suc (k - 2)) = k" if "2 \<le> k" for k :: nat using that by simp
  have m: "(0x3F :: u32) = mask 6" "(0xFF :: u32) = mask 8" by (simp_all add: mask_numeral)
  show "ucast (drop_bit 4 n2 AND 0xFF) = b1"
    by (rule bit_word_eqI) (auto simp: n2_def assms(1) m bit_simps two)
  show "ucast (drop_bit 2 n3 AND 0xFF) = b2"
    by (rule bit_word_eqI) (auto simp: n2_def n3_def assms(1) m bit_simps)
  show "ucast ((push_bit 6 n3 OR (w AND 0x3F)) AND 0xFF) = b3"
    by (rule bit_word_eqI) (auto simp: n2_def n3_def assms(1) m bit_simps)
qed

lemma decode_group:
  "\<exists>n'. decode_loop n 0 (encode_chunk [b1, b2, b3] @ rest) acc =
     decode_loop n' 0 rest (acc @ [b1, b2, b3])"
  using group_bytes [of _ b1 b2 b3 n, OF refl]
  by (auto simp: encode_chunk_def Let_def)

lemma decode_pair:
  "decode_loop n 0 (butlast (encode_chunk [b1, b2])) acc = Inr (acc @ [b1, b2])"
  using group_bytes [of _ b1 b2 0 n, OF refl]
  by (simp add: encode_chunk_def Let_def)

lemma decode_single:
  "decode_loop n 0 (butlast (butlast (encode_chunk [b1]))) acc = Inr (acc @ [b1])"
  using group_bytes [of _ b1 0 0 n, OF refl]
  by (simp add: encode_chunk_def Let_def)

lemma trim_end_append:
  "trim_end_matches c (xs @ ys) =
     (if trim_end_matches c ys = [] then trim_end_matches c xs else xs @ trim_end_matches c ys)"
  by (auto simp: trim_end_matches_def dropWhile_append)

lemma trim_full_chunk: "trim_end_matches (CHR ''='') (encode_chunk [b1, b2, b3]) = encode_chunk [b1, b2, b3]"
  by (simp add: trim_end_matches_def encode_chunk_def Let_def)

lemma trim_padded_chunk:
  "trim_end_matches (CHR ''='') (encode_chunk [b1, b2]) = butlast (encode_chunk [b1, b2])"
  "trim_end_matches (CHR ''='') (encode_chunk [b1]) = butlast (butlast (encode_chunk [b1]))"
  by (simp_all add: trim_end_matches_def encode_chunk_def Let_def)

lemma decode_encode_chunks:
  "decode_loop n 0 (trim_end_matches (CHR ''='') (encode_chunks bs)) acc = Inr (acc @ bs)"
proof (induction bs arbitrary: n acc rule: encode_chunks.induct)
  case (1 b1 b2 b3 rest)
  have "trim_end_matches (CHR ''='') (encode_chunks (b1 # b2 # b3 # rest)) =
      encode_chunk [b1, b2, b3] @ trim_end_matches (CHR ''='') (encode_chunks rest)"
    by (simp add: trim_end_append trim_full_chunk)
  then show ?case
    using decode_group [of n b1 b2 b3 "trim_end_matches (CHR ''='') (encode_chunks rest)" acc] "1.IH"
    by auto
next
  case 2
  then show ?case by (simp add: trim_end_matches_def)
qed (simp_all add: trim_padded_chunk decode_pair decode_single)

text \<open>
  C29. Decoding what \<open>base64::encode\<close> produced gives the bytes of the encoded string, for every
  string: \<open>base64::decode\<close> never fails on it and loses nothing, whatever the padding.
\<close>

theorem base64_round_trip: "base64_decode (base64_encode s) = Inr (as_bytes s)"
  by (simp add: base64_decode_def base64_encode_def decode_encode_chunks)

lemma base64_rfc4648:
  "base64_encode ''foobar'' = ''Zm9vYmFy''" "base64_encode ''fooba'' = ''Zm9vYmE=''"
  "base64_encode ''f'' = ''Zg==''"
  by (simp_all add: base64_encode_def as_bytes_def encode_chunk_def base64_char_def base64_chars_def)

text \<open>The decoder does not insist on the canonical form: the unused low bits are dropped.\<close>

lemma base64_not_canonical:
  "base64_decode ''Zg=='' = Inr [0x66]" "base64_decode ''Zh=='' = Inr [0x66]"
  "base64_decode ''Zg'' = Inr [0x66]" "base64_decode ''Z'' = Inr []"
  by (simp_all add: base64_decode_def trim_end_matches_def base64_value_def)

lemma base64_char_index: "\<exists>k < 64. base64_char v = base64_chars ! k"
  using unat_and_63 [of v] by (auto simp: base64_char_def)

lemma encode_chunk_no_crlf: "c \<in> set (encode_chunk bs) \<Longrightarrow> c = CHR ''='' \<or> (\<exists>k < 64. c = base64_chars ! k)"
  using base64_char_index by (auto simp: encode_chunk_def Let_def split: if_splits)

lemma encode_chunks_chars: "c \<in> set (encode_chunks bs) \<Longrightarrow> c = CHR ''='' \<or> (\<exists>k < 64. c = base64_chars ! k)"
  by (induction bs rule: encode_chunks.induct) (auto dest: encode_chunk_no_crlf)

text \<open>What \<open>encode\<close> produces holds printable characters only, no blank among them.\<close>

lemma encode_chunks_printable:
  assumes "c \<in> set (encode_chunks bs)"
  shows "43 \<le> (of_char c :: nat) \<and> (of_char c :: nat) \<le> 122"
proof -
  have "k < 64 \<Longrightarrow> 43 \<le> (of_char (base64_chars ! k) :: nat) \<and> (of_char (base64_chars ! k) :: nat) \<le> 122" for k
    by (auto simp: base64_chars_code)
  then show ?thesis using encode_chunks_chars [OF assms] by auto
qed

lemma base64_encode_printable:
  "c \<in> set (base64_encode s) \<Longrightarrow> 43 \<le> (of_char c :: nat) \<and> (of_char c :: nat) \<le> 122"
  unfolding base64_encode_def by (rule encode_chunks_printable)

end
