(* ===== verification/Proxy_Auth.thy ===== *)
theory Proxy_Auth
  imports Base64 Connection
begin

text \<open>
  Authentication of the proxy (src/src/proxy.rs): credentials, the shared handle that holds them,
  the \<open>Authorization\<close> header, and the two routines that read the client's header block, the
  blocking and the asynchronous one. The bytes a socket delivers are an argument: the list of the
  results of the reads to come, an empty read being the end of the stream. A routine that has used up
  the list is still waiting: \<open>None\<close>.
\<close>

section \<open>Credentials\<close>

datatype proxy_auth = NoAuth | Basic string string

definition auth_basic :: "string \<Rightarrow> string \<Rightarrow> proxy_auth" where
  "auth_basic username password = Basic username password"

fun auth_validate :: "proxy_auth \<Rightarrow> string \<Rightarrow> string \<Rightarrow> bool" where
  "auth_validate NoAuth username password = True"
| "auth_validate (Basic user pass) username password = (username = user \<and> password = pass)"

definition basic_key :: string where
  "basic_key = ''Basic ''"

fun encode_header :: "proxy_auth \<Rightarrow> string option" where
  "encode_header NoAuth = None"
| "encode_header (Basic user pass) = Some (basic_key @ base64_encode (user @ '':'' @ pass))"

fun validate_header :: "proxy_auth \<Rightarrow> string \<Rightarrow> bool" where
  "validate_header NoAuth header = False"
| "validate_header (Basic expected_user expected_pass) header =
     (case strip_prefix basic_key header of
        None \<Rightarrow> False
      | Some payload \<Rightarrow>
          (case base64_decode payload of
             Inl _ \<Rightarrow> False
           | Inr decoded \<Rightarrow>
               if utf8_valid (of_bytes decoded) then
                 (case split_once (CHR '':'') (of_bytes decoded) of
                    None \<Rightarrow> False
                  | Some (user, pass) \<Rightarrow> user = expected_user \<and> pass = expected_pass)
               else False))"

text \<open>The handle is a shared cell: its state is the value it holds.\<close>

definition handle_new :: "proxy_auth \<Rightarrow> proxy_auth" where
  "handle_new initial = initial"

definition handle_current :: "proxy_auth \<Rightarrow> proxy_auth outcome" where
  "handle_current h = Ok h"

definition handle_set :: "proxy_auth \<Rightarrow> proxy_auth \<Rightarrow> unit outcome \<times> proxy_auth" where
  "handle_set auth h = (Ok (), auth)"

definition handle_set_none :: "proxy_auth \<Rightarrow> unit outcome \<times> proxy_auth" where
  "handle_set_none h = handle_set NoAuth h"

definition handle_set_basic :: "string \<Rightarrow> string \<Rightarrow> proxy_auth \<Rightarrow> unit outcome \<times> proxy_auth" where
  "handle_set_basic username password h = handle_set (auth_basic username password) h"

section \<open>The header block\<close>

definition crlf :: string where
  "crlf = [CHR 0x0D, CHR 0x0A]"

definition blank_line :: string where
  "blank_line = crlf @ crlf"

text \<open>\<open>windows(p.len()).position(|w| w == p)\<close>, for \<open>p\<close> that is not empty.\<close>

fun position_of :: "string \<Rightarrow> string \<Rightarrow> nat option" where
  "position_of p [] = (if p = [] then Some 0 else None)"
| "position_of p (c # cs) = (if prefix p (c # cs) then Some 0 else map_option Suc (position_of p cs))"

definition invalid_credentials :: syn_error where
  "invalid_credentials = authentication_error ''Invalid credentials''"

definition authorization_required :: syn_error where
  "authorization_required = authentication_error ''Authorization required''"

definition authorization_key :: string where
  "authorization_key = ''Authorization: ''"

fun authorization_loop :: "proxy_auth \<Rightarrow> 'a \<Rightarrow> string list \<Rightarrow> 'a outcome" where
  "authorization_loop auth payload [] = Err authorization_required"
| "authorization_loop auth payload (line # ls) =
     (case strip_prefix authorization_key line of
        Some v \<Rightarrow> if validate_header auth (trim v) then Ok payload else Err invalid_credentials
      | None \<Rightarrow> authorization_loop auth payload ls)"

definition parse_http_auth_from_bytes :: "string \<Rightarrow> proxy_auth \<Rightarrow> string outcome" where
  "parse_http_auth_from_bytes data auth =
     (let header_end = (case position_of blank_line data of Some i \<Rightarrow> i + 4 | None \<Rightarrow> length data);
          headers = utf8_lossy (take header_end data)
      in authorization_loop auth (drop header_end data) (drop 1 (str_lines headers)))"

definition closed_early :: syn_error where
  "closed_early = authentication_error ''connection closed before authorization headers''"

definition headers_too_large :: syn_error where
  "headers_too_large = authentication_error ''proxy auth headers too large''"

definition read_failed :: "string \<Rightarrow> syn_error" where
  "read_failed msg = connection_error (''Failed to read auth headers: '' @ msg)"

definition header_cap :: nat where
  "header_cap = 64 * 1024"

type_synonym reads = "string io list"

text \<open>\<open>TcpProxy::validate_http_auth_stream\<close>: the loop returns all bytes read so far.\<close>

fun header_loop :: "reads \<Rightarrow> string \<Rightarrow> (string outcome \<times> reads) option" where
  "header_loop [] data = None"
| "header_loop (IoErr msg # rs) data =
     Some (Err (read_failed msg), rs)"
| "header_loop (IoOk chunk # rs) data =
     (if chunk = [] then Some (Err closed_early, rs)
      else
        let previous_len = length data; data = data @ chunk; search_from = previous_len - 3 in
        if position_of blank_line (drop search_from data) \<noteq> None then Some (Ok data, rs)
        else if header_cap < length data then Some (Err headers_too_large, rs)
        else header_loop rs data)"

definition validate_http_auth_stream ::
    "proxy_auth \<Rightarrow> reads \<Rightarrow> (string outcome \<times> reads) option" where
  "validate_http_auth_stream auth rs =
     (case header_loop rs [] of
        None \<Rightarrow> None
      | Some (Ok data, rs) \<Rightarrow> Some (parse_http_auth_from_bytes data auth, rs)
      | Some (Err e, rs) \<Rightarrow> Some (Err e, rs)
      | Some (Panic msg, rs) \<Rightarrow> Some (Panic msg, rs))"

text \<open>\<open>authenticate_stream\<close>: the loop returns the end of the header block as well.\<close>

fun async_header_loop :: "reads \<Rightarrow> string \<Rightarrow> ((nat \<times> string) outcome \<times> reads) option" where
  "async_header_loop [] data = None"
| "async_header_loop (IoErr msg # rs) data = Some (Err (connection_error msg), rs)"
| "async_header_loop (IoOk chunk # rs) data =
     (if chunk = [] then Some (Err closed_early, rs)
      else
        let previous_len = length data; data = data @ chunk; search_from = previous_len - 3 in
        case position_of blank_line (drop search_from data) of
          Some index \<Rightarrow> Some (Ok (search_from + index + 4, data), rs)
        | None \<Rightarrow>
            if header_cap < length data then Some (Err headers_too_large, rs)
            else async_header_loop rs data)"

fun is_basic :: "proxy_auth \<Rightarrow> bool" where
  "is_basic (Basic _ _) = True"
| "is_basic NoAuth = False"

definition authenticate_stream ::
    "proxy_auth \<Rightarrow> reads \<Rightarrow> (string outcome \<times> reads) option" where
  "authenticate_stream auth rs =
     (if \<not> is_basic auth then Some (Ok [], rs)
      else
        case async_header_loop rs [] of
          None \<Rightarrow> None
        | Some (Ok (header_end, data), rs) \<Rightarrow>
            (let headers_raw = take header_end data; trailing_payload = drop header_end data;
                 headers = utf8_lossy headers_raw
             in Some (authorization_loop auth trailing_payload (str_lines headers), rs))
        | Some (Err e, rs) \<Rightarrow> Some (Err e, rs)
        | Some (Panic msg, rs) \<Rightarrow> Some (Panic msg, rs))"

section \<open>The search for the end of the header block\<close>

lemma position_of_skip:
  "(\<And>j. j < k \<Longrightarrow> \<not> prefix p (drop j s)) \<Longrightarrow> k \<le> length s \<Longrightarrow>
   position_of p s = map_option ((+) k) (position_of p (drop k s))"
proof (induction k arbitrary: s)
  case 0
  then show ?case by (cases "position_of p s") simp_all
next
  case (Suc k)
  obtain c cs where s: "s = c # cs" using Suc.prems(2) by (cases s) auto
  have "\<not> prefix p (c # cs)" using Suc.prems(1) [of 0] s by simp
  moreover have "position_of p cs = map_option ((+) k) (position_of p (drop k cs))"
  proof (rule Suc.IH)
    show "\<not> prefix p (drop j cs)" if "j < k" for j using Suc.prems(1) [of "Suc j"] that s by simp
  qed (use Suc.prems(2) s in simp)
  ultimately show ?case by (simp add: s option.map_comp comp_def)
qed

lemma position_of_none: "p \<noteq> [] \<Longrightarrow> position_of p s = None \<longleftrightarrow> (\<forall>j. \<not> prefix p (drop j s))"
proof (induction s)
  case (Cons c cs)
  have "(\<forall>j. \<not> prefix p (drop j (c # cs))) \<longleftrightarrow> \<not> prefix p (c # cs) \<and> (\<forall>j. \<not> prefix p (drop j cs))"
    by (metis drop0 drop_Suc_Cons not0_implies_Suc)
  then show ?case using Cons by simp
qed simp

lemma position_of_some:
  "p \<noteq> [] \<Longrightarrow> position_of p s = Some i \<Longrightarrow> prefix p (drop i s) \<and> (\<forall>j < i. \<not> prefix p (drop j s))"
proof (induction s arbitrary: i)
  case (Cons c cs)
  show ?case
  proof (cases "prefix p (c # cs)")
    case False
    then obtain k where k: "position_of p cs = Some k" "i = Suc k" using Cons.prems by auto
    have rest: "prefix p (drop k cs)" "\<forall>j < k. \<not> prefix p (drop j cs)" using Cons k by auto
    have "\<not> prefix p (drop j (c # cs))" if "j < i" for j
      using that False rest(2) k(2) by (cases j) auto
    then show ?thesis using rest(1) k(2) by simp
  qed (use Cons.prems in auto)
qed simp

lemma position_of_bound: "p \<noteq> [] \<Longrightarrow> position_of p s = Some i \<Longrightarrow> i + length p \<le> length s"
  using position_of_some [of p s i] prefix_length_le [of p "drop i s"] by (cases p) auto

text \<open>Looking again only at the last three bytes and the new ones finds what a full search finds.\<close>

lemma position_of_incremental:
  assumes "position_of p s = None" "length p = Suc n"
  shows "position_of p (s @ c) = map_option ((+) (length s - n)) (position_of p (drop (length s - n) (s @ c)))"
proof (rule position_of_skip)
  have p: "p \<noteq> []" using assms(2) by auto
  show "\<not> prefix p (drop j (s @ c))" if "j < length s - n" for j
  proof
    assume "prefix p (drop j (s @ c))"
    moreover have "length p \<le> length (drop j s)" using that assms(2) by simp
    moreover have "drop j (s @ c) = drop j s @ c" using that by simp
    ultimately have "prefix p (drop j s)" by (metis prefix_length_prefix prefixI)
    then show False using assms(1) position_of_none [OF p] by blast
  qed
qed simp

lemma length_blank_line [simp]: "length blank_line = Suc 3"
  by (simp add: blank_line_def crlf_def)

lemma blank_line_not_Nil [simp]: "blank_line \<noteq> []"
  using length_blank_line by (metis length_0_conv nat.distinct(1))

lemmas search_again = position_of_incremental [OF _ length_blank_line]

lemma position_of_append:
  assumes "position_of p s = Some i" "p \<noteq> []"
  shows "position_of p (s @ t) = Some i"
  using assms
proof (induction s arbitrary: i)
  case (Cons c cs)
  show ?case
  proof (cases "prefix p (c # cs)")
    case True
    then have "prefix p ((c # cs) @ t)" by (metis prefix_prefix)
    then show ?thesis using True Cons.prems by simp
  next
    case False
    then obtain k where k: "position_of p cs = Some k" "i = Suc k" using Cons.prems by auto
    have "length p \<le> length (c # cs)" using position_of_bound [OF Cons.prems(2) k(1)] by simp
    then have "\<not> prefix p ((c # cs) @ t)" using False by (metis prefix_length_prefix prefixI)
    then show ?thesis using k Cons by simp
  qed
qed simp

lemma position_of_none_take: "position_of p (s @ t) = None \<Longrightarrow> p \<noteq> [] \<Longrightarrow> position_of p s = None"
  using position_of_append [of p s _ t] by (cases "position_of p s") auto

section \<open>The two loops compute the same thing\<close>

text \<open>The specification: read until the bytes so far hold a blank line.\<close>

fun header_spec :: "(string \<Rightarrow> syn_error) \<Rightarrow> reads \<Rightarrow> string \<Rightarrow> ((nat \<times> string) outcome \<times> reads) option" where
  "header_spec io_error [] data = None"
| "header_spec io_error (IoErr msg # rs) data = Some (Err (io_error msg), rs)"
| "header_spec io_error (IoOk chunk # rs) data =
     (if chunk = [] then Some (Err closed_early, rs)
      else case position_of blank_line (data @ chunk) of
          Some i \<Rightarrow> Some (Ok (i + 4, data @ chunk), rs)
        | None \<Rightarrow>
            if header_cap < length (data @ chunk) then Some (Err headers_too_large, rs)
            else header_spec io_error rs (data @ chunk))"

lemma header_loop_spec:
  "position_of blank_line data = None \<Longrightarrow>
   header_loop rs data =
     map_option (map_prod (map_outcome snd) id)
       (header_spec read_failed rs data)"
proof (induction rs data rule: header_loop.induct)
  case (3 chunk rs data)
  show ?case
    using 3 search_again [OF "3.prems", of chunk]
    by (cases "position_of blank_line (drop (length data - 3) (data @ chunk))") (auto simp: Let_def)
qed simp_all

lemma async_header_loop_spec:
  "position_of blank_line data = None \<Longrightarrow>
   async_header_loop rs data = header_spec connection_error rs data"
proof (induction rs data rule: async_header_loop.induct)
  case (3 chunk rs data)
  show ?case
    using 3 search_again [OF "3.prems", of chunk]
    by (cases "position_of blank_line (drop (length data - 3) (data @ chunk))") (auto simp: Let_def)
qed simp_all

lemma header_spec_position:
  "header_spec io_error rs data = Some (Ok (h, d), rs') \<Longrightarrow> position_of blank_line d = Some (h - 4) \<and> 4 \<le> h"
  by (induction io_error rs data rule: header_spec.induct) (auto split: if_splits option.splits)

lemma header_spec_no_panic: "header_spec io_error rs data \<noteq> Some (Panic msg, rs')"
  by (induction io_error rs data rule: header_spec.induct) (auto split: if_splits option.splits)

text \<open>Both routines decide on the header block, the sync one on its lines after the first.\<close>

definition auth_decision :: "(string list \<Rightarrow> string list) \<Rightarrow> proxy_auth \<Rightarrow>
    ((nat \<times> string) outcome \<times> reads) option \<Rightarrow> (string outcome \<times> reads) option" where
  "auth_decision skip auth r =
     map_option (\<lambda>(r, rs). (case r of
        Ok (h, d) \<Rightarrow> authorization_loop auth (drop h d) (skip (str_lines (utf8_lossy (take h d))))
      | Err e \<Rightarrow> Err e | Panic msg \<Rightarrow> Panic msg, rs)) r"

lemma authorization_no_panic: "authorization_loop auth payload ls \<noteq> Panic msg"
  by (induction ls) (auto split: option.splits)

lemma auth_decision_no_panic: "auth_decision skip auth (header_spec io_error rs data) \<noteq> Some (Panic msg, rs')"
  by (auto simp: auth_decision_def header_spec_no_panic authorization_no_panic split: outcome.splits)

lemma sync_decision:
  "validate_http_auth_stream auth rs =
     auth_decision (drop 1) auth
       (header_spec read_failed rs [])"
proof -
  let ?r = "header_spec read_failed rs []"
  have "validate_http_auth_stream auth rs = auth_decision (drop 1) auth ?r"
    unfolding validate_http_auth_stream_def auth_decision_def
    by (subst header_loop_spec)
      (auto simp: parse_http_auth_from_bytes_def Let_def dest: header_spec_position
        split: option.splits outcome.splits prod.splits)
  then show ?thesis .
qed

lemma async_decision:
  "is_basic auth \<Longrightarrow> authenticate_stream auth rs = auth_decision id auth (header_spec connection_error rs [])"
  unfolding authenticate_stream_def auth_decision_def
  by (subst async_header_loop_spec)
    (auto simp: Let_def split: option.splits outcome.splits prod.splits)

lemma position_of_within:
  assumes "position_of p (s @ t) = Some i" "i + length p \<le> length s" "p \<noteq> []"
  shows "position_of p s = Some i"
proof (cases "position_of p s")
  case None
  have "prefix p (drop i s @ drop (i - length s) t)"
    using position_of_some [OF assms(3,1)] by simp
  moreover have "length p \<le> length (drop i s)" using assms(2) by simp
  ultimately have "prefix p (drop i s)" by (metis prefix_length_prefix prefixI)
  then show ?thesis using None position_of_none [OF assms(3), of s] by blast
next
  case (Some j)
  then show ?thesis using position_of_append [OF Some assms(3), of t] assms(1) by simp
qed

lemma header_spec_chunks:
  assumes "list_all (\<lambda>c. c \<noteq> []) cs" "position_of blank_line data = None"
    and "position_of blank_line (data @ concat cs) = Some i" "i + 4 \<le> header_cap"
  shows "\<exists>k. header_spec io_error (map IoOk cs @ rs) data =
      Some (Ok (i + 4, data @ concat (take k cs)), map IoOk (drop k cs) @ rs) \<and>
      i + 4 \<le> length (data @ concat (take k cs))"
  using assms
proof (induction cs arbitrary: data)
  case Nil
  then show ?case by simp
next
  case (Cons c cs)
  show ?case
  proof (cases "position_of blank_line (data @ c)")
    case (Some j)
    then have "j = i" using position_of_append [OF Some, of "concat cs"] Cons.prems(3) by simp
    then show ?thesis
      using Some Cons.prems position_of_bound [OF blank_line_not_Nil Some] by (intro exI [of _ 1]) simp
  next
    case None
    have cap: "\<not> header_cap < length (data @ c)"
      using position_of_within [of blank_line "data @ c" "concat cs" i] None Cons.prems(3,4) by fastforce
    obtain k where "header_spec io_error (map IoOk cs @ rs) (data @ c) =
        Some (Ok (i + 4, (data @ c) @ concat (take k cs)), map IoOk (drop k cs) @ rs) \<and>
        i + 4 \<le> length ((data @ c) @ concat (take k cs))"
      using Cons.IH [of "data @ c"] Cons.prems None by auto
    then show ?thesis using None cap Cons.prems(1) by (intro exI [of _ "Suc k"]) simp
  qed
qed

lemma auth_chunks:
  assumes "list_all (\<lambda>c. c \<noteq> []) cs" "position_of blank_line (concat cs) = Some i" "i + 4 \<le> header_cap"
  shows "\<exists>payload k.
    auth_decision skip auth (header_spec io_error (map IoOk cs @ rs) []) =
      Some (authorization_loop auth payload (skip (str_lines (utf8_lossy (take (i + 4) (concat cs))))),
        map IoOk (drop k cs) @ rs) \<and>
    payload @ concat (drop k cs) = drop (i + 4) (concat cs)"
proof -
  have "position_of blank_line [] = None" by simp
  then obtain k where k: "header_spec io_error (map IoOk cs @ rs) [] =
        Some (Ok (i + 4, concat (take k cs)), map IoOk (drop k cs) @ rs)"
      "i + 4 \<le> length (concat (take k cs))"
    using header_spec_chunks [OF assms(1), of "[]" i io_error rs] assms(2,3) by auto
  have split: "concat cs = concat (take k cs) @ concat (drop k cs)"
    by (metis append_take_drop_id concat_append)
  have "take (i + 4) (concat (take k cs)) = take (i + 4) (concat cs)"
    by (subst split) (use k(2) in simp)
  moreover have "drop (i + 4) (concat cs) = drop (i + 4) (concat (take k cs)) @ concat (drop k cs)"
    by (subst split) (use k(2) in simp)
  ultimately show ?thesis using k(1)
    by (intro exI [of _ "drop (i + 4) (concat (take k cs))"] exI [of _ k])
      (simp add: auth_decision_def)
qed

text \<open>
  C13. How the network cuts the client's bytes into packets does not matter, neither to the blocking nor
  to the asynchronous routine: when the bytes hold a header block of at most 64 KiB, the decision is
  that on the block, and what is passed on to the backend, the bytes read beyond the block and then
  those still unread, is exactly what follows the block.
\<close>

theorem auth_independent_of_packets:
  assumes "list_all (\<lambda>c. c \<noteq> []) cs" "position_of blank_line (concat cs) = Some i" "i + 4 \<le> header_cap"
    and "is_basic auth"
  shows "(\<exists>payload rest.
      validate_http_auth_stream auth (map IoOk cs @ rs) =
        Some (authorization_loop auth payload (drop 1 (str_lines (utf8_lossy (take (i + 4) (concat cs))))),
          map IoOk rest @ rs) \<and> payload @ concat rest = drop (i + 4) (concat cs)) \<and>
    (\<exists>payload rest.
      authenticate_stream auth (map IoOk cs @ rs) =
        Some (authorization_loop auth payload (str_lines (utf8_lossy (take (i + 4) (concat cs)))),
          map IoOk rest @ rs) \<and> payload @ concat rest = drop (i + 4) (concat cs))"
  unfolding sync_decision async_decision [OF assms(4)]
  using auth_chunks [OF assms(1-3), where skip = id and auth = auth and io_error = connection_error and rs = rs]
    auth_chunks [OF assms(1-3), where skip = "drop 1" and auth = auth and io_error = read_failed and rs = rs]
  by (metis id_apply)

theorem auth_independent_of_packets_witness:
  "\<exists>payload rest. validate_http_auth_stream (Basic ''u'' ''p'') (map IoOk [[CHR 0x0D, CHR 0x0A, CHR 0x0D], CHR 0x0A # ''xy'', ''z''] @ []) =
     Some (authorization_loop (Basic ''u'' ''p'') payload (drop 1 (str_lines (utf8_lossy blank_line))), map IoOk rest @ []) \<and>
   payload @ concat rest = ''xyz''"
proof -
  let ?cs = "[[CHR 0x0D, CHR 0x0A, CHR 0x0D], CHR 0x0A # ''xy'', ''z'']"
  have "list_all (\<lambda>c. c \<noteq> []) ?cs" "is_basic (Basic ''u'' ''p'')" "take (0 + 4) (concat ?cs) = blank_line"
      "drop (0 + 4) (concat ?cs) = ''xyz''"
    by (simp_all add: blank_line_def crlf_def)
  moreover have "position_of blank_line (concat ?cs) = Some 0" "0 + 4 \<le> header_cap"
    by (simp_all add: blank_line_def crlf_def header_cap_def)
  ultimately show ?thesis using auth_independent_of_packets [of ?cs 0 "Basic ''u'' ''p''" "[]"] by metis
qed

section \<open>The two routines compared\<close>

definition received :: "reads \<Rightarrow> string" where
  "received rs = concat (map (\<lambda>r. case r of IoOk c \<Rightarrow> c | IoErr _ \<Rightarrow> []) rs)"

lemma header_spec_received:
  "header_spec io_error rs data = Some (Ok (h, d), rs') \<Longrightarrow> d @ received rs' = data @ received rs"
  by (induction io_error rs data rule: header_spec.induct) (auto simp: received_def split: if_splits option.splits)

definition same_result :: "(string \<Rightarrow> syn_error) \<Rightarrow> (string \<Rightarrow> syn_error) \<Rightarrow> 'a outcome \<Rightarrow> 'a outcome \<Rightarrow> bool" where
  "same_result e1 e2 r1 r2 \<longleftrightarrow> r1 = r2 \<or> (\<exists>msg. r1 = Err (e1 msg) \<and> r2 = Err (e2 msg))"

lemma header_spec_io_error:
  "rel_option (rel_prod (same_result e1 e2) (=)) (header_spec e1 rs data) (header_spec e2 rs data)"
  by (induction e1 rs data rule: header_spec.induct) (auto simp: same_result_def split: option.splits)

definition is_ascii :: "string \<Rightarrow> bool" where
  "is_ascii s \<longleftrightarrow> list_all (\<lambda>c. (of_char c :: nat) < 128) s"

lemma lossy_head:
  "s \<noteq> [] \<Longrightarrow> utf8_lossy s \<noteq> [] \<and>
   ((of_char (hd (utf8_lossy s)) :: nat) < 128 \<longrightarrow>
      hd s = hd (utf8_lossy s) \<and> utf8_lossy s = hd s # utf8_lossy (tl s))"
proof (cases s)
  case (Cons c cs)
  show ?thesis
  proof (cases "(of_char c :: nat) < 128")
    case True
    then show ?thesis using utf8_ascii_head [OF True, of cs] Cons by (simp add: Let_def)
  next
    case False
    obtain n where n: "snd (utf8_head s) = Suc n" using utf8_head_pos [of s] by (cases "snd (utf8_head s)") auto
    show ?thesis using False n Cons
      by (cases "fst (utf8_head s)") (simp_all add: Let_def replacement_char_def)
  qed
qed simp

lemma lossy_prefix:
  "is_ascii p \<Longrightarrow> prefix p (utf8_lossy s) \<Longrightarrow> prefix p s"
proof (induction p arbitrary: s)
  case (Cons x p)
  obtain c cs where s: "s = c # cs" using Cons.prems(2) by (cases s) auto
  have "hd (utf8_lossy s) = x" using Cons.prems(2) by (cases "utf8_lossy s") auto
  then have "c = x \<and> utf8_lossy s = c # utf8_lossy cs"
    using lossy_head [of s] Cons.prems(1) s by (auto simp: is_ascii_def)
  then show ?case using Cons s by (auto simp: is_ascii_def)
qed simp

lemma first_line_prefix: "split_lines line s = l # ls \<Longrightarrow> prefix l (line @ s)"
proof (induction line s arbitrary: l ls rule: split_lines.induct)
  case (2 line c cs)
  have "prefix (strip_cr line) line" by (simp add: strip_cr_def prefixeq_butlast)
  then have "prefix (strip_cr line) (line @ c # cs)" by (metis prefix_prefix)
  then show ?case using 2 by (cases "c = CHR 0x0A") simp_all
qed (simp split: if_splits)

lemma skip_first_line:
  assumes "\<not> prefix authorization_key s"
  shows "authorization_loop auth payload (drop 1 (str_lines (utf8_lossy s))) =
    authorization_loop auth payload (str_lines (utf8_lossy s))"
proof (cases "str_lines (utf8_lossy s)")
  case Nil
  then show ?thesis by (simp only: drop_Nil)
next
  case (Cons l ls)
  have "\<not> prefix authorization_key (utf8_lossy s)"
    using lossy_prefix [of authorization_key s] assms by (auto simp: is_ascii_def authorization_key_def)
  moreover have "prefix l (utf8_lossy s)" using first_line_prefix [of "[]"] Cons by (simp add: str_lines_def)
  ultimately have "strip_prefix authorization_key l = None"
    unfolding strip_prefix_def using prefix_order.trans by (metis (no_types))
  then show ?thesis unfolding Cons by (simp only: authorization_loop.simps option.case drop_Suc_Cons One_nat_def drop_0)
qed

text \<open>
  C30. The blocking and the asynchronous routine agree on every sequence of reads, short ones, errors
  and the end of the stream included, in outcome and in the reads they leave, up to the text of an I/O
  error, provided the client's bytes do not begin with \<open>Authorization: \<close>: the blocking routine skips
  the first line, the asynchronous one does not.
\<close>

theorem sync_async_auth_agree:
  assumes "is_basic auth" "\<not> prefix authorization_key (received rs)"
  shows "rel_option (rel_prod
      (same_result read_failed connection_error) (=))
    (validate_http_auth_stream auth rs) (authenticate_stream auth rs)"
proof -
  have lines: "authorization_loop auth payload (drop 1 (str_lines (utf8_lossy (take h d)))) =
      authorization_loop auth payload (str_lines (utf8_lossy (take h d)))"
    if "header_spec connection_error rs [] = Some (Ok (h, d), rs')" for h d rs' and payload :: string
  proof (rule skip_first_line)
    show "\<not> prefix authorization_key (take h d)"
      using header_spec_received [OF that] assms(2) take_is_prefix [of h d]
      by (metis append_Nil prefixI prefix_order.trans)
  qed
  show ?thesis
    unfolding sync_decision async_decision [OF assms(1)] auth_decision_def
    unfolding option.rel_map
  proof (rule option.rel_mono_strong [OF header_spec_io_error])
    fix x y
    assume x: "y \<in> set_option (header_spec connection_error rs [])" "rel_prod (same_result read_failed connection_error) (=) x y"
    obtain r1 r2 rs' where xy: "x = (r1, rs')" "y = (r2, rs')" "same_result read_failed connection_error r1 r2"
      using x(2) by (cases x; cases y) auto
    show "rel_prod (same_result read_failed connection_error) (=)
        (case x of (r, rs) \<Rightarrow> (case r of
            Ok (h, d) \<Rightarrow> authorization_loop auth (drop h d) (drop 1 (str_lines (utf8_lossy (take h d))))
          | Err e \<Rightarrow> Err e | Panic msg \<Rightarrow> Panic msg, rs))
        (case y of (r, rs) \<Rightarrow> (case r of
            Ok (h, d) \<Rightarrow> authorization_loop auth (drop h d) (id (str_lines (utf8_lossy (take h d))))
          | Err e \<Rightarrow> Err e | Panic msg \<Rightarrow> Panic msg, rs))"
      using xy x(1) lines by (cases r2) (auto simp: same_result_def)
  qed
qed

theorem sync_async_auth_agree_witness:
  "rel_option (rel_prod
      (same_result read_failed connection_error) (=))
    (validate_http_auth_stream (Basic ''u'' ''p'') [IoOk ''GET'', IoErr ''reset''])
    (authenticate_stream (Basic ''u'' ''p'') [IoOk ''GET'', IoErr ''reset''])"
  by (rule sync_async_auth_agree) (simp_all add: received_def authorization_key_def)

section \<open>Bounds\<close>

lemma header_spec_returns:
  "header_cap < length data + length rs \<Longrightarrow> rs \<noteq> [] \<Longrightarrow> header_spec io_error rs data \<noteq> None"
proof (induction io_error rs data rule: header_spec.induct)
  case (3 io_error chunk rs data)
  show ?case using 3 by (cases chunk; cases rs) (auto split: option.splits)
qed simp_all

lemma header_spec_bounded:
  "length data \<le> header_cap \<Longrightarrow> list_all (\<lambda>r. case r of IoOk c \<Rightarrow> length c \<le> n | IoErr _ \<Rightarrow> True) rs \<Longrightarrow>
   header_spec io_error rs data = Some (Ok (h, d), rs') \<Longrightarrow> length d \<le> header_cap + n"
  by (induction io_error rs data rule: header_spec.induct) (auto split: if_splits option.splits)

text \<open>
  C31. Reading the header block always ends: after at most 65,537 reads both routines have returned,
  whatever the client sends, and the blocking one has buffered at most 64 KiB and one read of 512
  bytes when it finds the block.
\<close>

theorem auth_reads_bounded:
  assumes "header_cap < length rs"
  shows "validate_http_auth_stream auth rs \<noteq> None \<and> authenticate_stream auth rs \<noteq> None \<and>
    (list_all (\<lambda>r. case r of IoOk c \<Rightarrow> length c \<le> 512 | IoErr _ \<Rightarrow> True) rs \<longrightarrow>
      (\<forall>data rs'. header_loop rs [] = Some (Ok data, rs') \<longrightarrow> length data \<le> header_cap + 512))"
proof -
  have "header_spec io_error rs [] \<noteq> None" for io_error
    using header_spec_returns [of "[]" rs io_error] assms by (cases rs) auto
  then have sync: "validate_http_auth_stream auth rs \<noteq> None"
    and "is_basic auth \<Longrightarrow> authenticate_stream auth rs \<noteq> None"
    by (simp_all add: sync_decision async_decision auth_decision_def)
  moreover have "\<not> is_basic auth \<Longrightarrow> authenticate_stream auth rs \<noteq> None"
    by (simp add: authenticate_stream_def)
  moreover have "length data \<le> header_cap + 512"
    if fits: "list_all (\<lambda>r. case r of IoOk c \<Rightarrow> length c \<le> 512 | IoErr _ \<Rightarrow> True) rs"
      and ok: "header_loop rs [] = Some (Ok data, rs')" for data rs'
  proof -
    obtain r where "header_spec read_failed rs [] = Some (r, rs')" "map_outcome snd r = Ok data"
      using ok header_loop_spec [of "[]" rs] by auto
    then obtain h where "header_spec read_failed rs [] = Some (Ok (h, data), rs')" by (cases r) auto
    then show ?thesis using header_spec_bounded [OF _ fits, of "[]"] by simp
  qed
  ultimately show ?thesis by blast
qed

lemma replicate_reads: "list_all (\<lambda>r. case r of IoOk c \<Rightarrow> length c \<le> 512 | IoErr _ \<Rightarrow> True) (replicate n (IoOk ''x''))"
  by (simp add: list_all_iff)

theorem auth_reads_bounded_witness:
  "validate_http_auth_stream (Basic ''u'' ''p'') (replicate 65537 (IoOk ''x'')) \<noteq> None"
  using auth_reads_bounded [of "replicate 65537 (IoOk ''x'')" "Basic ''u'' ''p''"]
  by (simp only: length_replicate header_cap_def) simp

end
