(* ===== verification/Proxy_Client.thy ===== *)
theory Proxy_Client
  imports Proxy_Auth
begin

text \<open>
  The proxy's client (\<open>ProxyClient\<close> of src/src/proxy.rs), what the credential header accepts, and the
  client's request read by the server's authentication.
\<close>

section \<open>The client\<close>

record proxy_client =
  pcl_proxy_addr :: socket_addr
  pcl_backend_addr :: socket_addr
  pcl_auth :: proxy_auth

definition proxy_client_new :: "socket_addr \<Rightarrow> socket_addr \<Rightarrow> proxy_client" where
  "proxy_client_new proxy_addr backend_addr =
     \<lparr>pcl_proxy_addr = proxy_addr, pcl_backend_addr = backend_addr, pcl_auth = NoAuth\<rparr>"

definition client_with_auth :: "proxy_auth \<Rightarrow> proxy_client \<Rightarrow> proxy_client" where
  "client_with_auth auth c = c\<lparr>pcl_auth := auth\<rparr>"

definition connect_request :: "socket_addr \<Rightarrow> string \<Rightarrow> string" where
  "connect_request addr auth_header =
     ''CONNECT '' @ display_socket addr @ '' HTTP/1.1'' @ crlf @ ''Host: '' @ display_socket addr @ crlf @
     authorization_key @ auth_header @ blank_line"

text \<open>
  \<open>connect\<close>: the results of connecting and of writing are arguments; the second component is what
  was written.
\<close>

definition proxy_client_connect :: "unit io \<Rightarrow> unit io \<Rightarrow> proxy_client \<Rightarrow> unit outcome \<times> string" where
  "proxy_client_connect reached written c =
     (case reached of
        IoErr msg \<Rightarrow> (Err (connection_error msg), [])
      | IoOk _ \<Rightarrow>
          (case encode_header (pcl_auth c) of
             None \<Rightarrow> (Ok (), [])
           | Some auth_header \<Rightarrow>
               (case written of
                  IoErr msg \<Rightarrow> (Err (connection_error msg), [])
                | IoOk _ \<Rightarrow> (Ok (), connect_request (pcl_backend_addr c) auth_header))))"

text \<open>
  \<open>send_and_receive\<close>: one read into a buffer of twice the payload's length; \<open>available\<close> is what the
  socket holds then.
\<close>

definition send_and_receive ::
    "unit io \<Rightarrow> unit io \<Rightarrow> unit io \<Rightarrow> string io \<Rightarrow> string \<Rightarrow> proxy_client \<Rightarrow> string outcome \<times> string" where
  "send_and_receive reached written sent available payload c =
     (case proxy_client_connect reached written c of
        (Err e, w) \<Rightarrow> (Err e, w)
      | (Panic msg, w) \<Rightarrow> (Panic msg, w)
      | (Ok _, w) \<Rightarrow>
          (case sent of
             IoErr msg \<Rightarrow> (Err (connection_error msg), w)
           | IoOk _ \<Rightarrow>
               let buf_len = max (length payload) 1 * 2 in
               (case available of
                  IoErr msg \<Rightarrow> (Err (connection_error msg), w @ payload)
                | IoOk bytes \<Rightarrow> (Ok (take buf_len bytes), w @ payload))))"

section \<open>What the header accepts\<close>

lemma validate_header_iff_aux:
  "validate_header (Basic u p) h \<longleftrightarrow>
     (\<exists>payload bs. h = basic_key @ payload \<and> base64_decode payload = Inr bs \<and> utf8_valid (of_bytes bs) \<and>
        of_bytes bs = u @ CHR '':'' # p) \<and> CHR '':'' \<notin> set u" (is "?l \<longleftrightarrow> ?r")
proof
  assume ?l
  then obtain payload bs where "strip_prefix basic_key h = Some payload" "base64_decode payload = Inr bs"
      "utf8_valid (of_bytes bs)" "split_once (CHR '':'') (of_bytes bs) = Some (u, p)"
    by (auto split: option.splits sum.splits if_splits)
  then show ?r unfolding strip_prefix_some split_once_some by blast
next
  assume ?r
  then obtain payload bs where "strip_prefix basic_key h = Some payload" "base64_decode payload = Inr bs"
      "utf8_valid (of_bytes bs)" "split_once (CHR '':'') (of_bytes bs) = Some (u, p)"
    unfolding strip_prefix_some split_once_some by blast
  then show ?l by simp
qed

lemma own_payload: "base64_decode (base64_encode s) = Inr (as_bytes s)"
  by (simp only: decode_encode_chunks base64_decode_def base64_encode_def append_Nil)

text \<open>
  C36. A header is accepted exactly when it is \<open>Basic\<close>, one blank and a base64 text that decodes to
  UTF-8 bytes \<open>user:password\<close> with the expected user and password, and the expected user name holds
  no colon; so the proxy's own \<open>encode_header\<close> is accepted by \<open>validate_header\<close> exactly for user
  names without a colon, and no header at all for the others.
\<close>

theorem validate_header_characterised:
  "(validate_header (Basic u p) h \<longleftrightarrow>
     (\<exists>payload bs. h = basic_key @ payload \<and> base64_decode payload = Inr bs \<and> utf8_valid (of_bytes bs) \<and>
        of_bytes bs = u @ CHR '':'' # p) \<and> CHR '':'' \<notin> set u) \<and>
   (utf8_valid (u @ CHR '':'' # p) \<longrightarrow>
     (\<exists>own. encode_header (Basic u p) = Some own \<and> (validate_header (Basic u p) own \<longleftrightarrow> CHR '':'' \<notin> set u)))"
proof (intro conjI impI)
  assume v: "utf8_valid (u @ CHR '':'' # p)"
  let ?own = "basic_key @ base64_encode (u @ CHR '':'' # p)"
  have "encode_header (Basic u p) = Some ?own" by simp
  moreover have "validate_header (Basic u p) ?own \<longleftrightarrow> CHR '':'' \<notin> set u"
  proof
    assume u: "CHR '':'' \<notin> set u"
    show "validate_header (Basic u p) ?own"
      unfolding validate_header_iff_aux
      by (intro conjI u exI [of _ "base64_encode (u @ CHR '':'' # p)"] exI [of _ "as_bytes (u @ CHR '':'' # p)"])
        (simp_all only: own_payload of_bytes_as_bytes v)
  qed (use validate_header_iff_aux in blast)
  ultimately show "\<exists>own. encode_header (Basic u p) = Some own \<and>
      (validate_header (Basic u p) own \<longleftrightarrow> CHR '':'' \<notin> set u)" by blast
qed (rule validate_header_iff_aux)

theorem validate_header_characterised_witness:
  "\<exists>own. encode_header (Basic ''a:b'' ''c'') = Some own \<and>
     (validate_header (Basic ''a:b'' ''c'') own \<longleftrightarrow> CHR '':'' \<notin> set ''a:b'')"
proof -
  have "utf8_valid (''a:b'' @ CHR '':'' # ''c'')" by (rule utf8_ascii) simp
  then show ?thesis using validate_header_characterised [of "''a:b''" "''c''" "''''"] by blast
qed

section \<open>Printable texts\<close>

definition plain :: "string \<Rightarrow> bool" where
  "plain s \<longleftrightarrow> list_all (\<lambda>c. 32 < (of_char c :: nat) \<and> (of_char c :: nat) < 127) s"

named_theorems plain_simps \<open>texts of printable characters\<close>

lemma plain_append [plain_simps]: "plain (s @ t) \<longleftrightarrow> plain s \<and> plain t"
  by (auto simp: plain_def)

lemma plain_Nil [plain_simps]: "plain []"
  by (simp add: plain_def)

lemma plain_Cons [plain_simps]:
  "plain (c # s) \<longleftrightarrow> (32 < (of_char c :: nat) \<and> (of_char c :: nat) < 127) \<and> plain s"
  by (simp add: plain_def)

lemma plain_digit: "d < 16 \<Longrightarrow> plain [digit_char d]"
proof -
  have "list_all (\<lambda>d. plain [digit_char d]) [0..<16]" by code_simp
  then show "d < 16 \<Longrightarrow> ?thesis" by (simp add: list_all_iff)
qed

lemma plain_radix: "2 \<le> r \<Longrightarrow> r \<le> 16 \<Longrightarrow> plain (show_radix r n)"
proof (induction r n rule: show_radix.induct)
  case (1 r n)
  have "n mod r < 16" using "1.prems" by (meson less_le_trans mod_less_divisor pos2 zero_less_numeral order_less_le_trans)
  then show ?case using 1 plain_digit [of n] plain_digit [of "n mod r"]
    by (subst show_radix.simps) (auto simp: plain_simps)
qed

lemma plain_numbers [plain_simps]: "plain (show_nat n)" "plain (show_hex n)"
  by (simp_all add: show_nat_def show_hex_def plain_radix)

lemma plain_join: "plain sep \<Longrightarrow> list_all plain ss \<Longrightarrow> plain (join_with sep ss)"
  by (induction sep ss rule: join_with.induct) (auto simp: plain_simps)

lemma plain_ipv4 [plain_simps]: "plain (display_ipv4 ip)"
  unfolding display_ipv4_def by (rule plain_join) (auto simp: plain_def [of "''.''"] list_all_iff plain_simps)

lemma plain_hex_groups: "plain (join_with '':'' (map show_hex ss))"
  by (rule plain_join) (auto simp: plain_def [of "'':''"] list_all_iff plain_simps)

lemma plain_ipv6 [plain_simps]: "plain (display_ipv6 ip)"
proof -
  have "plain ''::ffff:''" "plain ''::''" by (simp_all add: plain_def)
  then show ?thesis
    by (simp add: display_ipv6_def Let_def plain_simps plain_hex_groups split: prod.splits)
qed

lemma plain_socket [plain_simps]: "plain (display_socket addr)"
proof -
  have "plain '':''" "plain ''[''" "plain ''%''" "plain '']:''" by (simp_all add: plain_def)
  then show ?thesis
    by (cases addr) (simp_all only: display_socket.simps plain_simps split: if_split, simp_all)
qed

lemma plain_base64 [plain_simps]: "plain (base64_encode s)"
  using base64_encode_printable [of _ s] by (fastforce simp: plain_def list_all_iff)

section \<open>The client's request read by the server\<close>

text \<open>A line without a carriage return or a line feed, and what ends it.\<close>

lemma plain_no_break: "plain s \<Longrightarrow> CHR 0x0D \<notin> set s \<and> CHR 0x0A \<notin> set s"
  by (auto simp: plain_def list_all_iff)

lemma position_of_line:
  assumes "CHR 0x0D \<notin> set l"
  shows "position_of blank_line (l @ s) = map_option ((+) (length l)) (position_of blank_line s)"
proof -
  have "\<not> prefix blank_line (drop j (l @ s))" if j: "j < length l" for j
  proof -
    have "drop j (l @ s) = l ! j # drop (Suc j) l @ s" using j by (simp add: Cons_nth_drop_Suc [symmetric])
    then show ?thesis using assms j by (metis append_Cons blank_line_def crlf_def nth_mem prefix_code(3))
  qed
  from position_of_skip [OF this] show ?thesis by simp
qed

lemma position_of_crlf:
  "c \<noteq> CHR 0x0D \<Longrightarrow>
   position_of blank_line (crlf @ c # s) = map_option ((+) 2) (position_of blank_line (c # s))"
  by (cases "position_of blank_line s") (simp_all add: crlf_def blank_line_def)

lemma position_of_blank_line: "position_of blank_line (blank_line @ s) = Some 0"
  by (simp add: blank_line_def crlf_def)

lemma split_lines_line:
  assumes "CHR 0x0A \<notin> set l"
  shows "split_lines acc (l @ s) = split_lines (acc @ l) s"
  using assms by (induction l arbitrary: acc) auto

lemma split_lines_crlf: "CHR 0x0A \<notin> set l \<Longrightarrow> str_lines (l @ crlf @ s) = l # str_lines s"
  by (simp add: str_lines_def split_lines_line crlf_def strip_cr_def)

lemma trim_front_stops: "find (\<lambda>w. prefix w s) seqs = None \<Longrightarrow> trim_front n seqs s = s"
  by (cases n) simp_all

lemma plain_no_space:
  assumes "plain [c]" "w \<in> set whitespace_seqs"
  shows "\<not> prefix w (c # s) \<and> \<not> prefix (rev w) (c # s)"
proof -
  have "list_all (\<lambda>w. w \<noteq> [] \<and> \<not> plain [hd w] \<and> \<not> plain [last w]) whitespace_seqs" by code_simp
  then have w: "w \<noteq> []" "\<not> plain [hd w]" "\<not> plain [last w]" using assms(2) by (auto simp: list_all_iff)
  have "hd v = c" if "prefix v (c # s)" "v \<noteq> []" for v using that by (cases v) auto
  then show ?thesis using w assms(1) by (metis hd_rev rev_is_Nil_conv)
qed

lemma trim_plain_ends:
  assumes "plain [c]" "plain [d]"
  shows "trim (c # s @ [d]) = c # s @ [d]"
proof -
  have "find (\<lambda>w. prefix w (c # s @ [d])) whitespace_seqs = None"
    using plain_no_space [OF assms(1)] by (simp add: find_None_iff)
  moreover have "find (\<lambda>w. prefix w (rev (c # s @ [d]))) (map rev whitespace_seqs) = None"
    using plain_no_space [OF assms(2)] by (auto simp: find_None_iff)
  ultimately show ?thesis unfolding trim_def Let_def by (simp only: trim_front_stops rev_rev_ident)
qed

lemma ascii_append: "is_ascii (s @ t) \<longleftrightarrow> is_ascii s \<and> is_ascii t"
  by (simp add: is_ascii_def)

lemma plain_ascii: "plain s \<Longrightarrow> is_ascii s"
  by (auto simp: plain_def is_ascii_def list_all_iff)

lemma ascii_lossy: "is_ascii s \<Longrightarrow> utf8_lossy s = s"
  by (rule utf8_lossy_valid [OF utf8_ascii]) (simp add: is_ascii_def list_all_iff)

definition connect_line :: "socket_addr \<Rightarrow> string" where
  "connect_line addr = ''CONNECT '' @ display_socket addr @ '' HTTP/1.1''"

definition host_line :: "socket_addr \<Rightarrow> string" where
  "host_line addr = ''Host: '' @ display_socket addr"

lemma request_lines:
  "connect_request addr h @ payload =
     connect_line addr @ crlf @ host_line addr @ crlf @ (authorization_key @ h) @ blank_line @ payload"
  by (simp add: connect_request_def connect_line_def host_line_def)

lemma request_line_chars:
  "CHR 0x0D \<notin> set (connect_line addr)" "CHR 0x0A \<notin> set (connect_line addr)" "is_ascii (connect_line addr)"
  "CHR 0x0D \<notin> set (host_line addr)" "CHR 0x0A \<notin> set (host_line addr)" "is_ascii (host_line addr)"
  "CHR 0x0D \<notin> set authorization_key" "CHR 0x0A \<notin> set authorization_key" "is_ascii authorization_key"
  "CHR 0x0D \<notin> set basic_key" "CHR 0x0A \<notin> set basic_key" "is_ascii basic_key"
  using plain_no_break [OF plain_socket [of addr]] plain_ascii [OF plain_socket [of addr]]
  by (simp_all add: connect_line_def host_line_def authorization_key_def basic_key_def is_ascii_def)

lemma request_position:
  assumes "CHR 0x0D \<notin> set h"
  shows "position_of blank_line (connect_request addr h @ payload) = Some (length (connect_request addr h) - 4)"
proof -
  obtain hs where hs: "host_line addr = CHR ''H'' # hs" by (simp add: host_line_def)
  obtain as where as: "authorization_key = CHR ''A'' # as" by (simp add: authorization_key_def)
  have l: "CHR 0x0D \<notin> set (authorization_key @ h)" using assms request_line_chars by simp
  have "position_of blank_line (crlf @ (authorization_key @ h) @ blank_line @ payload) =
      Some (2 + length (authorization_key @ h))"
    using position_of_crlf [of "CHR ''A''" "as @ h @ blank_line @ payload"]
      position_of_line [OF l, of "blank_line @ payload"] position_of_blank_line [of payload]
    by (simp add: as)
  then have "position_of blank_line (crlf @ host_line addr @ crlf @ (authorization_key @ h) @ blank_line @ payload) =
      Some (2 + (length (host_line addr) + (2 + length (authorization_key @ h))))"
    using position_of_crlf [of "CHR ''H''" "hs @ crlf @ (authorization_key @ h) @ blank_line @ payload"]
      position_of_line [OF request_line_chars(4) [of addr], of "crlf @ (authorization_key @ h) @ blank_line @ payload"]
    by (simp add: hs)
  then have "position_of blank_line (connect_request addr h @ payload) =
      Some (length (connect_line addr) + (2 + (length (host_line addr) + (2 + length (authorization_key @ h)))))"
    unfolding request_lines position_of_line [OF request_line_chars(1)] by simp
  moreover have "length (connect_request addr h) =
      length (connect_line addr) + (2 + (length (host_line addr) + (2 + length (authorization_key @ h)))) + 4"
    using arg_cong [OF request_lines [of addr h "[]"], of length] by (simp add: crlf_def)
  ultimately show ?thesis by simp
qed

lemma request_split:
  assumes "CHR 0x0A \<notin> set h"
  shows "str_lines (connect_request addr h) = [connect_line addr, host_line addr, authorization_key @ h, []]"
proof -
  have r: "connect_request addr h =
      connect_line addr @ crlf @ host_line addr @ crlf @ (authorization_key @ h) @ crlf @ [] @ crlf @ []"
    using request_lines [of addr h "[]"] by (simp add: blank_line_def)
  have l: "CHR 0x0A \<notin> set (authorization_key @ h)" using assms request_line_chars by simp
  show ?thesis
    unfolding r split_lines_crlf [OF request_line_chars(2)] split_lines_crlf [OF request_line_chars(5)]
      split_lines_crlf [OF l] split_lines_crlf [of "[]", simplified]
    by (simp add: str_lines_def crlf_def strip_cr_def)
qed

lemma own_header_text:
  assumes "encode_header (Basic u p) = Some h"
  shows "CHR 0x0D \<notin> set h" "CHR 0x0A \<notin> set h" "is_ascii h" "trim h = h"
proof -
  let ?e = "base64_encode (u @ CHR '':'' # p)"
  have h: "h = basic_key @ ?e" using assms by simp
  note plain_no_break [OF plain_base64 [of "u @ CHR '':'' # p"]]
  then show "CHR 0x0D \<notin> set h" "CHR 0x0A \<notin> set h" using request_line_chars h by auto
  show "is_ascii h" using plain_ascii [OF plain_base64] request_line_chars h by (simp add: ascii_append)
  have ne: "?e \<noteq> []" using own_payload [of "u @ CHR '':'' # p"]
    by (auto simp: base64_decode_def trim_end_matches_def as_bytes_def)
  then obtain es e where e: "?e = es @ [e]" by (metis rev_exhaust)
  then have "plain [e]" using plain_base64 [of "u @ CHR '':'' # p"] by (simp add: plain_append)
  from trim_plain_ends [OF _ this, of "CHR ''B''" "''asic '' @ es"] show "trim h = h"
    by (simp add: h e basic_key_def plain_def)
qed

lemma request_length: "4 \<le> length (connect_request addr h)"
  using arg_cong [OF request_lines [of addr h "[]"], of length] by simp

lemma request_decision:
  assumes "utf8_valid (u @ CHR '':'' # p)" "encode_header (Basic u p) = Some h"
  shows "authorization_loop (Basic u' p') payload (drop 1 (str_lines (utf8_lossy (connect_request addr h)))) =
    (if split_once (CHR '':'') (u @ CHR '':'' # p) = Some (u', p') then Ok payload else Err invalid_credentials)"
proof -
  note h = own_header_text [OF assms(2)]
  have "is_ascii (connect_request addr h @ [])"
    unfolding request_lines using request_line_chars h(3)
    by (simp add: ascii_append) (simp add: is_ascii_def crlf_def blank_line_def)
  then have lossy: "utf8_lossy (connect_request addr h) = connect_request addr h" by (simp add: ascii_lossy)
  have host: "strip_prefix authorization_key (host_line addr) = None"
    by (simp add: strip_prefix_def authorization_key_def host_line_def)
  have key: "strip_prefix authorization_key (authorization_key @ h) = Some h" by (simp add: strip_prefix_some)
  have "validate_header (Basic u' p') h \<longleftrightarrow> split_once (CHR '':'') (u @ CHR '':'' # p) = Some (u', p')"
  proof -
    have "strip_prefix basic_key h = Some (base64_encode (u @ CHR '':'' # p))"
      using assms(2) by (auto simp: strip_prefix_some)
    then show ?thesis
      using assms(1) unfolding validate_header.simps own_payload
      by (simp only: option.case sum.case own_payload of_bytes_as_bytes if_True) (auto split: option.splits)
  qed
  then show ?thesis by (simp add: lossy request_split [OF h(2)] host key h(4))
qed

text \<open>
  C14. The request a \<open>ProxyClient\<close> with credentials \<open>u\<close>, \<open>p\<close> sends is understood by the proxy
  whatever the backend address and whatever the client sends after it: a proxy expecting \<open>u'\<close>, \<open>p'\<close>
  lets it in, and passes on exactly the bytes after the request, when splitting \<open>u:p\<close> at its first
  colon gives \<open>u'\<close> and \<open>p'\<close>, and refuses the credentials otherwise.
\<close>

theorem client_request_authenticated:
  assumes "utf8_valid (u @ CHR '':'' # p)" "encode_header (Basic u p) = Some h"
  shows "parse_http_auth_from_bytes (connect_request addr h @ payload) (Basic u' p') =
    (if split_once (CHR '':'') (u @ CHR '':'' # p) = Some (u', p') then Ok payload else Err invalid_credentials)"
proof -
  have cut: "length (connect_request addr h) - 4 + 4 = length (connect_request addr h)"
    using request_length by simp
  then show ?thesis
    unfolding parse_http_auth_from_bytes_def Let_def
      request_position [OF own_header_text(1) [OF assms(2)]] option.case cut
    by (simp add: request_decision [OF assms, simplified])
qed

theorem client_request_authenticated_witness:
  "\<exists>h. encode_header (Basic ''user'' ''pass'') = Some h \<and>
     parse_http_auth_from_bytes (connect_request (SockV4 1 80) h @ ''HELLO'') (Basic ''user'' ''pass'') = Ok ''HELLO''"
proof -
  have "utf8_valid (''user'' @ CHR '':'' # ''pass'')" by (rule utf8_ascii) simp
  moreover have "split_once (CHR '':'') (''user'' @ CHR '':'' # ''pass'') = Some (''user'', ''pass'')" by simp
  ultimately show ?thesis
    using client_request_authenticated [of "''user''" "''pass''" _ "SockV4 1 80" "''HELLO''" "''user''" "''pass''"]
    by (metis encode_header.simps(2))
qed

end
