(* ===== verification/Proxy_Forward.thy ===== *)
theory Proxy_Forward
  imports Config Routing Proxy_Client
begin

text \<open>
  Forwarding one proxied connection (src/src/proxy.rs): the configuration, \<open>TcpProxy::forward_to\<close>
  and \<open>forward_async_connection\<close>. What the sockets answer is an argument, a record of the results of
  the calls; the result says how the call ended and what it did to the backend and to the client.
  \<open>None\<close> as the end means that it is still waiting.
\<close>

section \<open>Configuration\<close>

record proxy_config =
  pc_listen_addr :: socket_addr
  pc_backend_addr :: socket_addr
  pc_auth :: proxy_auth
  pc_buffer_size :: usize
  pc_connection_timeout :: duration
  pc_guards :: guard_stack_config
  pc_tls_offload :: "tls_config option"
  pc_routing :: "routing_table option"
  pc_backend_pool :: "pool_ref option"

definition proxy_config_new :: "socket_addr \<Rightarrow> socket_addr \<Rightarrow> proxy_config" where
  "proxy_config_new listen_addr backend_addr =
     \<lparr>pc_listen_addr = listen_addr, pc_backend_addr = backend_addr, pc_auth = NoAuth,
      pc_buffer_size = 8192, pc_connection_timeout = secs 30, pc_guards = guard_stack_config_default,
      pc_tls_offload = None, pc_routing = None, pc_backend_pool = None\<rparr>"

definition with_connection_timeout :: "duration \<Rightarrow> proxy_config \<Rightarrow> proxy_config" where
  "with_connection_timeout d c = c\<lparr>pc_connection_timeout := d\<rparr>"

definition with_auth :: "proxy_auth \<Rightarrow> proxy_config \<Rightarrow> proxy_config" where
  "with_auth auth c = c\<lparr>pc_auth := auth\<rparr>"

definition with_buffer_size :: "usize \<Rightarrow> proxy_config \<Rightarrow> proxy_config" where
  "with_buffer_size n c = c\<lparr>pc_buffer_size := n\<rparr>"

definition with_guards :: "guard_stack_config \<Rightarrow> proxy_config \<Rightarrow> proxy_config" where
  "with_guards guards c = c\<lparr>pc_guards := guards\<rparr>"

definition with_tls_offload :: "tls_config \<Rightarrow> proxy_config \<Rightarrow> proxy_config" where
  "with_tls_offload tls c = c\<lparr>pc_tls_offload := Some tls\<rparr>"

definition with_routing :: "routing_table \<Rightarrow> proxy_config \<Rightarrow> proxy_config" where
  "with_routing table c = c\<lparr>pc_routing := Some table\<rparr>"

definition with_backend_pool :: "pool_ref \<Rightarrow> proxy_config \<Rightarrow> proxy_config" where
  "with_backend_pool pool c = c\<lparr>pc_backend_pool := Some pool\<rparr>"

section \<open>The blocking proxy\<close>

text \<open>The handle of a proxy is the value its shared cell holds.\<close>

record tcp_proxy =
  tp_config :: proxy_config
  tp_auth_handle :: "proxy_auth option"

definition tcp_proxy_new :: "proxy_config \<Rightarrow> tcp_proxy" where
  "tcp_proxy_new config = \<lparr>tp_config = config, tp_auth_handle = None\<rparr>"

definition with_auth_handle :: "proxy_auth \<Rightarrow> tcp_proxy \<Rightarrow> tcp_proxy" where
  "with_auth_handle h p = p\<lparr>tp_auth_handle := Some h\<rparr>"

definition effective_auth :: "tcp_proxy \<Rightarrow> proxy_auth outcome" where
  "effective_auth p =
     (case tp_auth_handle p of Some handle \<Rightarrow> handle_current handle | None \<Rightarrow> Ok (pc_auth (tp_config p)))"

record forwarded =
  fw_outcome :: "unit outcome option"
  fw_contacted :: "socket_addr option"
  fw_to_backend :: "string list"
  fw_to_client :: "string list"

definition ended :: "unit outcome \<Rightarrow> forwarded" where
  "ended r = \<lparr>fw_outcome = Some r, fw_contacted = None, fw_to_backend = [], fw_to_client = []\<rparr>"

text \<open>
  One copying thread: the chunks it wrote in full, and whether it has ended. The list of write results
  says how far the receiver took the bytes; what a \<open>write_all\<close> that failed got across is not counted
  here, and accounted for in \<open>Relay\<close>.
\<close>

fun copy_loop :: "reads \<Rightarrow> unit io list \<Rightarrow> string list \<times> bool" where
  "copy_loop [] ws = ([], False)"
| "copy_loop (IoErr msg # rs) ws = ([], True)"
| "copy_loop (IoOk chunk # rs) ws =
     (if chunk = [] then ([], True)
      else case ws of
          [] \<Rightarrow> ([], False)
        | IoErr _ # _ \<Rightarrow> ([], True)
        | IoOk _ # ws \<Rightarrow> (let (copied, done) = copy_loop rs ws in (chunk # copied, done)))"

record forward_env =
  fe_reads :: reads
  fe_connect :: "unit io"
  fe_write_trailing :: "unit io"
  fe_clone_client :: "unit io"
  fe_clone_backend :: "unit io"
  fe_backend_writes :: "unit io list"
  fe_backend_reads :: reads
  fe_client_writes :: "unit io list"

definition forward_bidirectional :: "reads \<Rightarrow> forward_env \<Rightarrow> forwarded" where
  "forward_bidirectional rs env =
     (case fe_clone_client env of
        IoErr msg \<Rightarrow> ended (Err (connection_error (''Failed to clone client for reverse: '' @ msg)))
      | IoOk _ \<Rightarrow>
          (case fe_clone_backend env of
             IoErr msg \<Rightarrow> ended (Err (connection_error (''Failed to clone backend for forward: '' @ msg)))
           | IoOk _ \<Rightarrow>
               let (to_backend, done1) = copy_loop rs (fe_backend_writes env);
                   (to_client, done2) = copy_loop (fe_backend_reads env) (fe_client_writes env)
               in \<lparr>fw_outcome = (if done1 \<and> done2 then Some (Ok ()) else None), fw_contacted = None,
                   fw_to_backend = to_backend, fw_to_client = to_client\<rparr>))"

definition forward_to :: "tcp_proxy \<Rightarrow> socket_addr option \<Rightarrow> forward_env \<Rightarrow> forwarded" where
  "forward_to p override_backend env =
     (case effective_auth p of
        Err e \<Rightarrow> ended (Err e)
      | Panic msg \<Rightarrow> ended (Panic msg)
      | Ok auth \<Rightarrow>
          (case (if is_basic auth then validate_http_auth_stream auth (fe_reads env)
                 else Some (Ok [], fe_reads env)) of
             None \<Rightarrow> (ended (Ok ()))\<lparr>fw_outcome := None\<rparr>
           | Some (Err e, rs) \<Rightarrow> ended (Err e)
           | Some (Panic msg, rs) \<Rightarrow> ended (Panic msg)
           | Some (Ok trailing_payload, rs) \<Rightarrow>
               let backend_addr = (case override_backend of Some a \<Rightarrow> a | None \<Rightarrow> pc_backend_addr (tp_config p)) in
               (case fe_connect env of
                  IoErr msg \<Rightarrow> (ended (Err (connection_error msg)))\<lparr>fw_contacted := Some backend_addr\<rparr>
                | IoOk _ \<Rightarrow>
                    if trailing_payload = [] then
                      (forward_bidirectional rs env)\<lparr>fw_contacted := Some backend_addr\<rparr>
                    else
                      (case fe_write_trailing env of
                         IoErr msg \<Rightarrow>
                           (ended (Err (connection_error (''Failed to write trailing payload to backend: '' @ msg))))
                             \<lparr>fw_contacted := Some backend_addr\<rparr>
                       | IoOk _ \<Rightarrow>
                           (let f = forward_bidirectional rs env in
                            f\<lparr>fw_contacted := Some backend_addr,
                              fw_to_backend := trailing_payload # fw_to_backend f\<rparr>)))))"

definition proxy_forward :: "tcp_proxy \<Rightarrow> forward_env \<Rightarrow> forwarded" where
  "proxy_forward p env = forward_to p None env"

section \<open>The asynchronous proxy\<close>

definition resolve_auth :: "proxy_auth \<Rightarrow> proxy_auth option \<Rightarrow> proxy_auth outcome" where
  "resolve_auth config_auth auth_handle =
     (case auth_handle of Some handle \<Rightarrow> handle_current handle | None \<Rightarrow> Ok config_auth)"

text \<open>
  Connecting may run into its time-out: \<open>None\<close>. The acceptor (\<open>tls::async_server_acceptor\<close>), the
  handshake and the copying of \<open>copy_bidirectional\<close> belong to the libraries: their results are
  arguments, the copy with what it moved each way. After a handshake \<open>fe_reads\<close> are the decrypted
  bytes.
\<close>

record async_forward_env =
  ae_reads :: reads
  ae_connect :: "unit io option"
  ae_acceptor :: "unit outcome"
  ae_accept :: "unit io"
  ae_write_preloaded :: "unit io"
  ae_copy :: "reads \<Rightarrow> unit io option \<times> string list \<times> string list"

definition relay_authenticated :: "socket_addr \<Rightarrow> proxy_auth \<Rightarrow> async_forward_env \<Rightarrow> forwarded" where
  "relay_authenticated backend_addr auth env =
     (case authenticate_stream auth (ae_reads env) of
        None \<Rightarrow> (ended (Ok ()))\<lparr>fw_outcome := None, fw_contacted := Some backend_addr\<rparr>
      | Some (Err e, rs) \<Rightarrow> (ended (Err e))\<lparr>fw_contacted := Some backend_addr\<rparr>
      | Some (Panic msg, rs) \<Rightarrow> (ended (Panic msg))\<lparr>fw_contacted := Some backend_addr\<rparr>
      | Some (Ok preloaded_payload, rs) \<Rightarrow>
          (let (r, to_backend, to_client) = ae_copy env rs;
               copied = (\<lambda>before. \<lparr>fw_outcome = (case r of
                     None \<Rightarrow> None | Some (IoOk _) \<Rightarrow> Some (Ok ())
                   | Some (IoErr msg) \<Rightarrow> Some (Err (connection_error msg))),
                 fw_contacted = Some backend_addr, fw_to_backend = before @ to_backend,
                 fw_to_client = to_client\<rparr>) in
           if preloaded_payload = [] then copied []
           else
             (case ae_write_preloaded env of
                IoErr msg \<Rightarrow> (ended (Err (connection_error msg)))\<lparr>fw_contacted := Some backend_addr\<rparr>
              | IoOk _ \<Rightarrow> copied [preloaded_payload])))"

definition connect_timed_out :: "socket_addr \<Rightarrow> duration \<Rightarrow> syn_error" where
  "connect_timed_out addr d =
     connection_error (''backend connect to '' @ display_socket addr @ '' timed out after '' @ debug_duration d)"

definition forward_async_connection ::
    "proxy_config \<Rightarrow> proxy_auth option \<Rightarrow> socket_addr option \<Rightarrow> async_forward_env \<Rightarrow> forwarded" where
  "forward_async_connection config auth_handle backend_override env =
     (case resolve_auth (pc_auth config) auth_handle of
        Err e \<Rightarrow> ended (Err e)
      | Panic msg \<Rightarrow> ended (Panic msg)
      | Ok auth \<Rightarrow>
          let backend_addr = (case backend_override of Some a \<Rightarrow> a | None \<Rightarrow> pc_backend_addr config) in
          (case ae_connect env of
             None \<Rightarrow> (ended (Err (connect_timed_out backend_addr (pc_connection_timeout config))))
               \<lparr>fw_contacted := Some backend_addr\<rparr>
           | Some (IoErr msg) \<Rightarrow> (ended (Err (connection_error msg)))\<lparr>fw_contacted := Some backend_addr\<rparr>
           | Some (IoOk _) \<Rightarrow>
               if (case pc_tls_offload config of None \<Rightarrow> False | Some tls \<Rightarrow> tls_enabled tls) then
                 (case ae_acceptor env of
                    Err e \<Rightarrow> (ended (Err e))\<lparr>fw_contacted := Some backend_addr\<rparr>
                  | Panic msg \<Rightarrow> (ended (Panic msg))\<lparr>fw_contacted := Some backend_addr\<rparr>
                  | Ok _ \<Rightarrow>
                      (case ae_accept env of
                         IoErr msg \<Rightarrow> (ended (Err (tls_error msg)))\<lparr>fw_contacted := Some backend_addr\<rparr>
                       | IoOk _ \<Rightarrow> relay_authenticated backend_addr auth env))
               else relay_authenticated backend_addr auth env))"

section \<open>Lemmas\<close>

lemma received_simps [simp]:
  "received [] = []" "received (IoOk c # rs) = c @ received rs" "received (IoErr m # rs) = received rs"
  "received (map IoOk cs @ rs) = concat cs @ received rs"
  by (simp_all add: received_def comp_def)

lemma copy_loop_prefix: "prefix (concat (fst (copy_loop rs ws))) (received rs)"
  by (induction rs ws rule: copy_loop.induct) (auto simp: split_beta split: io.splits list.splits)

lemma copy_loop_complete:
  "list_all (\<lambda>c. c \<noteq> []) cs \<Longrightarrow> length cs \<le> length ws \<Longrightarrow> list_all (\<lambda>w. w = IoOk ()) ws \<Longrightarrow>
   copy_loop (map IoOk cs @ IoOk [] # rs) ws = (cs, True)"
proof (induction cs arbitrary: ws)
  case (Cons c cs)
  then obtain w ws' where "ws = w # ws'" by (cases ws) auto
  then show ?case using Cons by auto
qed simp

lemma authorization_loop_payload:
  "authorization_loop auth payload ls = map_outcome (\<lambda>_. payload) (authorization_loop auth () ls)"
  by (induction ls) (auto split: option.splits)

text \<open>Forwarding returns or goes on waiting; it never panics.\<close>

lemma bidirectional_never_panics: "fw_outcome (forward_bidirectional rs env) \<noteq> Some (Panic msg)"
  by (simp add: forward_bidirectional_def ended_def Let_def split_beta split: io.split)

lemma forward_never_panics: "fw_outcome (forward_to p override env) \<noteq> Some (Panic msg)"
proof -
  obtain auth where auth: "effective_auth p = Ok auth"
    by (cases "tp_auth_handle p") (simp_all add: effective_auth_def handle_current_def)
  define v where "v = (if is_basic auth then validate_http_auth_stream auth (fe_reads env) else Some (Ok [], fe_reads env))"
  have no: "v \<noteq> Some (Panic m, rs)" for m rs by (simp add: v_def sync_decision auth_decision_no_panic)
  consider "v = None" | e rs where "v = Some (Err e, rs)" | d rs where "v = Some (Ok d, rs)"
    using no by (metis outcome.exhaust option.exhaust prod.exhaust)
  then show ?thesis
    by cases (simp_all add: forward_to_def auth v_def [symmetric] ended_def Let_def bidirectional_never_panics split: io.split)
qed

lemma async_forward_never_panics:
  assumes "\<And>m. ae_acceptor env \<noteq> Panic m"
  shows "fw_outcome (forward_async_connection config handle override env) \<noteq> Some (Panic msg)"
proof -
  have "authenticate_stream auth rs \<noteq> Some (Panic m, rs')" for auth rs m rs'
  proof (cases "is_basic auth")
    case True
    then show ?thesis by (simp add: async_decision auth_decision_no_panic)
  qed (simp add: authenticate_stream_def)
  then have "fw_outcome (relay_authenticated addr auth env) \<noteq> Some (Panic msg)" for addr auth
    by (auto simp: relay_authenticated_def ended_def Let_def split: option.splits outcome.splits io.splits prod.splits)
  then show ?thesis
    using assms by (auto simp: forward_async_connection_def resolve_auth_def handle_current_def ended_def Let_def
        split: option.splits outcome.splits io.splits)
qed

text \<open>The bytes of a header block show the credentials.\<close>

definition credentials_shown :: "proxy_auth \<Rightarrow> string \<Rightarrow> bool" where
  "credentials_shown auth headers \<longleftrightarrow>
     (\<exists>line \<in> set (str_lines (utf8_lossy headers)).
        \<exists>v. line = authorization_key @ v \<and> validate_header auth (trim v))"

lemma authorization_loop_ok:
  "authorization_loop auth payload ls = Ok r \<Longrightarrow>
   r = payload \<and> (\<exists>line \<in> set ls. \<exists>v. line = authorization_key @ v \<and> validate_header auth (trim v))"
  by (induction ls) (auto simp: strip_prefix_some split: option.splits if_splits)

lemma auth_decision_ok:
  assumes "auth_decision skip auth (header_spec io_error rs []) = Some (Ok payload, rs')"
    and "\<And>ls. set (skip ls) \<subseteq> set ls"
  shows "\<exists>h. position_of blank_line (received rs) = Some (h - 4) \<and> credentials_shown auth (take h (received rs)) \<and>
    payload @ received rs' = drop h (received rs)"
proof -
  obtain h d where hd: "header_spec io_error rs [] = Some (Ok (h, d), rs')"
      "authorization_loop auth (drop h d) (skip (str_lines (utf8_lossy (take h d)))) = Ok payload"
    using assms(1) unfolding auth_decision_def
    by (cases "header_spec io_error rs []") (auto split: outcome.splits prod.splits)
  have all: "received rs = d @ received rs'" using header_spec_received [OF hd(1)] by simp
  have p: "position_of blank_line d = Some (h - 4)" "4 \<le> h" using header_spec_position [OF hd(1)] by auto
  have h: "h \<le> length d" using position_of_bound [OF blank_line_not_Nil p(1)] p(2) by simp
  have "credentials_shown auth (take h d)" "payload = drop h d"
    using authorization_loop_ok [OF hd(2)] assms(2) by (auto simp: credentials_shown_def)
  then show ?thesis using all h position_of_append [OF p(1) blank_line_not_Nil]
    by (intro exI [of _ h]) simp
qed

lemma sync_auth_ok:
  assumes "validate_http_auth_stream auth rs = Some (Ok payload, rs')"
  shows "\<exists>h. position_of blank_line (received rs) = Some (h - 4) \<and> credentials_shown auth (take h (received rs)) \<and>
    payload @ received rs' = drop h (received rs)"
  using assms auth_decision_ok [of "drop 1"] set_drop_subset unfolding sync_decision by metis

lemma async_auth_ok:
  assumes "authenticate_stream auth rs = Some (Ok payload, rs')" "is_basic auth"
  shows "\<exists>h. position_of blank_line (received rs) = Some (h - 4) \<and> credentials_shown auth (take h (received rs)) \<and>
    payload @ received rs' = drop h (received rs)"
  using assms auth_decision_ok [of id] unfolding async_decision [OF assms(2)] by simp

definition chosen_backend :: "proxy_config \<Rightarrow> socket_addr option \<Rightarrow> socket_addr" where
  "chosen_backend config override_backend =
     (case override_backend of Some a \<Rightarrow> a | None \<Rightarrow> pc_backend_addr config)"

lemma bidirectional_prefix: "prefix (concat (fw_to_backend (forward_bidirectional rs env))) (received rs)"
  using copy_loop_prefix [of rs "fe_backend_writes env"]
  by (auto simp: forward_bidirectional_def ended_def split_beta Let_def split: io.splits)

lemma ended_simps [simp]:
  "fw_outcome (ended r) = Some r" "fw_contacted (ended r) = None" "fw_to_backend (ended r) = []" "fw_to_client (ended r) = []"
  by (simp_all add: ended_def)

lemma forward_contacts:
  assumes "effective_auth p = Ok auth" "is_basic auth"
    and "validate_http_auth_stream auth (fe_reads env) = Some (Ok payload, rs)"
  shows "fw_contacted (forward_to p override_backend env) \<noteq> None"
  using assms by (simp add: forward_to_def Let_def split: io.splits)

lemma relay_contacted [simp]: "fw_contacted (relay_authenticated backend_addr auth env) = Some backend_addr"
  by (simp add: relay_authenticated_def Let_def split_beta split: option.split io.split outcome.split)

lemma relay_moves:
  assumes "fw_to_backend (relay_authenticated backend_addr auth env) \<noteq> [] \<or>
      fw_to_client (relay_authenticated backend_addr auth env) \<noteq> []"
  shows "\<exists>payload rs. authenticate_stream auth (ae_reads env) = Some (Ok payload, rs)"
  using assms by (cases "authenticate_stream auth (ae_reads env)")
    (auto simp: relay_authenticated_def split: outcome.splits prod.splits)

lemma relay_prefix:
  assumes "authenticate_stream auth (ae_reads env) = Some (Ok payload, rs)"
    and "prefix (concat (fst (snd (ae_copy env rs)))) (received rs)"
  shows "prefix (concat (fw_to_backend (relay_authenticated backend_addr auth env))) (payload @ received rs)"
  using assms by (simp add: relay_authenticated_def Let_def split_beta split: io.split)

lemma async_forward_cases:
  fixes env :: async_forward_env and backend_override :: "socket_addr option"
  assumes "resolve_auth (pc_auth config) auth_handle = Ok auth"
  defines "f \<equiv> forward_async_connection config auth_handle backend_override env"
  shows "fw_contacted f = Some (chosen_backend config backend_override) \<and>
    (f = relay_authenticated (chosen_backend config backend_override) auth env \<or>
     fw_to_backend f = [] \<and> fw_to_client f = [])"
  unfolding f_def forward_async_connection_def assms(1) outcome.case Let_def chosen_backend_def [symmetric]
  by (cases "ae_connect env"; cases "ae_acceptor env"; cases "ae_accept env"; cases "the (ae_connect env)")
    simp_all

section \<open>Properties\<close>

text \<open>
  C1. The blocking proxy with credentials does nothing for a client that has not shown them: if the
  backend was contacted, or a byte went to either side, then the client's bytes hold a header block
  with a line that carries the credentials, the backend is the one of the routing decision or of the
  configuration, and the backend receives a prefix of what the client sent after the block.
\<close>

theorem sync_proxy_authenticates_first:
  assumes "effective_auth p = Ok auth" "is_basic auth" "f = forward_to p override_backend env"
    and "fw_contacted f \<noteq> None \<or> fw_to_backend f \<noteq> [] \<or> fw_to_client f \<noteq> []"
  shows "fw_contacted f = Some (chosen_backend (tp_config p) override_backend) \<and>
    (\<exists>h. position_of blank_line (received (fe_reads env)) = Some (h - 4) \<and>
      credentials_shown auth (take h (received (fe_reads env))) \<and>
      prefix (concat (fw_to_backend f)) (drop h (received (fe_reads env))))"
proof -
  obtain payload rs where ok: "validate_http_auth_stream auth (fe_reads env) = Some (Ok payload, rs)"
    using assms by (auto simp: forward_to_def split: option.splits outcome.splits prod.splits)
  obtain h where h: "position_of blank_line (received (fe_reads env)) = Some (h - 4)"
      "credentials_shown auth (take h (received (fe_reads env)))"
      "payload @ received rs = drop h (received (fe_reads env))"
    using sync_auth_ok [OF ok] by blast
  have "fw_contacted f = Some (chosen_backend (tp_config p) override_backend) \<and>
      prefix (concat (fw_to_backend f)) (payload @ received rs)"
    using assms(1-3) ok bidirectional_prefix [of rs env]
    by (auto simp: forward_to_def Let_def chosen_backend_def split: io.splits)
  then show ?thesis using h by metis
qed

definition demo_addr :: "nat \<Rightarrow> socket_addr" where
  "demo_addr n = SockV4 (ipv4_new 10 0 0 (of_nat n)) 80"

text \<open>A client that shows the credentials \<open>u\<close>, \<open>p\<close> and goes on with \<open>xyz\<close>.\<close>

definition demo_request :: string where
  "demo_request = connect_request (demo_addr 1) ''Basic dTpw''"

definition demo_reads :: "string list" where
  "demo_reads = [demo_request, ''xy'', ''z'']"

definition demo_env :: forward_env where
  "demo_env =
     \<lparr>fe_reads = map IoOk demo_reads @ IoOk [] # [], fe_connect = IoOk (), fe_write_trailing = IoOk (),
      fe_clone_client = IoOk (), fe_clone_backend = IoOk (), fe_backend_writes = [IoOk (), IoOk (), IoOk ()],
      fe_backend_reads = map IoOk [''reply''] @ IoOk [] # [], fe_client_writes = [IoOk (), IoOk (), IoOk ()]\<rparr>"

definition demo_proxy :: tcp_proxy where
  "demo_proxy = tcp_proxy_new (with_auth (Basic ''u'' ''p'') (proxy_config_new (demo_addr 1) (demo_addr 2)))"

lemma demo_header: "encode_header (Basic ''u'' ''p'') = Some ''Basic dTpw''"
  by code_simp

lemma demo_request_length: "length demo_request = 78"
  by code_simp

lemma demo_reads_ok:
  "list_all (\<lambda>c. c \<noteq> []) demo_reads" "position_of blank_line (concat demo_reads) = Some 74"
  "74 + 4 \<le> header_cap" "drop (74 + 4) (concat demo_reads) = ''xyz''" "take (74 + 4) (concat demo_reads) = demo_request"
proof -
  have r: "concat demo_reads = demo_request @ ''xyz''" by (simp add: demo_reads_def)
  show "list_all (\<lambda>c. c \<noteq> []) demo_reads" using demo_request_length by (auto simp: demo_reads_def)
  show "position_of blank_line (concat demo_reads) = Some 74"
    unfolding r demo_request_def
    using request_position [OF own_header_text(1) [OF demo_header], of "demo_addr 1" "''xyz''"]
      demo_request_length [unfolded demo_request_def] by simp
  show "74 + 4 \<le> header_cap" by (simp add: header_cap_def)
  show "drop (74 + 4) (concat demo_reads) = ''xyz''" "take (74 + 4) (concat demo_reads) = demo_request"
    using demo_request_length by (simp_all add: r)
qed

lemma demo_credentials:
  "authorization_loop (Basic ''u'' ''p'') () (drop 1 (str_lines (utf8_lossy (take (74 + 4) (concat demo_reads))))) = Ok ()"
proof -
  have "utf8_valid (''u'' @ CHR '':'' # ''p'')" by (rule utf8_ascii) simp
  moreover have "split_once (CHR '':'') (''u'' @ CHR '':'' # ''p'') = Some (''u'', ''p'')" by simp
  ultimately show ?thesis
    unfolding demo_reads_ok(5) demo_request_def by (simp only: request_decision [OF _ demo_header] if_True refl)
qed

lemma demo_proxy_auth: "effective_auth demo_proxy = Ok (Basic ''u'' ''p'')"
  by (simp add: effective_auth_def demo_proxy_def tcp_proxy_new_def with_auth_def)

text \<open>
  A relay is complete and in order: when the client shows the credentials in a block of at most
  64 KiB and both sides then send what they have, end their streams and take what they are sent,
  \<open>forward_to\<close> returns without an error, the backend has received exactly the bytes after the block,
  however they were cut, and the client exactly what the backend sent.
\<close>

theorem sync_relay_complete:
  assumes "effective_auth p = Ok auth" "is_basic auth" "fe_reads env = map IoOk cs @ IoOk [] # rs"
    and "list_all (\<lambda>c. c \<noteq> []) cs" "position_of blank_line (concat cs) = Some i" "i + 4 \<le> header_cap"
    and "authorization_loop auth () (drop 1 (str_lines (utf8_lossy (take (i + 4) (concat cs))))) = Ok ()"
    and "fe_backend_reads env = map IoOk ds @ IoOk [] # rs'" "list_all (\<lambda>c. c \<noteq> []) ds"
    and "fe_connect env = IoOk ()" "fe_write_trailing env = IoOk ()" "fe_clone_client env = IoOk ()"
      "fe_clone_backend env = IoOk ()"
    and "list_all (\<lambda>w. w = IoOk ()) (fe_backend_writes env)" "length cs \<le> length (fe_backend_writes env)"
    and "list_all (\<lambda>w. w = IoOk ()) (fe_client_writes env)" "length ds \<le> length (fe_client_writes env)"
  shows "fw_outcome (forward_to p override_backend env) = Some (Ok ()) \<and>
    concat (fw_to_backend (forward_to p override_backend env)) = drop (i + 4) (concat cs) \<and>
    concat (fw_to_client (forward_to p override_backend env)) = concat ds"
proof -
  obtain payload k where a: "validate_http_auth_stream auth (fe_reads env) =
        Some (Ok payload, map IoOk (drop k cs) @ IoOk [] # rs)"
      "payload @ concat (drop k cs) = drop (i + 4) (concat cs)"
    using auth_chunks [OF assms(4-6), where skip = "drop 1" and auth = auth and io_error = read_failed
        and rs = "IoOk [] # rs"] assms(7)
    unfolding sync_decision assms(3) by (subst (asm) authorization_loop_payload) auto
  have ne: "list_all (\<lambda>c. c \<noteq> []) (drop k cs)" using assms(4) by (auto simp: list_all_iff dest: in_set_dropD)
  have up: "copy_loop (map IoOk (drop k cs) @ IoOk [] # rs) (fe_backend_writes env) = (drop k cs, True)"
    by (rule copy_loop_complete [OF ne]) (use assms(14,15) in simp_all)
  have down: "copy_loop (fe_backend_reads env) (fe_client_writes env) = (ds, True)"
    unfolding assms(8) by (rule copy_loop_complete) (use assms(9,16,17) in simp_all)
  show ?thesis
    using assms(1,2,10-13) a up down
    by (auto simp: forward_to_def forward_bidirectional_def Let_def)
qed

theorem sync_relay_complete_witness:
  "fw_outcome (forward_to demo_proxy None demo_env) = Some (Ok ()) \<and>
   concat (fw_to_backend (forward_to demo_proxy None demo_env)) = ''xyz'' \<and>
   concat (fw_to_client (forward_to demo_proxy None demo_env)) = ''reply''"
proof -
  have "is_basic (Basic ''u'' ''p'')" by simp
  from sync_relay_complete [OF demo_proxy_auth this, of demo_env demo_reads "[]" 74 "[''reply'']" "[]" None]
  show ?thesis using demo_reads_ok demo_credentials by (simp add: demo_env_def) (simp add: demo_reads_def)
qed

lemma demo_proxy_passes: "validate_http_auth_stream (Basic ''u'' ''p'') (fe_reads demo_env) = Some (Ok [], [IoOk ''xy'', IoOk ''z'', IoOk []])"
proof -
  have "position_of blank_line demo_request = Some 74"
    using request_position [OF own_header_text(1) [OF demo_header], of "demo_addr 1" "[]"] demo_request_length
    by (simp add: demo_request_def)
  moreover have "demo_request \<noteq> []" using demo_request_length by auto
  moreover have "authorization_loop (Basic ''u'' ''p'') [] (drop 1 (str_lines (utf8_lossy demo_request))) = Ok []"
    using demo_credentials demo_reads_ok(5) by (subst authorization_loop_payload) simp
  ultimately show ?thesis
    unfolding sync_decision auth_decision_def demo_env_def demo_reads_def
    using demo_request_length by simp
qed

theorem sync_proxy_authenticates_first_witness:
  "\<exists>h. credentials_shown (Basic ''u'' ''p'') (take h (received (fe_reads demo_env))) \<and>
     prefix (concat (fw_to_backend (forward_to demo_proxy None demo_env))) (drop h (received (fe_reads demo_env)))"
proof -
  have "fw_contacted (forward_to demo_proxy None demo_env) \<noteq> None"
    by (rule forward_contacts [OF demo_proxy_auth _ demo_proxy_passes]) simp
  moreover have "is_basic (Basic ''u'' ''p'')" by simp
  ultimately show ?thesis using sync_proxy_authenticates_first [OF demo_proxy_auth _ refl] by blast
qed

text \<open>
  C24. The asynchronous proxy connects to the backend before it looks at the client: whatever the
  client sends, or does not send, the backend is contacted. Not a byte goes to either side, though,
  before the client has shown the credentials, and the backend receives a prefix of what the client
  sent after its header block.
\<close>

theorem async_proxy_authenticates_before_relaying:
  assumes "resolve_auth (pc_auth config) auth_handle = Ok auth" "is_basic auth"
    and "f = forward_async_connection config auth_handle backend_override env"
    and "\<And>rs. prefix (concat (fst (snd (ae_copy env rs)))) (received rs)"
  shows "fw_contacted f = Some (chosen_backend config backend_override) \<and>
    (fw_to_backend f \<noteq> [] \<or> fw_to_client f \<noteq> [] \<longrightarrow>
      (\<exists>h. position_of blank_line (received (ae_reads env)) = Some (h - 4) \<and>
        credentials_shown auth (take h (received (ae_reads env))) \<and>
        prefix (concat (fw_to_backend f)) (drop h (received (ae_reads env)))))"
proof (intro conjI impI)
  let ?b = "chosen_backend config backend_override"
  note cases = async_forward_cases [OF assms(1), of backend_override env, folded assms(3)]
  then show "fw_contacted f = Some ?b" by blast
  assume moved: "fw_to_backend f \<noteq> [] \<or> fw_to_client f \<noteq> []"
  then have f: "f = relay_authenticated ?b auth env" using cases by blast
  obtain payload rs where ok: "authenticate_stream auth (ae_reads env) = Some (Ok payload, rs)"
    using relay_moves [of ?b auth env] moved f by blast
  obtain h where h: "position_of blank_line (received (ae_reads env)) = Some (h - 4)"
      "credentials_shown auth (take h (received (ae_reads env)))"
      "payload @ received rs = drop h (received (ae_reads env))"
    using async_auth_ok [OF ok assms(2)] by blast
  then show "\<exists>h. position_of blank_line (received (ae_reads env)) = Some (h - 4) \<and>
        credentials_shown auth (take h (received (ae_reads env))) \<and>
        prefix (concat (fw_to_backend f)) (drop h (received (ae_reads env)))"
    using relay_prefix [OF ok assms(4), of ?b] f by metis
qed

definition demo_async_env :: async_forward_env where
  "demo_async_env =
     \<lparr>ae_reads = [IoOk ''hello'', IoOk []], ae_connect = Some (IoOk ()), ae_acceptor = Ok (), ae_accept = IoOk (),
      ae_write_preloaded = IoOk (), ae_copy = (\<lambda>rs. (Some (IoOk ()), [received rs], []))\<rparr>"

theorem async_proxy_authenticates_before_relaying_witness:
  "fw_contacted (forward_async_connection (with_auth (Basic ''u'' ''p'') (proxy_config_new (demo_addr 1) (demo_addr 2)))
     None None demo_async_env) = Some (demo_addr 2)"
proof -
  let ?c = "with_auth (Basic ''u'' ''p'') (proxy_config_new (demo_addr 1) (demo_addr 2))"
  have "resolve_auth (pc_auth ?c) None = Ok (Basic ''u'' ''p'')" by (simp add: resolve_auth_def with_auth_def)
  moreover have "is_basic (Basic ''u'' ''p'')" by simp
  moreover have "prefix (concat (fst (snd (ae_copy demo_async_env rs)))) (received rs)" for rs
    by (simp add: demo_async_env_def)
  ultimately have "fw_contacted (forward_async_connection ?c None None demo_async_env) = Some (chosen_backend ?c None)"
    using async_proxy_authenticates_before_relaying by blast
  then show ?thesis by (simp add: chosen_backend_def with_auth_def proxy_config_new_def)
qed

end
