(* ===== verification/Proxy_Server.thy ===== *)
theory Proxy_Server
  imports Proxy_Forward Load_Balancer Metrics
begin

text \<open>
  The proxy servers (\<open>ProxyServer\<close> and \<open>AsyncProxyServer\<close> of src/src/proxy.rs): one turn of the
  accept loop, the end of a connection, and the whole server as a transition system in which
  connections come and go in any order. The pools that the configuration and the routing table refer
  to live in a store, the guards and the metrics are shared by all connections.
\<close>

record 'g proxy_state =
  ps_pools :: "pool_ref \<Rightarrow> backend_pool"
  ps_guards :: "'g guard_stack"
  ps_metrics :: "metrics_collector option"

record proxy_server =
  pxs_config :: proxy_config
  pxs_auth_handle :: "proxy_auth option"
  pxs_metrics :: "metrics_collector option"

definition proxy_server_new :: "proxy_config \<Rightarrow> proxy_server" where
  "proxy_server_new config = \<lparr>pxs_config = config, pxs_auth_handle = None, pxs_metrics = None\<rparr>"

definition server_with_auth_handle :: "proxy_auth \<Rightarrow> proxy_server \<Rightarrow> proxy_server" where
  "server_with_auth_handle h s = s\<lparr>pxs_auth_handle := Some h\<rparr>"

definition server_with_metrics :: "metrics_collector \<Rightarrow> proxy_server \<Rightarrow> proxy_server" where
  "server_with_metrics m s = s\<lparr>pxs_metrics := Some m\<rparr>"

definition server_auth_handle :: "proxy_server \<Rightarrow> proxy_auth option" where
  "server_auth_handle s = pxs_auth_handle s"

record async_proxy_server =
  aps_config :: proxy_config
  aps_auth_handle :: "proxy_auth option"
  aps_metrics :: "metrics_collector option"

definition async_proxy_server_new :: "proxy_config \<Rightarrow> async_proxy_server" where
  "async_proxy_server_new config = \<lparr>aps_config = config, aps_auth_handle = None, aps_metrics = None\<rparr>"

definition async_with_auth_handle :: "proxy_auth \<Rightarrow> async_proxy_server \<Rightarrow> async_proxy_server" where
  "async_with_auth_handle h s = s\<lparr>aps_auth_handle := Some h\<rparr>"

definition async_with_metrics :: "metrics_collector \<Rightarrow> async_proxy_server \<Rightarrow> async_proxy_server" where
  "async_with_metrics m s = s\<lparr>aps_metrics := Some m\<rparr>"

section \<open>Routing\<close>

datatype routed = RouteTo "socket_addr option" | NoBackendLeft | RouteRejected | RoutePanics

definition from_pool ::
    "pool_ref \<Rightarrow> socket_addr \<Rightarrow> (pool_ref \<Rightarrow> backend_pool) \<Rightarrow> routed \<times> (pool_ref \<Rightarrow> backend_pool)" where
  "from_pool r peer pools =
     (case select peer (pools r) of
        (Selected addr, p) \<Rightarrow> (RouteTo (Some addr), pools(r := p))
      | (NoBackend, p) \<Rightarrow> (NoBackendLeft, pools(r := p))
      | (SelectPanics, p) \<Rightarrow> (RoutePanics, pools(r := p)))"

definition route_peer ::
    "proxy_config \<Rightarrow> socket_addr \<Rightarrow> (pool_ref \<Rightarrow> backend_pool) \<Rightarrow> routed \<times> (pool_ref \<Rightarrow> backend_pool)" where
  "route_peer config peer pools =
     (case pc_routing config of
        Some table \<Rightarrow>
          (case resolve peer table of
             Forward addr \<Rightarrow> (RouteTo (Some addr), pools)
           | Pool r \<Rightarrow> from_pool r peer pools
           | Reject \<Rightarrow> (RouteRejected, pools))
      | None \<Rightarrow>
          (case pc_backend_pool config of
             Some r \<Rightarrow> from_pool r peer pools
           | None \<Rightarrow> (RouteTo None, pools)))"

section \<open>One turn of the accept loop\<close>

datatype admission = Skipped | Serving guard_session "socket_addr option" | ServerPanics

definition count_failure :: "string \<Rightarrow> socket_addr \<Rightarrow> 'g proxy_state \<Rightarrow> 'g proxy_state" where
  "count_failure label peer st =
     st\<lparr>ps_metrics := map_option (record_failure (Some label) (sa_ip peer)) (ps_metrics st)\<rparr>"

definition count_connection :: "string \<Rightarrow> socket_addr \<Rightarrow> 'g proxy_state \<Rightarrow> 'g proxy_state" where
  "count_connection label peer st =
     st\<lparr>ps_metrics := map_option (record_tcp_connection (Some label) (sa_ip peer)) (ps_metrics st)\<rparr>"

text \<open>
  Reservation and establishment. \<open>clk\<close>, \<open>clk1\<close> and \<open>clk2\<close> are the clocks of the reservation, the
  establishment and the close; a session that is not handed on is dropped.
\<close>

definition admit ::
    "'g guard_ops \<Rightarrow> string \<Rightarrow> (nat \<Rightarrow> instant) \<Rightarrow> (nat \<Rightarrow> instant) \<Rightarrow> (nat \<Rightarrow> instant) \<Rightarrow>
     guard_context \<Rightarrow> socket_addr option \<Rightarrow> 'g proxy_state \<Rightarrow> admission \<times> 'g proxy_state" where
  "admit ops label clk clk1 clk2 ctx override st =
     (case gs_reserve ops clk ctx (ps_guards st) of
        (Panic msg, gs) \<Rightarrow> (ServerPanics, st\<lparr>ps_guards := gs\<rparr>)
      | (Err e, gs) \<Rightarrow> (Skipped, count_failure label (gc_peer_addr ctx) (st\<lparr>ps_guards := gs\<rparr>))
      | (Ok ss, gs) \<Rightarrow>
          (case mark_established ops clk1 ss gs of
             (Panic msg, ss, gs) \<Rightarrow> (ServerPanics, st\<lparr>ps_guards := drop_session ops clk2 ss gs\<rparr>)
           | (Err e, ss, gs) \<Rightarrow>
               (let st = count_failure label (gc_peer_addr ctx) st;
                    (ss, gs) = close_session ops clk2 ss gs
                in (Skipped, st\<lparr>ps_guards := drop_session ops clk2 ss gs\<rparr>))
           | (Ok _, ss, gs) \<Rightarrow>
               (Serving ss override, count_connection label (gc_peer_addr ctx) (st\<lparr>ps_guards := gs\<rparr>))))"

text \<open>A connection that could not be accepted, or whose peer is unknown, is skipped: \<open>None\<close>.\<close>

record accepted =
  ac_peer :: socket_addr
  ac_local :: "socket_addr option"
  ac_now :: instant
  ac_clk :: "nat \<Rightarrow> instant"
  ac_clk1 :: "nat \<Rightarrow> instant"
  ac_clk2 :: "nat \<Rightarrow> instant"

definition sync_accept ::
    "'g guard_ops \<Rightarrow> proxy_config \<Rightarrow> accepted option \<Rightarrow> 'g proxy_state \<Rightarrow> admission \<times> 'g proxy_state" where
  "sync_accept ops config incoming st =
     (case incoming of
        None \<Rightarrow> (Skipped, st)
      | Some a \<Rightarrow>
          (let (routed, pools) = route_peer config (ac_peer a) (ps_pools st); st = st\<lparr>ps_pools := pools\<rparr> in
           case routed of
             RoutePanics \<Rightarrow> (ServerPanics, st)
           | NoBackendLeft \<Rightarrow> (Skipped, st)
           | RouteRejected \<Rightarrow> (Skipped, count_failure ''proxy'' (ac_peer a) st)
           | RouteTo backend_override \<Rightarrow>
               (let context = guard_context_new (ac_now a) (ac_peer a) (ac_local a) False in
                admit ops ''proxy'' (ac_clk a) (ac_clk1 a) (ac_clk2 a) context backend_override st)))"

definition offloads_tls :: "proxy_config \<Rightarrow> bool" where
  "offloads_tls config = (case pc_tls_offload config of None \<Rightarrow> False | Some tls \<Rightarrow> tls_enabled tls)"

definition async_accept ::
    "'g guard_ops \<Rightarrow> proxy_config \<Rightarrow> accepted option \<Rightarrow> 'g proxy_state \<Rightarrow> admission \<times> 'g proxy_state" where
  "async_accept ops config incoming st =
     (case incoming of
        None \<Rightarrow> (Skipped, st)
      | Some a \<Rightarrow>
          (let context = guard_context_new (ac_now a) (ac_peer a) (ac_local a) (offloads_tls config);
               (routed, pools) = route_peer config (ac_peer a) (ps_pools st); st = st\<lparr>ps_pools := pools\<rparr> in
           case routed of
             RoutePanics \<Rightarrow> (ServerPanics, st)
           | NoBackendLeft \<Rightarrow> (Skipped, st)
           | RouteRejected \<Rightarrow> (Skipped, count_failure ''async-proxy'' (ac_peer a) st)
           | RouteTo backend_override \<Rightarrow>
               admit ops ''async-proxy'' (ac_clk a) (ac_clk1 a) (ac_clk2 a) context backend_override st))"

text \<open>
  The end of a connection: whatever forwarding returned, and in the asynchronous server also after
  the connection's time-out, the close is counted and the session closed, then dropped.
\<close>

definition finish_connection ::
    "'g guard_ops \<Rightarrow> string \<Rightarrow> (nat \<Rightarrow> instant) \<Rightarrow> socket_addr \<Rightarrow> guard_session \<Rightarrow> 'g proxy_state \<Rightarrow>
     'g proxy_state" where
  "finish_connection ops label clk peer ss st =
     (let st = st\<lparr>ps_metrics := map_option (record_connection_close (Some label) (sa_ip peer)) (ps_metrics st)\<rparr>;
          (ss, gs) = close_session ops clk ss (ps_guards st)
      in st\<lparr>ps_guards := drop_session ops clk ss gs\<rparr>)"

text \<open>
  The thread and the task of a connection, once forwarding has returned or, in the asynchronous server,
  run into the connection's time-out (\<open>None\<close>): what they log, and the end of the connection. A panic
  unwinds past the metrics and drops the session.
\<close>

datatype task_log = Silent | ForwardingError syn_error | ConnectionTimedOut

definition sync_proxy_task ::
    "'g guard_ops \<Rightarrow> (nat \<Rightarrow> instant) \<Rightarrow> socket_addr \<Rightarrow> guard_session \<Rightarrow> unit outcome \<Rightarrow> 'g proxy_state \<Rightarrow>
     task_log \<times> 'g proxy_state" where
  "sync_proxy_task ops clk peer ss result st =
     (case result of
        Panic msg \<Rightarrow> (Silent, st\<lparr>ps_guards := drop_session ops clk ss (ps_guards st)\<rparr>)
      | Err error \<Rightarrow> (ForwardingError error, finish_connection ops ''proxy'' clk peer ss st)
      | Ok _ \<Rightarrow> (Silent, finish_connection ops ''proxy'' clk peer ss st))"

definition async_proxy_task ::
    "'g guard_ops \<Rightarrow> (nat \<Rightarrow> instant) \<Rightarrow> socket_addr \<Rightarrow> guard_session \<Rightarrow> unit outcome option \<Rightarrow> 'g proxy_state \<Rightarrow>
     task_log \<times> 'g proxy_state" where
  "async_proxy_task ops clk peer ss result st =
     (case result of
        Some (Panic msg) \<Rightarrow> (Silent, st\<lparr>ps_guards := drop_session ops clk ss (ps_guards st)\<rparr>)
      | Some (Err error) \<Rightarrow> (ForwardingError error, finish_connection ops ''async-proxy'' clk peer ss st)
      | None \<Rightarrow> (ConnectionTimedOut, finish_connection ops ''async-proxy'' clk peer ss st)
      | Some (Ok _) \<Rightarrow> (Silent, finish_connection ops ''async-proxy'' clk peer ss st))"

text \<open>What \<open>run\<close> does before its loop; binding is the operating system's.\<close>

definition sync_run_start :: "proxy_server \<Rightarrow> unit io \<Rightarrow> instant \<Rightarrow> (std_guard guard_stack \<times> tcp_proxy) outcome" where
  "sync_run_start s bound now =
     (if offloads_tls (pxs_config s) then
        Err (UnsupportedFeature ''sync proxy TLS offload is not implemented yet'')
      else
        case bound of
          IoErr msg \<Rightarrow> Err (Io msg)
        | IoOk _ \<Rightarrow>
            (let guards = build_guard_stack now (pc_guards (pxs_config s));
                 proxy = tcp_proxy_new (pxs_config s) in
             Ok (guards, case pxs_auth_handle s of Some handle \<Rightarrow> with_auth_handle handle proxy | None \<Rightarrow> proxy)))"

definition async_run_start :: "async_proxy_server \<Rightarrow> unit io \<Rightarrow> instant \<Rightarrow> std_guard guard_stack outcome" where
  "async_run_start s bound now =
     (case bound of
        IoErr msg \<Rightarrow> Err (Io msg)
      | IoOk _ \<Rightarrow> Ok (build_guard_stack now (pc_guards (aps_config s))))"

section \<open>Lemmas\<close>

text \<open>Closing a session and then dropping it is dropping it.\<close>

lemma close_then_drop:
  "close_session ops clk ss gs = (ss', gs') \<Longrightarrow> drop_session ops clk ss' gs' = drop_session ops clk ss gs"
  by (auto simp: drop_session_def close_session_def Let_def split: prod.splits if_splits)

lemma finish_guards:
  "ps_guards (finish_connection ops label clk peer ss st) = drop_session ops clk ss (ps_guards st)"
  by (simp add: finish_connection_def close_then_drop split: prod.split)

lemma finish_frame [simp]:
  "ps_pools (finish_connection ops label clk peer ss st) = ps_pools st"
  "ps_metrics (finish_connection ops label clk peer ss st) =
     map_option (record_connection_close (Some label) (sa_ip peer)) (ps_metrics st)"
  by (simp_all add: finish_connection_def split: prod.split)

text \<open>Whatever forwarding does, the thread and the task end the connection in the same way.\<close>

lemma proxy_task_finishes:
  "fw_outcome (forward_to p override env) = Some r \<Longrightarrow>
   snd (sync_proxy_task ops clk peer ss r st) = finish_connection ops ''proxy'' clk peer ss st"
  using forward_never_panics [of p override env] by (cases r) (simp_all add: sync_proxy_task_def)

lemma async_proxy_task_finishes:
  assumes "\<And>m. ae_acceptor env \<noteq> Panic m"
    and "r = None \<or> r = fw_outcome (forward_async_connection config handle override env)"
  shows "snd (async_proxy_task ops clk peer ss r st) = finish_connection ops ''async-proxy'' clk peer ss st"
proof -
  have "r \<noteq> Some (Panic m)" for m
    using async_forward_never_panics [OF assms(1), of config handle override m] assms(2) by auto
  then show ?thesis by (simp add: async_proxy_task_def split: option.split outcome.split)
qed

lemma count_simps [simp]:
  "ps_guards (count_failure label peer st) = ps_guards st" "ps_pools (count_failure label peer st) = ps_pools st"
  "ps_guards (count_connection label peer st) = ps_guards st" "ps_pools (count_connection label peer st) = ps_pools st"
  "ps_metrics (count_failure label peer st) = map_option (record_failure (Some label) (sa_ip peer)) (ps_metrics st)"
  "ps_metrics (count_connection label peer st) =
     map_option (record_tcp_connection (Some label) (sa_ip peer)) (ps_metrics st)"
  by (simp_all add: count_failure_def count_connection_def)

lemma admit_frame:
  assumes "admit ops label clk clk1 clk2 ctx override st = (adm, st')"
  shows "ps_pools st' = ps_pools st \<and>
    (case adm of
       Serving ss backend \<Rightarrow> backend = override \<and>
         ps_metrics st' = map_option (record_tcp_connection (Some label) (sa_ip (gc_peer_addr ctx))) (ps_metrics st)
     | Skipped \<Rightarrow>
         ps_metrics st' = map_option (record_failure (Some label) (sa_ip (gc_peer_addr ctx))) (ps_metrics st)
     | ServerPanics \<Rightarrow> ps_metrics st' = ps_metrics st)"
  using assms by (auto simp: admit_def Let_def split: prod.splits outcome.splits)

lemma std_established_returns: "fst (std_on_established t ctx g) = Ok ()"
  by (cases g) (simp_all add: std_hooks)

lemma visit_guards_ok:
  assumes "\<And>i g. fst (call i g) = Ok ()"
  shows "fst (visit_guards call event obs i gs events) = Ok ()"
proof (induction gs arbitrary: i events)
  case (Cons g gs)
  obtain g' where "call i g = (Ok (), g')" using assms [of i g] by (metis prod.collapse)
  then show ?case using Cons by (simp add: split_beta)
qed simp

lemma std_mark_established_ok: "fst (mark_established std_ops clk ss gs) = Ok ()"
proof -
  have "fst (visit_guards (\<lambda>i g. on_established std_ops (clk (2 * i)) (ss_context ss) g) event obs i gs events) = Ok ()"
    for event obs i gs events
    by (rule visit_guards_ok) (simp add: std_established_returns)
  then show ?thesis by (simp add: mark_established_def visit_stack_def split_beta)
qed

lemma std_admit:
  assumes "context_ok ctx" "all_ready ctx (ps_guards st)"
    and "admit std_ops label clk clk1 clk2 ctx override st = (adm, st')"
  shows "adm \<noteq> ServerPanics \<and>
    (adm = Skipped \<longrightarrow> map (std_usage ctx) (gs_guards (ps_guards st')) = map (std_usage ctx) (gs_guards (ps_guards st))) \<and>
    (\<forall>ss ov. adm = Serving ss ov \<longrightarrow>
      map (std_usage ctx) (gs_guards (ps_guards (finish_connection std_ops label' clk3 peer ss st'))) =
      map (std_usage ctx) (gs_guards (ps_guards st)))"
proof -
  obtain r gs where r: "gs_reserve std_ops clk ctx (ps_guards st) = (r, gs)" by fastforce
  note res = std.gs_reserve_refused [OF assms(1) assms(2) [unfolded all_ready_def] r]
  show ?thesis
  proof (cases r)
    case (Ok ss)
    obtain ss2 gs2 where m: "mark_established std_ops clk1 ss gs = (Ok (), ss2, gs2)"
      using std_mark_established_ok [of clk1 ss gs] by (metis prod.collapse)
    have "fold (session_step std_ops) [MarkEstablished clk1] (ss, gs) = (ss2, gs2)" using m by simp
    from session_gives_everything_back_aux [OF assms(1,2) r [unfolded Ok] this, of clk3] show ?thesis
      using assms(3) r Ok m by (auto simp: admit_def finish_guards)
  next
    case (Err e)
    then show ?thesis using assms(3) r res by (auto simp: admit_def)
  next
    case (Panic msg)
    then show ?thesis using res by simp
  qed
qed

text \<open>The pools stay well formed, so that selection never panics.\<close>

definition pools_ok :: "(pool_ref \<Rightarrow> backend_pool) \<Rightarrow> bool" where
  "pools_ok pools \<longleftrightarrow> (\<forall>r. pool_ok (pools r))"

lemma from_pool_ok:
  assumes "pools_ok pools"
  shows "pools_ok (snd (from_pool r peer pools)) \<and>
    (fst (from_pool r peer pools) = NoBackendLeft \<and> bp_backends (pools r) = [] \<or>
     (\<exists>a \<in> set (pool_backends (pools r)). fst (from_pool r peer pools) = RouteTo (Some a)))"
proof -
  obtain s p where sp: "select peer (pools r) = (s, p)" by fastforce
  have "pool_ok p" using select_ok [of "pools r" peer] assms sp by (simp add: pools_ok_def)
  then have "pools_ok (pools(r := p))" using assms by (simp add: pools_ok_def)
  moreover have "s = NoBackend \<and> bp_backends (pools r) = [] \<or> (\<exists>a \<in> set (pool_backends (pools r)). s = Selected a)"
    using select_member [of "pools r" peer] assms sp
    by (cases "bp_backends (pools r) = []") (auto simp: pools_ok_def select_def)
  ultimately show ?thesis using sp by (auto simp: from_pool_def)
qed

text \<open>Where a connection of \<open>peer\<close> may go.\<close>

definition may_go :: "proxy_config \<Rightarrow> (pool_ref \<Rightarrow> backend_pool) \<Rightarrow> socket_addr \<Rightarrow> socket_addr option \<Rightarrow> bool" where
  "may_go config pools peer backend \<longleftrightarrow>
     (case pc_routing config of
        Some table \<Rightarrow>
          (case resolve peer table of
             Forward addr \<Rightarrow> backend = Some addr
           | Pool r \<Rightarrow> (\<exists>a \<in> set (pool_backends (pools r)). backend = Some a)
           | Reject \<Rightarrow> False)
      | None \<Rightarrow>
          (case pc_backend_pool config of
             Some r \<Rightarrow> (\<exists>a \<in> set (pool_backends (pools r)). backend = Some a)
           | None \<Rightarrow> backend = None))"

lemma route_peer_ok:
  assumes "pools_ok pools"
  shows "pools_ok (snd (route_peer config peer pools)) \<and> fst (route_peer config peer pools) \<noteq> RoutePanics \<and>
    (\<forall>b. fst (route_peer config peer pools) = RouteTo b \<longrightarrow> may_go config pools peer b)"
  using from_pool_ok [OF assms, of _ peer] assms
  by (auto simp: route_peer_def may_go_def split: option.splits route_action.splits)
    (metis routed.distinct routed.inject)+

text \<open>The pool a connection of \<open>peer\<close> is routed to, and whether routing turns it away.\<close>

definition routed_pool :: "proxy_config \<Rightarrow> socket_addr \<Rightarrow> pool_ref option" where
  "routed_pool config peer =
     (case pc_routing config of
        Some table \<Rightarrow> (case resolve peer table of Pool r \<Rightarrow> Some r | _ \<Rightarrow> None)
      | None \<Rightarrow> pc_backend_pool config)"

definition rejects :: "proxy_config \<Rightarrow> socket_addr \<Rightarrow> bool" where
  "rejects config peer = (case pc_routing config of Some table \<Rightarrow> resolve peer table = Reject | None \<Rightarrow> False)"

lemma route_peer_rejects: "rejects config peer \<Longrightarrow> route_peer config peer pools = (RouteRejected, pools)"
  by (simp add: rejects_def route_peer_def split: option.splits)

lemma route_peer_empty:
  "routed_pool config peer = Some r \<Longrightarrow> bp_backends (pools r) = [] \<Longrightarrow>
   route_peer config peer pools = (NoBackendLeft, pools)"
  by (auto simp: routed_pool_def route_peer_def from_pool_def select_def split: option.splits route_action.splits)

lemma route_peer_goes:
  assumes "pools_ok pools" "\<not> rejects config peer"
    and "\<forall>r. routed_pool config peer = Some r \<longrightarrow> bp_backends (pools r) \<noteq> []"
  shows "\<exists>b pools'. route_peer config peer pools = (RouteTo b, pools') \<and> may_go config pools peer b"
proof -
  have "\<exists>a \<in> set (pool_backends (pools r)). \<exists>pools'. from_pool r peer pools = (RouteTo (Some a), pools')"
    if ne: "bp_backends (pools r) \<noteq> []" for r
  proof -
    have "pool_ok (pools r)" using assms(1) by (simp add: pools_ok_def)
    then obtain a where "a \<in> set (pool_backends (pools r))" "fst (select peer (pools r)) = Selected a"
      using select_member ne by blast
    then show ?thesis by (auto simp: from_pool_def split_beta)
  qed
  then show ?thesis using assms(2,3)
    by (fastforce simp: rejects_def routed_pool_def route_peer_def may_go_def split: option.splits route_action.splits)
qed

section \<open>Either server\<close>

definition proxy_label :: "bool \<Rightarrow> string" where
  "proxy_label is_async = (if is_async then ''async-proxy'' else ''proxy'')"

definition proxy_accept ::
    "bool \<Rightarrow> 'g guard_ops \<Rightarrow> proxy_config \<Rightarrow> accepted option \<Rightarrow> 'g proxy_state \<Rightarrow> admission \<times> 'g proxy_state" where
  "proxy_accept is_async = (if is_async then async_accept else sync_accept)"

definition accept_context :: "bool \<Rightarrow> proxy_config \<Rightarrow> accepted \<Rightarrow> guard_context" where
  "accept_context is_async config a =
     guard_context_new (ac_now a) (ac_peer a) (ac_local a) (is_async \<and> offloads_tls config)"

lemma accept_context_simps [simp]:
  "gc_peer_addr (accept_context is_async config a) = ac_peer a" "context_ok (accept_context is_async config a)"
  by (simp_all add: accept_context_def)

lemma proxy_accept_some:
  "proxy_accept is_async ops config (Some a) st =
     (let (routed, pools) = route_peer config (ac_peer a) (ps_pools st); st = st\<lparr>ps_pools := pools\<rparr> in
      case routed of
        RoutePanics \<Rightarrow> (ServerPanics, st)
      | NoBackendLeft \<Rightarrow> (Skipped, st)
      | RouteRejected \<Rightarrow> (Skipped, count_failure (proxy_label is_async) (ac_peer a) st)
      | RouteTo backend \<Rightarrow>
          admit ops (proxy_label is_async) (ac_clk a) (ac_clk1 a) (ac_clk2 a)
            (accept_context is_async config a) backend st)"
  by (simp add: proxy_accept_def proxy_label_def async_accept_def sync_accept_def accept_context_def
      Let_def split: prod.split routed.split)

lemma proxy_accept_none [simp]: "proxy_accept is_async ops config None st = (Skipped, st)"
  by (simp add: proxy_accept_def async_accept_def sync_accept_def)

lemma proxy_accept_frame:
  assumes "pools_ok (ps_pools st)" "proxy_accept is_async ops config (Some a) st = (adm, st')"
  shows "pools_ok (ps_pools st') \<and>
    (case adm of
       Serving ss backend \<Rightarrow> may_go config (ps_pools st) (ac_peer a) backend \<and>
         ps_metrics st' = map_option (record_tcp_connection (Some (proxy_label is_async)) (sa_ip (ac_peer a))) (ps_metrics st)
     | _ \<Rightarrow> ps_metrics st' = ps_metrics st \<or>
         ps_metrics st' = map_option (record_failure (Some (proxy_label is_async)) (sa_ip (ac_peer a))) (ps_metrics st))"
proof -
  obtain routed pools where r: "route_peer config (ac_peer a) (ps_pools st) = (routed, pools)" by fastforce
  note ok = route_peer_ok [OF assms(1), of config "ac_peer a", unfolded r fst_conv snd_conv]
  show ?thesis
  proof (cases routed)
    case (RouteTo backend)
    then have "admit ops (proxy_label is_async) (ac_clk a) (ac_clk1 a) (ac_clk2 a)
        (accept_context is_async config a) backend (st\<lparr>ps_pools := pools\<rparr>) = (adm, st')"
      using assms(2) r by (simp add: proxy_accept_some)
    from admit_frame [OF this] show ?thesis using ok RouteTo by (auto split: admission.splits)
  qed (use assms(2) r ok in \<open>auto simp: proxy_accept_some\<close>)
qed

section \<open>The server as a transition system\<close>

text \<open>
  The states a server can reach: connections are accepted and end in any order, and meanwhile the
  application changes the routing table and the pools. \<open>L\<close> holds the connections being served.
\<close>

inductive proxy_runs ::
    "'g guard_ops \<Rightarrow> bool \<Rightarrow> sorter \<Rightarrow> 'g proxy_state \<Rightarrow> (socket_addr \<times> guard_session) multiset \<Rightarrow> bool"
  for ops :: "'g guard_ops" and is_async :: bool and srt :: sorter where
  start: "pools_ok (ps_pools st) \<Longrightarrow> ps_metrics st = Some metrics_new \<Longrightarrow> proxy_runs ops is_async srt st {#}"
| skipped: "proxy_runs ops is_async srt st L \<Longrightarrow> proxy_accept is_async ops config incoming st = (Skipped, st') \<Longrightarrow>
    proxy_runs ops is_async srt st' L"
| served: "proxy_runs ops is_async srt st L \<Longrightarrow>
    proxy_accept is_async ops config (Some a) st = (Serving ss backend, st') \<Longrightarrow> size L + 1 < 2 ^ 64 \<Longrightarrow>
    proxy_runs ops is_async srt st' (add_mset (ac_peer a, ss) L)"
| finished: "proxy_runs ops is_async srt st L \<Longrightarrow> (peer, ss) \<in># L \<Longrightarrow>
    proxy_runs ops is_async srt (finish_connection ops (proxy_label is_async) clk peer ss st) (L - {#(peer, ss)#})"
| pool_changed: "proxy_runs ops is_async srt st L \<Longrightarrow>
    proxy_runs ops is_async srt (st\<lparr>ps_pools := (ps_pools st)(r := pool_step srt op (ps_pools st r))\<rparr>) L"

definition live_entries :: "bool \<Rightarrow> (socket_addr \<times> guard_session) multiset \<Rightarrow> (string option \<times> ip_addr) multiset" where
  "live_entries is_async L = image_mset (\<lambda>(peer, ss). (Some (proxy_label is_async), sa_ip peer)) L"

lemma proxy_runs_inv:
  assumes "proxy_runs ops is_async srt st L" "ring_sorter srt"
  shows "pools_ok (ps_pools st) \<and> (\<exists>m. ps_metrics st = Some m \<and> mc_history m (live_entries is_async L))"
  using assms(1)
proof (induction rule: proxy_runs.induct)
  case (start st)
  then show ?case using mc_history.start by (simp add: live_entries_def)
next
  case (skipped st L config incoming st')
  obtain m where m: "ps_metrics st = Some m" "mc_history m (live_entries is_async L)" using skipped by blast
  have failed: "mc_history (record_failure server ip m) (live_entries is_async L)" for server ip
    using mc_history.other [OF m(2), of "RecordFailure server ip"] by simp
  show ?case
  proof (cases incoming)
    case None
    then show ?thesis using skipped m by simp
  next
    case (Some a)
    note f = proxy_accept_frame [OF _ skipped.hyps(2) [unfolded Some], simplified]
    then have "ps_metrics st' = Some m \<or>
        ps_metrics st' = Some (record_failure (Some (proxy_label is_async)) (sa_ip (ac_peer a)) m)"
      using skipped.IH m(1) by simp
    then show ?thesis using f skipped.IH m(2) failed by blast
  qed
next
  case (served st L config a ss backend st')
  obtain m where m: "ps_metrics st = Some m" "mc_history m (live_entries is_async L)" using served by blast
  have "size (live_entries is_async L) + 1 < 2 ^ 64" using served.hyps(3) by (simp add: live_entries_def)
  from mc_history.opened [OF m(2) _ this, of "RecordTcp (Some (proxy_label is_async)) (sa_ip (ac_peer a))"]
  have "mc_history (record_tcp_connection (Some (proxy_label is_async)) (sa_ip (ac_peer a)) m)
      (live_entries is_async (add_mset (ac_peer a, ss) L))"
    by (simp add: live_entries_def)
  then show ?case using m proxy_accept_frame [OF _ served.hyps(2)] served.IH by simp
next
  case (finished st L peer ss clk)
  obtain m where m: "ps_metrics st = Some m" "mc_history m (live_entries is_async L)" using finished by blast
  have "(Some (proxy_label is_async), sa_ip peer) \<in># live_entries is_async L"
    using finished.hyps(2) by (force simp: live_entries_def)
  from mc_history.closed [OF m(2) this]
  have "mc_history (record_connection_close (Some (proxy_label is_async)) (sa_ip peer) m)
      (live_entries is_async (L - {#(peer, ss)#}))"
    using finished.hyps(2) by (simp add: live_entries_def image_mset_Diff)
  then show ?case using finished.IH m by simp
next
  case (pool_changed st L r op)
  then show ?case using pool_steps_ok [OF assms(2), of "ps_pools st r" "[op]"] by (auto simp: pools_ok_def)
qed

section \<open>Properties\<close>

text \<open>
  C8. A proxied connection leaves no trace in the guards: after one turn of the accept loop of either
  server, from any state in which the guards are well formed and know nothing of the connection, the
  server is still running, and if the connection was turned away, by the routing, by an empty pool or
  by a guard, every guard counts for it what it counted before; if it was served, that holds after the
  connection has ended, however forwarding went.
\<close>

theorem proxy_connection_leaves_no_trace:
  assumes "pools_ok (ps_pools st)" "all_ready (accept_context is_async config a) (ps_guards st)"
    and "proxy_accept is_async std_ops config (Some a) st = (adm, st')"
  shows "(case adm of
      ServerPanics \<Rightarrow> False
    | Skipped \<Rightarrow> map (std_usage (accept_context is_async config a)) (gs_guards (ps_guards st')) =
        map (std_usage (accept_context is_async config a)) (gs_guards (ps_guards st))
    | Serving ss backend \<Rightarrow>
        map (std_usage (accept_context is_async config a))
          (gs_guards (ps_guards (finish_connection std_ops (proxy_label is_async) clk (ac_peer a) ss st'))) =
        map (std_usage (accept_context is_async config a)) (gs_guards (ps_guards st)))"
proof -
  obtain routed pools where r: "route_peer config (ac_peer a) (ps_pools st) = (routed, pools)" by fastforce
  note ok = route_peer_ok [OF assms(1), of config "ac_peer a", unfolded r fst_conv snd_conv]
  show ?thesis
  proof (cases routed)
    case (RouteTo backend)
    then have "admit std_ops (proxy_label is_async) (ac_clk a) (ac_clk1 a) (ac_clk2 a)
        (accept_context is_async config a) backend (st\<lparr>ps_pools := pools\<rparr>) = (adm, st')"
      using assms(3) r by (simp add: proxy_accept_some)
    from std_admit [OF _ _ this, of "proxy_label is_async" clk "ac_peer a"] show ?thesis
      using assms(2) by (auto split: admission.splits)
  qed (use assms(3) r ok in \<open>auto simp: proxy_accept_some\<close>)
qed

definition demo_accepted :: accepted where
  "demo_accepted =
     \<lparr>ac_peer = gc_peer_addr (demo_ctx 1), ac_local = None, ac_now = 0, ac_clk = id, ac_clk1 = id, ac_clk2 = id\<rparr>"

definition demo_pools :: "pool_ref \<Rightarrow> backend_pool" where
  "demo_pools = (\<lambda>r. round_robin [backend_new (demo_addr 8), backend_new (demo_addr 9)])"

definition demo_pool_config :: proxy_config where
  "demo_pool_config = with_backend_pool 0 (proxy_config_new (demo_addr 1) (demo_addr 2))"

lemma demo_pools_ok: "pools_ok demo_pools"
  by (simp add: pools_ok_def demo_pools_def round_robin_ok)

theorem proxy_connection_leaves_no_trace_witness:
  "\<exists>adm st'. proxy_accept False std_ops demo_pool_config (Some demo_accepted)
       \<lparr>ps_pools = demo_pools, ps_guards = open_stack, ps_metrics = None\<rparr> = (adm, st') \<and> adm \<noteq> ServerPanics"
proof -
  let ?st = "\<lparr>ps_pools = demo_pools, ps_guards = open_stack, ps_metrics = None\<rparr>"
  obtain adm st' where a: "proxy_accept False std_ops demo_pool_config (Some demo_accepted) ?st = (adm, st')"
    by fastforce
  have "pools_ok (ps_pools ?st)" using demo_pools_ok by simp
  moreover have "all_ready (accept_context False demo_pool_config demo_accepted) (ps_guards ?st)"
    by (simp add: open_stack_def)
  ultimately show ?thesis
    using proxy_connection_leaves_no_trace [OF _ _ a] a by (cases adm) auto
qed

text \<open>
  C23. In every state either proxy server can reach, with connections coming, going and being turned
  away in any order and pools changing meanwhile, the metrics are exact: the active counter and the
  per-address counters are those of the connections being served, and no turn of the loop makes
  routing panic.
\<close>

theorem proxy_metrics_exact:
  assumes "proxy_runs ops is_async srt st L" "ring_sorter srt"
  shows "\<exists>m. ps_metrics st = Some m \<and> unat (mc_active m) = size L \<and>
    (\<forall>ip. unat (at_key pim_active ip (mc_per_ip m)) = size (filter_mset (\<lambda>(peer, ss). sa_ip peer = ip) L)) \<and>
    (\<forall>config peer. fst (route_peer config peer (ps_pools st)) \<noteq> RoutePanics)"
proof -
  obtain m where m: "pools_ok (ps_pools st)" "ps_metrics st = Some m" "mc_history m (live_entries is_async L)"
    using proxy_runs_inv [OF assms] by blast
  have "active_of_ip (live_entries is_async L) ip = size (filter_mset (\<lambda>(peer, ss). sa_ip peer = ip) L)" for ip
    by (simp add: active_of_ip_def live_entries_def filter_mset_image_mset case_prod_unfold comp_def)
  then show ?thesis
    using m mc_history_rel [OF m(3)] route_peer_ok [OF m(1)]
    by (intro exI [of _ m]) (simp add: mc_rel_def live_entries_def)
qed

theorem proxy_metrics_exact_witness:
  "\<exists>m. ps_metrics (snd (proxy_accept True std_ops (with_routing (table_new Reject) demo_pool_config) (Some demo_accepted)
        \<lparr>ps_pools = demo_pools, ps_guards = open_stack, ps_metrics = Some metrics_new\<rparr>)) = Some m \<and>
     unat (mc_active m) = 0"
proof -
  let ?st = "\<lparr>ps_pools = demo_pools, ps_guards = open_stack, ps_metrics = Some metrics_new\<rparr>"
  let ?c = "with_routing (table_new Reject) demo_pool_config"
  obtain st' where a: "proxy_accept True std_ops ?c (Some demo_accepted) ?st = (Skipped, st')"
    by (simp add: proxy_accept_some route_peer_def with_routing_def resolve_def table_new_def)
  have "proxy_runs std_ops True (sort_key rn_hash) ?st {#}"
    using demo_pools_ok by (intro proxy_runs.start) simp_all
  from proxy_runs.skipped [OF this a] have "proxy_runs std_ops True (sort_key rn_hash) st' {#}" .
  from proxy_metrics_exact [OF this stable.ring_sorter_axioms] show ?thesis using a by auto
qed

text \<open>
  C35. Routing decides where a connection goes, and what is counted. In a state with well-formed pools,
  for either server: a connection that is served goes to the address the first matching rule forwards
  to, to a backend of the pool it names, or, without a routing table, to a backend of the configured
  pool or the configured backend. One that a rule or the table's default rejects is never served, no
  guard is called for it, and exactly one failure is counted. One that meets an empty pool, be the pool
  named by a rule, by the table's default or by the configuration, is dropped and changes nothing: no
  guard is called and nothing is counted. In every other case the guards are asked, with a backend
  that routing allows.
\<close>

theorem proxy_routes_as_configured:
  assumes "pools_ok (ps_pools st)"
  shows "(proxy_accept is_async ops config (Some a) st = (Serving ss backend, st') \<longrightarrow>
      may_go config (ps_pools st) (ac_peer a) backend) \<and>
    (rejects config (ac_peer a) \<longrightarrow>
      proxy_accept is_async ops config (Some a) st =
        (Skipped, count_failure (proxy_label is_async) (ac_peer a) st)) \<and>
    (routed_pool config (ac_peer a) = Some r \<and> bp_backends (ps_pools st r) = [] \<longrightarrow>
      proxy_accept is_async ops config (Some a) st = (Skipped, st)) \<and>
    (\<not> rejects config (ac_peer a) \<and>
       (\<forall>q. routed_pool config (ac_peer a) = Some q \<longrightarrow> bp_backends (ps_pools st q) \<noteq> []) \<longrightarrow>
      (\<exists>b pools. may_go config (ps_pools st) (ac_peer a) b \<and>
        proxy_accept is_async ops config (Some a) st =
          admit ops (proxy_label is_async) (ac_clk a) (ac_clk1 a) (ac_clk2 a)
            (accept_context is_async config a) b (st\<lparr>ps_pools := pools\<rparr>)))"
proof (intro conjI impI)
  show "may_go config (ps_pools st) (ac_peer a) backend"
    if "proxy_accept is_async ops config (Some a) st = (Serving ss backend, st')"
    using proxy_accept_frame [OF assms that] by simp
next
  assume "rejects config (ac_peer a)"
  then show "proxy_accept is_async ops config (Some a) st = (Skipped, count_failure (proxy_label is_async) (ac_peer a) st)"
    by (simp add: proxy_accept_some route_peer_rejects)
next
  assume "routed_pool config (ac_peer a) = Some r \<and> bp_backends (ps_pools st r) = []"
  then show "proxy_accept is_async ops config (Some a) st = (Skipped, st)"
    by (simp add: proxy_accept_some route_peer_empty)
next
  assume "\<not> rejects config (ac_peer a) \<and>
    (\<forall>q. routed_pool config (ac_peer a) = Some q \<longrightarrow> bp_backends (ps_pools st q) \<noteq> [])"
  then obtain b pools where "route_peer config (ac_peer a) (ps_pools st) = (RouteTo b, pools)"
      "may_go config (ps_pools st) (ac_peer a) b"
    using route_peer_goes [OF assms] by blast
  then show "\<exists>b pools. may_go config (ps_pools st) (ac_peer a) b \<and>
        proxy_accept is_async ops config (Some a) st =
          admit ops (proxy_label is_async) (ac_clk a) (ac_clk1 a) (ac_clk2 a)
            (accept_context is_async config a) b (st\<lparr>ps_pools := pools\<rparr>)"
    by (auto simp: proxy_accept_some)
qed

theorem proxy_routes_as_configured_witness:
  "fst (proxy_accept False std_ops (with_routing (table_new Reject) demo_pool_config) (Some demo_accepted)
     \<lparr>ps_pools = demo_pools, ps_guards = open_stack, ps_metrics = None\<rparr>) = Skipped"
  using proxy_routes_as_configured [of "\<lparr>ps_pools = demo_pools, ps_guards = open_stack, ps_metrics = None\<rparr>" False
      std_ops "with_routing (table_new Reject) demo_pool_config" demo_accepted] demo_pools_ok
  by (simp add: rejects_def with_routing_def resolve_def table_new_def)

text \<open>The blocking server refuses to run with TLS offloading, before it binds its address.\<close>

lemma sync_server_refuses_tls:
  "offloads_tls (pxs_config s) \<Longrightarrow>
   sync_run_start s bound now = Err (UnsupportedFeature ''sync proxy TLS offload is not implemented yet'')"
  by (simp add: sync_run_start_def)

end
