(* ===== verification/Tls.thy ===== *)
theory Tls
  imports Config Connection
begin

text \<open>
  TLS set-up (src/src/tls/rustls.rs, src/src/server/tls.rs, src/src/client/tls.rs). The TLS library,
  the PEM parser, the system's certificate store and the file system are foreign code: a record of
  functions, an argument of every definition. Certificates, keys and root stores are type variables.
\<close>

record ('cert, 'key, 'store) tls_lib =
  lib_read_file :: "string \<Rightarrow> u8 list io"
  lib_certs :: "u8 list \<Rightarrow> 'cert list io"
  lib_private_key :: "u8 list \<Rightarrow> 'key option io"
  lib_empty_store :: 'store
  lib_add :: "'cert \<Rightarrow> 'store \<Rightarrow> 'store io"
  lib_native_certs :: "'cert list"
  lib_protocol_versions :: "unit io"
  lib_verifier :: "bool \<Rightarrow> 'store \<Rightarrow> unit io"
  lib_single_cert :: "'cert list \<Rightarrow> 'key \<Rightarrow> unit io"
  lib_client_cert :: "'cert list \<Rightarrow> 'key \<Rightarrow> unit io"
  lib_server_name :: "string \<Rightarrow> unit io"

text \<open>The \<open>?\<close> operator, and a library error turned into an error of the crate.\<close>

definition bind_ok :: "'a outcome \<Rightarrow> ('a \<Rightarrow> 'b outcome) \<Rightarrow> 'b outcome" where
  "bind_ok r f = (case r of Ok x \<Rightarrow> f x | Err e \<Rightarrow> Err e | Panic msg \<Rightarrow> Panic msg)"

definition of_io :: "(string \<Rightarrow> syn_error) \<Rightarrow> 'a io \<Rightarrow> 'a outcome" where
  "of_io f r = (case r of IoOk x \<Rightarrow> Ok x | IoErr msg \<Rightarrow> Err (f msg))"

lemma bind_ok_simps [simp]: "bind_ok (Ok x) f = f x" "bind_ok (Err e) f = Err e" "bind_ok (Panic m) f = Panic m"
  by (simp_all add: bind_ok_def)

lemma of_io_simps [simp]: "of_io f (IoOk x) = Ok x" "of_io f (IoErr m) = Err (f m)"
  by (simp_all add: of_io_def)

lemma bind_ok_Ok: "bind_ok r f = Ok y \<longleftrightarrow> (\<exists>x. r = Ok x \<and> f x = Ok y)"
  by (cases r) simp_all

lemma of_io_Ok: "of_io f r = Ok x \<longleftrightarrow> r = IoOk x"
  by (cases r) simp_all

section \<open>Sources\<close>

fun read_source :: "('cert, 'key, 'store) tls_lib \<Rightarrow> pem_source \<Rightarrow> u8 list outcome" where
  "read_source lib (PemFile path) = of_io Io (lib_read_file lib path)"
| "read_source lib (PemInline pem) = Ok (as_bytes pem)"

definition load_certs :: "('cert, 'key, 'store) tls_lib \<Rightarrow> pem_source \<Rightarrow> 'cert list outcome" where
  "load_certs lib src = bind_ok (read_source lib src) (\<lambda>bytes. of_io Io (lib_certs lib bytes))"

definition load_private_key :: "('cert, 'key, 'store) tls_lib \<Rightarrow> pem_source \<Rightarrow> 'key outcome" where
  "load_private_key lib src =
     bind_ok (read_source lib src) (\<lambda>bytes.
     bind_ok (of_io Io (lib_private_key lib bytes)) (\<lambda>key.
       case key of None \<Rightarrow> Err (config_error ''no private key found in PEM source'') | Some k \<Rightarrow> Ok k))"

fun add_certs :: "('cert, 'key, 'store) tls_lib \<Rightarrow> 'cert list \<Rightarrow> 'store \<Rightarrow> 'store outcome" where
  "add_certs lib [] roots = Ok roots"
| "add_certs lib (cert # certs) roots =
     bind_ok (of_io from_rustls_error (lib_add lib cert roots)) (add_certs lib certs)"

fun add_sources :: "('cert, 'key, 'store) tls_lib \<Rightarrow> pem_source list \<Rightarrow> 'store \<Rightarrow> 'store outcome" where
  "add_sources lib [] roots = Ok roots"
| "add_sources lib (src # srcs) roots =
     bind_ok (load_certs lib src) (\<lambda>certs. bind_ok (add_certs lib certs roots) (add_sources lib srcs))"

definition build_root_store :: "('cert, 'key, 'store) tls_lib \<Rightarrow> pem_source list \<Rightarrow> 'store outcome" where
  "build_root_store lib sources = add_sources lib sources (lib_empty_store lib)"

section \<open>Server side\<close>

datatype 'store client_auth = NoClientAuth | ClientAuthOptional 'store | ClientAuthRequired 'store

record ('cert, 'key, 'store) rustls_server_config =
  rsc_client_auth :: "'store client_auth"
  rsc_certs :: "'cert list"
  rsc_key :: 'key
  rsc_alpn_protocols :: "u8 list list"

definition client_verifier ::
    "('cert, 'key, 'store) tls_lib \<Rightarrow> tls_config \<Rightarrow> 'store client_auth outcome" where
  "client_verifier lib tls =
     (let new_builder = of_io tls_error (lib_protocol_versions lib) in
      if tls_require_client_auth tls then
        bind_ok (build_root_store lib (tls_trust_anchors tls)) (\<lambda>roots.
        bind_ok (of_io tls_error (lib_verifier lib False roots)) (\<lambda>_.
        bind_ok new_builder (\<lambda>_. Ok (ClientAuthRequired roots))))
      else if tls_trust_anchors tls = [] then
        bind_ok new_builder (\<lambda>_. Ok NoClientAuth)
      else
        bind_ok (build_root_store lib (tls_trust_anchors tls)) (\<lambda>roots.
        bind_ok (of_io tls_error (lib_verifier lib True roots)) (\<lambda>_.
        bind_ok new_builder (\<lambda>_. Ok (ClientAuthOptional roots)))))"

definition build_server_config ::
    "('cert, 'key, 'store) tls_lib \<Rightarrow> tls_config \<Rightarrow> ('cert, 'key, 'store) rustls_server_config outcome" where
  "build_server_config lib tls =
     bind_ok (case tls_certificate_chain tls of
         None \<Rightarrow> Err (config_error ''server TLS is enabled but no certificate chain was provided'')
       | Some src \<Rightarrow> load_certs lib src) (\<lambda>certs.
     bind_ok (case tls_private_key tls of
         None \<Rightarrow> Err (config_error ''server TLS is enabled but no private key was provided'')
       | Some src \<Rightarrow> load_private_key lib src) (\<lambda>key.
     bind_ok (client_verifier lib tls) (\<lambda>auth.
     bind_ok (of_io from_rustls_error (lib_single_cert lib certs key)) (\<lambda>_.
       Ok \<lparr>rsc_client_auth = auth, rsc_certs = certs, rsc_key = key,
           rsc_alpn_protocols = map as_bytes (tls_alpn_protocols tls)\<rparr>))))"

text \<open>
  Accepting: the asynchronous server does the handshake at once, the blocking one builds a session and
  does it with the first I/O. The library's handshake and session are arguments.
\<close>

definition accept_async ::
    "('cert, 'key, 'store) tls_lib \<Rightarrow> (('cert, 'key, 'store) rustls_server_config \<Rightarrow> 's io) \<Rightarrow> tls_config \<Rightarrow>
     's outcome" where
  "accept_async lib handshake config = bind_ok (build_server_config lib config) (\<lambda>acceptor. of_io Io (handshake acceptor))"

definition accept_sync ::
    "('cert, 'key, 'store) tls_lib \<Rightarrow> (('cert, 'key, 'store) rustls_server_config \<Rightarrow> 's io) \<Rightarrow> tls_config \<Rightarrow>
     's outcome" where
  "accept_sync lib new_session config =
     bind_ok (build_server_config lib config) (\<lambda>server_config. of_io from_rustls_error (new_session server_config))"

section \<open>Client side\<close>

datatype 'store server_verification = VerifyAgainst 'store | VerifyNothing

record ('cert, 'key, 'store) rustls_client_config =
  rcc_verification :: "'store server_verification"
  rcc_identity :: "('cert list \<times> 'key) option"
  rcc_alpn_protocols :: "u8 list list"

fun add_native :: "('cert, 'key, 'store) tls_lib \<Rightarrow> 'cert list \<Rightarrow> 'store \<Rightarrow> 'store" where
  "add_native lib [] roots = roots"
| "add_native lib (cert # certs) roots =
     add_native lib certs (case lib_add lib cert roots of IoOk roots' \<Rightarrow> roots' | IoErr _ \<Rightarrow> roots)"

definition build_root_store_for_client ::
    "('cert, 'key, 'store) tls_lib \<Rightarrow> tls_config \<Rightarrow> 'store outcome" where
  "build_root_store_for_client lib tls =
     (if tls_trust_anchors tls \<noteq> [] then build_root_store lib (tls_trust_anchors tls)
      else if tls_use_system_roots tls then Ok (add_native lib (lib_native_certs lib) (lib_empty_store lib))
      else Ok (lib_empty_store lib))"

definition client_identity ::
    "('cert, 'key, 'store) tls_lib \<Rightarrow> tls_config \<Rightarrow> ('cert list \<times> 'key) option outcome" where
  "client_identity lib tls =
     (case (tls_client_certificate_chain tls, tls_client_private_key tls) of
        (Some cert_chain, Some private_key) \<Rightarrow>
          bind_ok (load_certs lib cert_chain) (\<lambda>certs.
          bind_ok (load_private_key lib private_key) (\<lambda>key.
          bind_ok (of_io from_rustls_error (lib_client_cert lib certs key)) (\<lambda>_. Ok (Some (certs, key)))))
      | _ \<Rightarrow> Ok None)"

definition build_client_config ::
    "('cert, 'key, 'store) tls_lib \<Rightarrow> tls_config \<Rightarrow> ('cert, 'key, 'store) rustls_client_config outcome" where
  "build_client_config lib tls =
     bind_ok (build_root_store_for_client lib tls) (\<lambda>roots.
     bind_ok (of_io tls_error (lib_protocol_versions lib)) (\<lambda>_.
     bind_ok (client_identity lib tls) (\<lambda>identity.
       Ok \<lparr>rcc_verification = (if \<not> tls_verify_peer tls then VerifyNothing else VerifyAgainst roots),
           rcc_identity = identity,
           rcc_alpn_protocols = map as_bytes (tls_alpn_protocols tls)\<rparr>)))"

definition server_name :: "('cert, 'key, 'store) tls_lib \<Rightarrow> tls_config \<Rightarrow> string outcome" where
  "server_name lib tls =
     (let name = (case tls_server_name tls of Some n \<Rightarrow> n | None \<Rightarrow> ''localhost'') in
      bind_ok (of_io tls_error (lib_server_name lib name)) (\<lambda>_. Ok name))"

definition tls_connect_async ::
    "('cert, 'key, 'store) tls_lib \<Rightarrow> (('cert, 'key, 'store) rustls_client_config \<Rightarrow> string \<Rightarrow> 'c io) \<Rightarrow>
     tls_config \<Rightarrow> 'c outcome" where
  "tls_connect_async lib handshake config =
     bind_ok (build_client_config lib config) (\<lambda>connector.
     bind_ok (server_name lib config) (\<lambda>name. of_io Io (handshake connector name)))"

definition tls_connect_sync ::
    "('cert, 'key, 'store) tls_lib \<Rightarrow> (('cert, 'key, 'store) rustls_client_config \<Rightarrow> string \<Rightarrow> 'c io) \<Rightarrow>
     tls_config \<Rightarrow> 'c outcome" where
  "tls_connect_sync lib new_session config =
     bind_ok (build_client_config lib config) (\<lambda>client_config.
     bind_ok (server_name lib config) (\<lambda>name. of_io from_rustls_error (new_session client_config name)))"

section \<open>The verifier that verifies nothing\<close>

datatype signature_scheme =
    RSA_PKCS1_SHA1
  | ECDSA_SHA1_Legacy
  | RSA_PKCS1_SHA256
  | ECDSA_NISTP256_SHA256
  | RSA_PKCS1_SHA384
  | ECDSA_NISTP384_SHA384
  | RSA_PKCS1_SHA512
  | ECDSA_NISTP521_SHA512
  | RSA_PSS_SHA256
  | RSA_PSS_SHA384
  | RSA_PSS_SHA512
  | ED25519
  | ED448

text \<open>
  The methods rustls calls during a handshake: the certificate, the intermediates, the server's name,
  the OCSP response and the time; a message, the certificate and the signature.
\<close>

record ('cert, 'sig) server_cert_verifier =
  verify_server_cert :: "'cert \<Rightarrow> 'cert list \<Rightarrow> string \<Rightarrow> u8 list \<Rightarrow> nat \<Rightarrow> unit io"
  verify_tls12_signature :: "u8 list \<Rightarrow> 'cert \<Rightarrow> 'sig \<Rightarrow> unit io"
  verify_tls13_signature :: "u8 list \<Rightarrow> 'cert \<Rightarrow> 'sig \<Rightarrow> unit io"
  supported_verify_schemes :: "signature_scheme list"

definition noop_server_verifier :: "('cert, 'sig) server_cert_verifier" where
  "noop_server_verifier =
     \<lparr>verify_server_cert = (\<lambda>end_entity intermediates server_name ocsp_response now. IoOk ()),
      verify_tls12_signature = (\<lambda>message cert dss. IoOk ()),
      verify_tls13_signature = (\<lambda>message cert dss. IoOk ()),
      supported_verify_schemes =
        [RSA_PKCS1_SHA1, ECDSA_SHA1_Legacy, RSA_PKCS1_SHA256, ECDSA_NISTP256_SHA256, RSA_PKCS1_SHA384,
         ECDSA_NISTP384_SHA384, RSA_PKCS1_SHA512, ECDSA_NISTP521_SHA512, RSA_PSS_SHA256, RSA_PSS_SHA384,
         RSA_PSS_SHA512, ED25519, ED448]\<rparr>"

text \<open>
  The verifier of a client configuration: rustls's own one over the trust anchors, which is a
  parameter, or the one above.
\<close>

definition client_cert_verifier ::
    "('store \<Rightarrow> ('cert, 'sig) server_cert_verifier) \<Rightarrow> ('cert, 'key, 'store) rustls_client_config \<Rightarrow>
     ('cert, 'sig) server_cert_verifier" where
  "client_cert_verifier webpki cli =
     (case rcc_verification cli of VerifyAgainst roots \<Rightarrow> webpki roots | VerifyNothing \<Rightarrow> noop_server_verifier)"

text \<open>Which crypto provider is compiled in is a feature of the build.\<close>

definition backend_name :: "bool \<Rightarrow> string" where
  "backend_name aws_lc_backend = (if aws_lc_backend then ''rustls/aws-lc-rs'' else ''rustls/ring'')"

lemma noop_accepts_everything:
  "rcc_verification cli = VerifyNothing \<Longrightarrow>
   verify_server_cert (client_cert_verifier webpki cli) cert chain name ocsp now = IoOk () \<and>
   verify_tls12_signature (client_cert_verifier webpki cli) message cert dss = IoOk () \<and>
   verify_tls13_signature (client_cert_verifier webpki cli) message cert dss = IoOk () \<and>
   set (supported_verify_schemes (client_cert_verifier webpki cli)) = UNIV"
  by (auto simp: client_cert_verifier_def noop_server_verifier_def intro: signature_scheme.exhaust)

section \<open>Properties\<close>

text \<open>What a configuration that is built does, and what a lone chain or key does.\<close>

lemma server_policy:
  assumes "build_server_config lib tls = Ok srv"
  shows "rsc_client_auth srv = NoClientAuth \<longleftrightarrow> \<not> tls_require_client_auth tls \<and> tls_trust_anchors tls = []"
    and "(\<exists>roots. rsc_client_auth srv = ClientAuthRequired roots) \<longleftrightarrow> tls_require_client_auth tls"
    and "rsc_client_auth srv \<in> {ClientAuthRequired roots, ClientAuthOptional roots} \<Longrightarrow>
      build_root_store lib (tls_trust_anchors tls) = Ok roots"
    and "\<exists>chain key. tls_certificate_chain tls = Some chain \<and> tls_private_key tls = Some key \<and>
      load_certs lib chain = Ok (rsc_certs srv) \<and> load_private_key lib key = Ok (rsc_key srv)"
proof -
  have auth: "client_verifier lib tls = Ok (rsc_client_auth srv)"
    using assms by (auto simp: build_server_config_def bind_ok_Ok split: option.splits)
  show "rsc_client_auth srv = NoClientAuth \<longleftrightarrow> \<not> tls_require_client_auth tls \<and> tls_trust_anchors tls = []"
    "(\<exists>roots. rsc_client_auth srv = ClientAuthRequired roots) \<longleftrightarrow> tls_require_client_auth tls"
    "rsc_client_auth srv \<in> {ClientAuthRequired roots, ClientAuthOptional roots} \<Longrightarrow>
      build_root_store lib (tls_trust_anchors tls) = Ok roots"
    using auth by (auto simp: client_verifier_def Let_def bind_ok_Ok dest: sym [of _ "rsc_client_auth srv"] split: if_splits)
  show "\<exists>chain key. tls_certificate_chain tls = Some chain \<and> tls_private_key tls = Some key \<and>
      load_certs lib chain = Ok (rsc_certs srv) \<and> load_private_key lib key = Ok (rsc_key srv)"
    using assms by (auto simp: build_server_config_def bind_ok_Ok split: option.splits)
qed

lemma client_policy:
  assumes "build_client_config lib tls = Ok cli"
  shows "rcc_verification cli = VerifyNothing \<longleftrightarrow> \<not> tls_verify_peer tls"
    and "rcc_verification cli = VerifyAgainst roots \<Longrightarrow> tls_trust_anchors tls \<noteq> [] \<Longrightarrow>
      build_root_store lib (tls_trust_anchors tls) = Ok roots"
    and "rcc_identity cli = None \<longleftrightarrow> tls_client_certificate_chain tls = None \<or> tls_client_private_key tls = None"
proof -
  obtain rs identity where cli: "build_root_store_for_client lib tls = Ok rs" "client_identity lib tls = Ok identity"
     "rcc_verification cli = (if \<not> tls_verify_peer tls then VerifyNothing else VerifyAgainst rs)" "rcc_identity cli = identity"
    using assms by (auto simp: build_client_config_def bind_ok_Ok)
  show "rcc_verification cli = VerifyNothing \<longleftrightarrow> \<not> tls_verify_peer tls" using cli(3) by simp
  show "build_root_store lib (tls_trust_anchors tls) = Ok roots"
    if "rcc_verification cli = VerifyAgainst roots" "tls_trust_anchors tls \<noteq> []"
    using cli(1,3) that by (simp add: build_root_store_for_client_def split: if_splits)
  show "rcc_identity cli = None \<longleftrightarrow> tls_client_certificate_chain tls = None \<or> tls_client_private_key tls = None"
    unfolding cli(4) using cli(2) by (auto simp: client_identity_def bind_ok_Ok split: option.splits)
qed

lemma lone_identity:
  assumes "tls_client_certificate_chain tls = None \<or> tls_client_private_key tls = None"
  shows "client_identity lib tls = Ok None"
    and "build_client_config lib tls =
      build_client_config lib (tls\<lparr>tls_client_certificate_chain := None, tls_client_private_key := None\<rparr>)"
proof -
  have lone: "client_identity lib t = Ok None"
    if "tls_client_certificate_chain t = None \<or> tls_client_private_key t = None" for t
    using that by (auto simp: client_identity_def split: option.splits)
  show "client_identity lib tls = Ok None" using lone assms .
  show "build_client_config lib tls =
      build_client_config lib (tls\<lparr>tls_client_certificate_chain := None, tls_client_private_key := None\<rparr>)"
    using lone assms by (simp add: build_client_config_def build_root_store_for_client_def)
qed

text \<open>
  C38. The policy a TLS configuration asks for is the one that is built. A server configuration that is
  built at all demands client certificates exactly when \<open>require_client_auth\<close> is set, then checked
  against the trust anchors, accepts them without demanding when there are trust anchors, and
  presents the configured chain and key. A client configuration that is built skips the server's
  verification exactly when \<open>verify_peer\<close> is off, trusts the anchors alone when there are some, and
  presents a certificate exactly when both a chain and a key are configured. One of the two alone
  is dropped without an error: the build gives exactly what it gives with neither, result or error,
  whatever the lone one is.
\<close>

theorem tls_policy_faithful:
  shows "(build_server_config lib tls = Ok srv \<longrightarrow>
      (rsc_client_auth srv = NoClientAuth \<longleftrightarrow> \<not> tls_require_client_auth tls \<and> tls_trust_anchors tls = []) \<and>
      ((\<exists>roots. rsc_client_auth srv = ClientAuthRequired roots) \<longleftrightarrow> tls_require_client_auth tls) \<and>
      (\<forall>roots. rsc_client_auth srv \<in> {ClientAuthRequired roots, ClientAuthOptional roots} \<longrightarrow>
        build_root_store lib (tls_trust_anchors tls) = Ok roots) \<and>
      (\<exists>chain key. tls_certificate_chain tls = Some chain \<and> tls_private_key tls = Some key \<and>
        load_certs lib chain = Ok (rsc_certs srv) \<and> load_private_key lib key = Ok (rsc_key srv))) \<and>
    (build_client_config lib tls' = Ok cli \<longrightarrow>
      (rcc_verification cli = VerifyNothing \<longleftrightarrow> \<not> tls_verify_peer tls') \<and>
      (\<forall>roots. rcc_verification cli = VerifyAgainst roots \<and> tls_trust_anchors tls' \<noteq> [] \<longrightarrow>
        build_root_store lib (tls_trust_anchors tls') = Ok roots) \<and>
      (rcc_identity cli = None \<longleftrightarrow> tls_client_certificate_chain tls' = None \<or> tls_client_private_key tls' = None)) \<and>
    (tls_client_certificate_chain tls' = None \<or> tls_client_private_key tls' = None \<longrightarrow>
      client_identity lib tls' = Ok None \<and>
      build_client_config lib tls' =
        build_client_config lib (tls'\<lparr>tls_client_certificate_chain := None, tls_client_private_key := None\<rparr>))"
  using server_policy [of lib tls srv] client_policy [of lib tls' cli] lone_identity [of tls' lib] by (intro conjI impI allI) blast+

text \<open>A library of numbers: a certificate is a byte, a store the list of its certificates.\<close>

definition demo_lib :: "(u8, u8, u8 list) tls_lib" where
  "demo_lib =
     \<lparr>lib_read_file = (\<lambda>path. IoErr ''no such file''), lib_certs = IoOk, lib_private_key = (\<lambda>bs. IoOk (case bs of [] \<Rightarrow> None | b # _ \<Rightarrow> Some b)),
      lib_empty_store = [], lib_add = (\<lambda>c s. IoOk (s @ [c])), lib_native_certs = [9], lib_protocol_versions = IoOk (),
      lib_verifier = (\<lambda>_ roots. if roots = [] then IoErr ''no root trust anchors were provided'' else IoOk ()),
      lib_single_cert = (\<lambda>_ _. IoOk ()), lib_client_cert = (\<lambda>_ _. IoOk ()), lib_server_name = (\<lambda>_. IoOk ())\<rparr>"

definition demo_tls :: tls_config where
  "demo_tls = build_require_client_auth True (build_trust_anchor (inline_pem ''C'')
     (build_private_key (inline_pem ''K'') (build_certificate_chain (inline_pem ''S'') tls_builder)))"

theorem tls_policy_faithful_witness:
  "\<exists>srv cli. build_server_config demo_lib demo_tls = Ok srv \<and> build_client_config demo_lib tls_disabled = Ok cli \<and>
     rsc_client_auth srv = ClientAuthRequired [67] \<and> rcc_verification cli \<noteq> VerifyNothing"
proof -
  have "is_ok (build_server_config demo_lib demo_tls)" "is_ok (build_client_config demo_lib tls_disabled)"
      "build_root_store demo_lib (tls_trust_anchors demo_tls) = Ok [67]"
      "tls_require_client_auth demo_tls" "tls_verify_peer tls_disabled"
    by code_simp+
  then obtain srv cli where b: "build_server_config demo_lib demo_tls = Ok srv"
      "build_client_config demo_lib tls_disabled = Ok cli"
    by (auto simp: is_ok_def split: outcome.splits)
  note server = tls_policy_faithful [THEN conjunct1, rule_format, OF b(1)]
  note client = tls_policy_faithful [of demo_lib demo_tls srv tls_disabled cli, THEN conjunct2, THEN conjunct1, rule_format, OF b(2)]
  show ?thesis
    using b server client \<open>build_root_store demo_lib (tls_trust_anchors demo_tls) = Ok [67]\<close>
      \<open>tls_require_client_auth demo_tls\<close> \<open>tls_verify_peer tls_disabled\<close>
    by (metis insertI1 outcome.inject(1))
qed

end
