(* ===== verification/Server_Common.thy ===== *)
theory Server_Common
  imports Tls
begin

text \<open>
  What the two servers share (src/src/server/tcp.rs and the code both handlers of
  src/src/server/async_server.rs and src/src/server/sync_server.rs have in common): the effective
  accept mode, the detection of TLS, the connection that is built, and the application's handler.
\<close>

definition server_metadata :: "socket_addr \<Rightarrow> socket_addr option \<Rightarrow> bool \<Rightarrow> connection_metadata" where
  "server_metadata peer_addr local_addr tls = connection_metadata_new peer_addr local_addr tls"

text \<open>The flag the guards are told.\<close>

definition is_tls_expected :: "server_config \<Rightarrow> bool" where
  "is_tls_expected config = (tls_enabled (svc_tls config) \<or> svc_accept_mode config = AcceptTls)"

definition effective_mode :: "server_config \<Rightarrow> accept_mode" where
  "effective_mode config =
     (if svc_accept_mode config = AcceptMixed then AcceptMixed
      else if tls_enabled (svc_tls config) \<or> svc_accept_mode config = AcceptTls then AcceptTls
      else AcceptTcp)"

text \<open>
  The application's handler gets the connection: the operations it performs on it, and how it ends,
  with a result, a panic, or cut short by the connection's time-out. Either way the connection is
  dropped then.
\<close>

record handler_run =
  hr_operations :: "conn_op list"
  hr_result :: "unit outcome"

text \<open>\<open>attach_guard_session\<close> of src/src/handler.rs.\<close>

definition attach_guard_session :: "('a, 'b) connection \<Rightarrow> guard_session \<Rightarrow> ('a, 'b) connection" where
  "attach_guard_session c ss = with_guard_session ss c"

definition run_handler ::
    "'g guard_ops \<Rightarrow> (nat \<Rightarrow> instant) \<Rightarrow> handler_run \<Rightarrow> ('a, 'b, 'g) conn_state \<Rightarrow> unit outcome \<times> 'g guard_stack" where
  "run_handler ops clk run cst =
     (hr_result run, drop_connection ops clk (fold (conn_step ops) (hr_operations run) cst))"

lemma run_handler_session:
  assumes "cn_guard_session c = Some ss"
  shows "\<exists>cs st'. fold (session_step ops) cs (ss, st) = (ss, st') \<and>
    snd (run_handler ops clk run (c, st)) = drop_session ops clk ss st'"
proof -
  obtain cs st' where "fold (conn_step ops) (hr_operations run) (c, st) = (c, st')"
      "fold (session_step ops) cs (ss, st) = (ss, st')"
    using conn_steps_session [OF assms] by blast
  then show ?thesis using drop_connection_session [OF assms]
    by (intro exI [of _ cs] exI [of _ st']) (simp add: run_handler_def)
qed

text \<open>
  From a reservation on, an establishment, any work of the handler and the drop give back everything;
  so does dropping the session at once.
\<close>

lemma guarded_work_gives_back:
  assumes "context_ok ctx" "all_ready ctx st" "gs_reserve std_ops clk ctx st = (Ok ss, st1)"
    and "mark_established std_ops clk1 ss st1 = (r, ss2, st2)"
  shows "map (std_usage ctx) (gs_guards (drop_session std_ops clk2 ss st1)) = map (std_usage ctx) (gs_guards st)"
    and "map (std_usage ctx) (gs_guards (drop_session std_ops clk2 ss2 st2)) = map (std_usage ctx) (gs_guards st)"
    and "cn_guard_session c = Some ss2 \<Longrightarrow>
      map (std_usage ctx) (gs_guards (snd (run_handler std_ops clk2 run (c, st2)))) =
      map (std_usage ctx) (gs_guards st)"
proof -
  have m: "fold (session_step std_ops) [MarkEstablished clk1] (ss, st1) = (ss2, st2)" using assms(4) by simp
  show "map (std_usage ctx) (gs_guards (drop_session std_ops clk2 ss st1)) = map (std_usage ctx) (gs_guards st)"
    by (rule session_gives_everything_back_aux [OF assms(1-3), of "[]"]) simp
  show "map (std_usage ctx) (gs_guards (drop_session std_ops clk2 ss2 st2)) = map (std_usage ctx) (gs_guards st)"
    by (rule session_gives_everything_back_aux [OF assms(1-3) m])
  assume c: "cn_guard_session c = Some ss2"
  obtain cs st3 where cs: "fold (session_step std_ops) cs (ss2, st2) = (ss2, st3)"
      "snd (run_handler std_ops clk2 run (c, st2)) = drop_session std_ops clk2 ss2 st3"
    using run_handler_session [OF c, of std_ops st2 clk2 run] by blast
  have "fold (session_step std_ops) (MarkEstablished clk1 # cs) (ss, st1) = (ss2, st3)" using m cs(1) by simp
  from session_gives_everything_back_aux [OF assms(1-3) this, of clk2] cs(2)
  show "map (std_usage ctx) (gs_guards (snd (run_handler std_ops clk2 run (c, st2)))) =
      map (std_usage ctx) (gs_guards st)" by simp
qed

end
