(* ===== verification/Async_Server.thy ===== *)
theory Async_Server
  imports Server_Common Live_Sessions
begin

text \<open>
  The asynchronous server (src/src/server/async_server.rs): the handling of one connection, the accept
  loop with its permits, and its shutdown, as a transition system in which the tasks of the
  connections and their sessions end in any order. What the listener and the shutdown channel deliver
  to a turn of the loop is an argument.
\<close>

section \<open>One connection\<close>

text \<open>
  What the outside answers: the socket, the peeked bytes, the TLS handshake (\<open>tls::accept_async\<close>), and
  whether the connection's time-out strikes before the handler gets the connection.
\<close>

record ('t, 's) async_conn_env =
  av_socket :: 't
  av_peek :: "u8 list io"
  av_accept :: "'s outcome"
  av_cancelled :: bool

text \<open>\<open>peek_is_tls\<close>: one byte, \<open>0x16\<close>; an error counts as plain.\<close>

definition peek_is_tls_async :: "u8 list io \<Rightarrow> bool" where
  "peek_is_tls_async peeked =
     (case peeked of IoOk bytes \<Rightarrow> length bytes = 1 \<and> bytes ! 0 = 0x16 | IoErr _ \<Rightarrow> False)"

definition async_transport ::
    "accept_mode \<Rightarrow> ('t, 's) async_conn_env \<Rightarrow> (('t, 's, 'c) transport \<times> bool) outcome" where
  "async_transport mode env =
     (case mode of
        AcceptTls \<Rightarrow> bind_ok (av_accept env) (\<lambda>s. Ok (ServerTls s, True))
      | AcceptMixed \<Rightarrow>
          if peek_is_tls_async (av_peek env) then bind_ok (av_accept env) (\<lambda>s. Ok (ServerTls s, True))
          else Ok (TcpStream (av_socket env), False)
      | AcceptTcp \<Rightarrow> Ok (TcpStream (av_socket env), False))"

definition async_connection ::
    "server_config \<Rightarrow> guard_context \<Rightarrow> ('t, 's, 'c) transport \<Rightarrow> bool \<Rightarrow> (('t, 's, 'c) transport, 'b) connection" where
  "async_connection config ctx stream is_tls =
     (let metadata = server_metadata (gc_peer_addr ctx) (gc_local_addr ctx) is_tls;
          metadata = (if is_tls then metadata\<lparr>cm_tls_server_name := tls_server_name (svc_tls config)\<rparr> else metadata)
      in from_async_stream metadata stream)"

text \<open>
  \<open>handle_async_connection\<close> with the time-out around it. \<open>deliver\<close> is the application's handler: what it
  does with the connection it is given. The session that is not attached is dropped.
\<close>

definition handle_async_connection ::
    "'g guard_ops \<Rightarrow> (nat \<Rightarrow> instant) \<Rightarrow> (nat \<Rightarrow> instant) \<Rightarrow> ((('t, 's, 'c) transport, 'b) connection \<Rightarrow> handler_run) \<Rightarrow>
     server_config \<Rightarrow> guard_context \<Rightarrow> ('t, 's) async_conn_env \<Rightarrow> guard_session \<Rightarrow> 'g guard_stack \<Rightarrow>
     unit outcome option \<times> 'g guard_stack" where
  "handle_async_connection ops clk1 clk2 deliver config ctx env ss st =
     (if av_cancelled env then (None, drop_session ops clk2 ss st)
      else
        case async_transport (effective_mode config) env of
          Err e \<Rightarrow> (Some (Err e), drop_session ops clk2 ss st)
        | Panic msg \<Rightarrow> (Some (Panic msg), drop_session ops clk2 ss st)
        | Ok (stream, is_tls) \<Rightarrow>
            (let connection = async_connection config ctx stream is_tls in
             case mark_established ops clk1 ss st of
               (Err e, ss, st) \<Rightarrow> (Some (Err e), drop_session ops clk2 ss st)
             | (Panic msg, ss, st) \<Rightarrow> (Some (Panic msg), drop_session ops clk2 ss st)
             | (Ok _, ss, st) \<Rightarrow>
                 (let (r, st) = run_handler ops clk2 (deliver connection) (attach_guard_session connection ss, st)
                  in (Some r, st))))"

section \<open>The accept loop\<close>

record 'g async_server =
  as_permits :: usize
  as_guards :: "'g guard_stack"

text \<open>\<open>new\<close> and \<open>from_listener\<close>, and the semaphore \<open>run_internal\<close> makes.\<close>

definition async_server_new :: "instant \<Rightarrow> server_config \<Rightarrow> std_guard async_server" where
  "async_server_new now config =
     \<lparr>as_permits = svc_max_connections config, as_guards = build_guard_stack now (svc_guards config)\<rparr>"

datatype spawn = NotSpawned | Spawned guard_context guard_session | LoopPanics string

definition async_accept_turn ::
    "'g guard_ops \<Rightarrow> server_config \<Rightarrow> instant \<Rightarrow> (nat \<Rightarrow> instant) \<Rightarrow> socket_addr \<Rightarrow> socket_addr option \<Rightarrow>
     'g async_server \<Rightarrow> spawn \<times> 'g async_server" where
  "async_accept_turn ops config now clk peer_addr local_addr sv =
     (if as_permits sv = 0 then (NotSpawned, sv)
      else
        let sv = sv\<lparr>as_permits := as_permits sv - 1\<rparr>;
            ctx = guard_context_new now peer_addr local_addr (is_tls_expected config);
            (r, gs) = gs_reserve ops clk ctx (as_guards sv);
            sv = sv\<lparr>as_guards := gs\<rparr> in
        case r of
          Ok ss \<Rightarrow> (Spawned ctx ss, sv)
        | Err e \<Rightarrow> (NotSpawned, sv\<lparr>as_permits := as_permits sv + 1\<rparr>)
        | Panic msg \<Rightarrow> (LoopPanics msg, sv))"

text \<open>The end of a task: whatever became of the connection, the permit is given back.\<close>

definition async_task_ends :: "'g guard_stack \<Rightarrow> 'g async_server \<Rightarrow> 'g async_server" where
  "async_task_ends gs sv = sv\<lparr>as_guards := gs, as_permits := as_permits sv + 1\<rparr>"

text \<open>
  Shutdown: after the loop, all permits are acquired at once; \<open>None\<close> means waiting. A limit that does
  not fit \<open>u32\<close> is an error.
\<close>

definition async_shutdown :: "server_config \<Rightarrow> 'g async_server \<Rightarrow> unit outcome option" where
  "async_shutdown config sv =
     (if 2 ^ 32 \<le> svc_max_connections config
      then Some (Err (runtime_error ''max_connections exceeds async shutdown limit''))
      else if svc_max_connections config \<le> as_permits sv then Some (Ok ())
      else None)"

section \<open>The run loop\<close>

text \<open>
  \<open>AsyncServerShutdown::shutdown\<close>: the answer of the channel is an argument. What a turn of the loop
  gets: a connection (or the error of the listener), or the outcome of \<open>changed\<close> with the value then
  borrowed, \<open>None\<close> when every shutdown handle is gone.
\<close>

definition async_request_shutdown :: "unit io \<Rightarrow> unit outcome" where
  "async_request_shutdown sent =
     (case sent of IoOk _ \<Rightarrow> Ok () | IoErr _ \<Rightarrow> Err (runtime_error ''async shutdown signal failed''))"

datatype async_input = Incoming "(socket_addr \<times> socket_addr option) io" | Signalled "bool option"

datatype loop_phase = Accepting | Draining | Finished "unit outcome"

definition async_bind :: "unit option \<Rightarrow> unit io \<Rightarrow> socket_addr io \<Rightarrow> loop_phase" where
  "async_bind listener bound local_addr =
     (case (case listener of Some l \<Rightarrow> IoOk l | None \<Rightarrow> bound) of
        IoErr msg \<Rightarrow> Finished (Err (Io msg))
      | IoOk _ \<Rightarrow> (case local_addr of IoErr msg \<Rightarrow> Finished (Err (Io msg)) | IoOk _ \<Rightarrow> Accepting))"

definition async_turn ::
    "'g guard_ops \<Rightarrow> server_config \<Rightarrow> bool \<Rightarrow> instant \<Rightarrow> (nat \<Rightarrow> instant) \<Rightarrow> async_input \<Rightarrow> 'g async_server \<Rightarrow>
     loop_phase \<times> spawn \<times> 'g async_server" where
  "async_turn ops config watching now clk input sv =
     (case input of
        Signalled changed \<Rightarrow>
          if \<not> watching then (Accepting, NotSpawned, sv)
          else if changed = None \<or> changed = Some True then (Draining, NotSpawned, sv)
          else (Accepting, NotSpawned, sv)
      | Incoming (IoErr msg) \<Rightarrow> (Finished (Err (Io msg)), NotSpawned, sv)
      | Incoming (IoOk (peer_addr, local_addr)) \<Rightarrow>
          (case async_accept_turn ops config now clk peer_addr local_addr sv of
             (LoopPanics msg, sv) \<Rightarrow> (Finished (Panic msg), LoopPanics msg, sv)
           | (spawned, sv) \<Rightarrow> (Accepting, spawned, sv)))"

section \<open>Lemmas\<close>

lemma async_accept_turn_cases:
  assumes "async_accept_turn ops config now clk peer loc sv = (r, sv')"
  obtains (full) "as_permits sv = 0" "r = NotSpawned" "sv' = sv"
  | (granted) ss where "0 < as_permits sv"
      "gs_reserve ops clk (guard_context_new now peer loc (is_tls_expected config)) (as_guards sv) = (Ok ss, as_guards sv')"
      "r = Spawned (guard_context_new now peer loc (is_tls_expected config)) ss" "Suc (as_permits sv') = as_permits sv"
  | (denied) e where
      "gs_reserve ops clk (guard_context_new now peer loc (is_tls_expected config)) (as_guards sv) = (Err e, as_guards sv')"
      "r = NotSpawned" "as_permits sv' = as_permits sv"
  | (panicked) msg where "r = LoopPanics msg"
      "fst (gs_reserve ops clk (guard_context_new now peer loc (is_tls_expected config)) (as_guards sv)) = Panic msg"
  using assms by (auto simp: async_accept_turn_def Let_def split: if_splits prod.splits outcome.splits)

text \<open>
  The states the server can reach: its phase, the sessions that live and the number of tasks that run.
  A session usually ends with its task, but a handler may let it go earlier (\<open>into_stream\<close>) or hand the
  connection to another task, so the two end independently.
\<close>

inductive async_serves ::
    "bool \<Rightarrow> server_config \<Rightarrow> bool \<Rightarrow> std_guard async_server \<Rightarrow> loop_phase \<Rightarrow> guard_session multiset \<Rightarrow> nat \<Rightarrow> bool"
  for u :: bool and config :: server_config and watching :: bool where
  start: "async_serves u config watching (async_server_new now config) (async_bind listener bound addr) {#} 0"
| signalled: "async_serves u config watching sv Accepting L n \<Longrightarrow>
    async_turn std_ops config watching now clk (Signalled changed) sv = (ph, spawned, sv') \<Longrightarrow>
    async_serves u config watching sv' ph L n"
| unaccepted: "async_serves u config watching sv Accepting L n \<Longrightarrow>
    async_turn std_ops config watching now clk (Incoming (IoErr msg)) sv = (ph, spawned, sv') \<Longrightarrow>
    async_serves u config watching sv' ph L n"
| turned_away: "async_serves u config watching sv Accepting L n \<Longrightarrow> (u \<longrightarrow> peer \<notin> peers (live L)) \<Longrightarrow>
    async_turn std_ops config watching now clk (Incoming (IoOk (peer, loc))) sv = (ph, NotSpawned, sv') \<Longrightarrow>
    async_serves u config watching sv' ph L n"
| spawned: "async_serves u config watching sv Accepting L n \<Longrightarrow> (u \<longrightarrow> peer \<notin> peers (live L)) \<Longrightarrow>
    async_turn std_ops config watching now clk (Incoming (IoOk (peer, loc))) sv = (ph, Spawned ctx ss, sv') \<Longrightarrow>
    async_serves u config watching sv' ph (add_mset ss L) (Suc n)"
| broke_down: "async_serves u config watching sv Accepting L n \<Longrightarrow> (u \<longrightarrow> peer \<notin> peers (live L)) \<Longrightarrow>
    async_turn std_ops config watching now clk (Incoming (IoOk (peer, loc))) sv = (ph, LoopPanics msg, sv') \<Longrightarrow>
    async_serves u config watching sv' ph L n"
| called: "async_serves u config watching sv ph (add_mset ss L) n \<Longrightarrow>
    session_step std_ops c (ss, as_guards sv) = (ss', gs) \<Longrightarrow>
    async_serves u config watching (sv\<lparr>as_guards := gs\<rparr>) ph (add_mset ss' L) n"
| closed: "async_serves u config watching sv ph (add_mset ss L) n \<Longrightarrow>
    async_serves u config watching (sv\<lparr>as_guards := drop_session std_ops clk ss (as_guards sv)\<rparr>) ph L n"
| task_ended: "async_serves u config watching sv ph L (Suc n) \<Longrightarrow>
    async_serves u config watching (async_task_ends (as_guards sv) sv) ph L n"
| drained: "async_serves u config watching sv Draining L n \<Longrightarrow> async_shutdown config sv = Some r \<Longrightarrow>
    async_serves u config watching sv (Finished r) L n"

definition async_ok ::
    "bool \<Rightarrow> server_config \<Rightarrow> std_guard async_server \<Rightarrow> loop_phase \<Rightarrow> guard_session multiset \<Rightarrow> nat \<Rightarrow> bool" where
  "async_ok u config sv ph L n \<longleftrightarrow>
     as_permits sv + n = svc_max_connections config \<and> stack_runs u (svc_guards config) (as_guards sv) L \<and>
     (ph = Finished (Ok ()) \<longrightarrow> n = 0) \<and> (\<forall>msg. ph \<noteq> Finished (Panic msg))"

lemma async_incoming_ok:
  assumes "async_ok u config sv Accepting L n" "u \<longrightarrow> peer \<notin> peers (live L)"
    and "async_turn std_ops config watching now clk (Incoming (IoOk (peer, loc))) sv = (ph, spawned, sv')"
  shows "ph = Accepting \<and> (case spawned of
      Spawned ctx ss \<Rightarrow> async_ok u config sv' Accepting (add_mset ss L) (Suc n)
    | NotSpawned \<Rightarrow> async_ok u config sv' Accepting L n
    | LoopPanics msg \<Rightarrow> False)"
proof -
  let ?ctx = "guard_context_new now peer loc (is_tls_expected config)"
  have runs: "stack_runs u (svc_guards config) (as_guards sv) L" using assms(1) by (simp add: async_ok_def)
  have peer: "u \<longrightarrow> gc_peer_addr ?ctx \<notin> peers (live L)" using assms(2) by simp
  obtain r sv1 where turn: "async_accept_turn std_ops config now clk peer loc sv = (r, sv1)" by fastforce
  from turn show ?thesis
  proof (cases rule: async_accept_turn_cases)
    case full
    then show ?thesis using assms turn by (simp add: async_turn_def)
  next
    case (granted ss)
    then have "stack_runs u (svc_guards config) (as_guards sv1) (add_mset ss L)"
      using stack_runs.reserved [OF runs _ peer, of clk ss "as_guards sv1"] by simp
    then show ?thesis using assms turn granted by (auto simp: async_turn_def async_ok_def)
  next
    case (denied e)
    then have "stack_runs u (svc_guards config) (as_guards sv1) L"
      using stack_runs.refused [OF runs _ peer, of clk e "as_guards sv1"] by simp
    then show ?thesis using assms turn denied by (auto simp: async_turn_def async_ok_def)
  next
    case (panicked msg)
    obtain r2 st2 where "gs_reserve std_ops clk ?ctx (as_guards sv) = (r2, st2)" by fastforce
    with panicked(2) shared.accounted_reserve [OF stack_runs_accounted [OF runs] context_ok_new, of now peer loc
        "is_tls_expected config" clk r2 st2] peer
    show ?thesis by simp
  qed
qed

lemma async_serves_ok: "async_serves u config watching sv ph L n \<Longrightarrow> async_ok u config sv ph L n"
proof (induction rule: async_serves.induct)
  case (start now listener bound addr)
  show ?case
    by (auto simp: async_ok_def async_server_new_def async_bind_def stack_runs.built split: io.splits option.splits)
next
  case (called sv ph ss L n c ss' gs)
  then show ?case by (auto simp: async_ok_def intro: stack_runs.called)
next
  case (closed sv ph ss L n clk)
  then show ?case by (auto simp: async_ok_def intro: stack_runs.ended)
next
  case (drained sv L n r)
  then show ?case by (auto simp: async_ok_def async_shutdown_def split: if_splits)
next
  case (turned_away sv L n peer now clk loc ph sv')
  then show ?case using async_incoming_ok [OF turned_away.IH turned_away.hyps(2,3)] by simp
next
  case (spawned sv L n peer now clk loc ph ctx ss sv')
  then show ?case using async_incoming_ok [OF spawned.IH spawned.hyps(2,3)] by simp
next
  case (broke_down sv L n peer now clk loc ph msg sv')
  then show ?case using async_incoming_ok [OF broke_down.IH broke_down.hyps(2,3)] by simp
qed (auto simp: async_ok_def async_turn_def async_task_ends_def split: if_splits)

text \<open>Letting the running tasks end, one after the other.\<close>

fun end_all :: "'g guard_stack list \<Rightarrow> 'g async_server \<Rightarrow> 'g async_server" where
  "end_all gss sv = fold async_task_ends gss sv"

lemma end_all_permits: "as_permits (end_all gss sv) = as_permits sv + length gss"
proof -
  have "as_permits (fold async_task_ends gss sv) = as_permits sv + length gss"
    by (induction gss arbitrary: sv) (simp_all add: async_task_ends_def)
  then show ?thesis by simp
qed

section \<open>Properties\<close>

text \<open>
  C18. Whatever becomes of an accepted connection of the asynchronous server, of which no guard knew
  anything before (\<open>all_ready\<close>), the guards end up as if it had never come: a time-out before the hand-over, a failed handshake, a guard that refuses the
  establishment, a handler that returns, fails, panics or is cut short after any operations; in each
  case every guard counts for the connection what it counted before its reservation.
\<close>

theorem async_connection_gives_everything_back:
  fixes deliver :: "(('t, 's, 'c) transport, 'b) connection \<Rightarrow> handler_run"
  assumes "context_ok ctx" "all_ready ctx st" "gs_reserve std_ops clk ctx st = (Ok ss, st1)"
  shows "map (std_usage ctx) (gs_guards (snd (handle_async_connection std_ops clk1 clk2 deliver config ctx env ss st1))) =
    map (std_usage ctx) (gs_guards st)"
proof -
  obtain r ss2 st2 where m: "mark_established std_ops clk1 ss st1 = (r, ss2, st2)" by (metis surj_pair)
  note returned = guarded_work_gives_back [OF assms m, where ?clk2.0 = clk2]
  have handled: "map (std_usage ctx) (gs_guards (snd (run_handler std_ops clk2 run (attach_guard_session c ss2, st2)))) =
      map (std_usage ctx) (gs_guards st)" for run and c :: "(('t, 's, 'c) transport, 'b) connection"
    by (rule returned(3)) (simp add: attach_guard_session_def with_guard_session_def)
  show ?thesis
  proof (cases "async_transport (effective_mode config) env :: (('t, 's, 'c) transport \<times> bool) outcome")
    case (Ok t)
    then show ?thesis using returned handled m
      by (cases t; cases r) (auto simp: handle_async_connection_def Let_def split_beta)
  qed (use returned(1) in \<open>simp_all add: handle_async_connection_def\<close>)
qed

theorem async_connection_gives_everything_back_witness:
  "\<exists>ss st1. gs_reserve std_ops id (demo_ctx 1) open_stack = (Ok ss, st1) \<and>
     map (std_usage (demo_ctx 1)) (gs_guards (snd (handle_async_connection std_ops id id
        (\<lambda>c :: ((unit, unit, unit) transport, unit) connection.
           \<lparr>hr_operations = [ConnRead id (IoOk [1, 2, 3, 4, 5])], hr_result = Panic ''handler''\<rparr>)
        (server_config_default None) (demo_ctx 1)
        \<lparr>av_socket = (), av_peek = IoOk [], av_accept = Ok (), av_cancelled = False\<rparr> ss st1))) =
     map (std_usage (demo_ctx 1)) (gs_guards open_stack)"
proof -
  obtain ss st1 where r: "gs_reserve std_ops id (demo_ctx 1) open_stack = (Ok ss, st1)" by (rule open_stack_reserves)
  show ?thesis
    using async_connection_gives_everything_back [OF demo_ctx_ok open_stack_ready r] r by blast
qed

text \<open>
  C20. The asynchronous server in every state it can reach, whatever order connections, signals, calls of
  the handlers and ends of tasks come in, with a limit tokio's semaphore takes (below \<open>2 ^ 61\<close>; it
  panics above): the free permits and the running tasks add up to
  \<open>max_connections\<close>; a connection that comes when that many run is turned away without a guard being
  called; the guards are always in a state that accounts for exactly the live sessions; the loop
  never panics. It leaves its loop for a shutdown exactly when the signal is true or all handles are
  gone. With \<open>max_connections\<close> below \<open>2 ^ 32\<close> it then waits exactly while a task runs and returns \<open>Ok\<close>
  once every running task has ended; with a larger limit it does not wait at all, and returns an
  error at once, whatever still runs. When it has returned \<open>Ok\<close> no task runs.
\<close>

theorem async_server_permits_exact:
  assumes "async_serves u config watching sv ph L n" "svc_max_connections config < 2 ^ 61"
  shows "as_permits sv + n = svc_max_connections config \<and>
    (n = svc_max_connections config \<longrightarrow>
       async_turn std_ops config watching now clk (Incoming (IoOk (peer, loc))) sv = (Accepting, NotSpawned, sv)) \<and>
    stack_runs u (svc_guards config) (as_guards sv) L \<and> ph \<noteq> Finished (Panic msg) \<and>
    (fst (async_turn std_ops config watching now clk (Signalled changed) sv) = Draining \<longleftrightarrow>
       watching \<and> changed \<noteq> Some False) \<and>
    (svc_max_connections config < 2 ^ 32 \<longrightarrow>
       (async_shutdown config sv = None \<longleftrightarrow> 0 < n) \<and>
       (length gss = n \<longrightarrow> async_shutdown config (end_all gss sv) = Some (Ok ()))) \<and>
    (2 ^ 32 \<le> svc_max_connections config \<longrightarrow>
       async_shutdown config sv = Some (Err (runtime_error ''max_connections exceeds async shutdown limit''))) \<and>
    (ph = Finished (Ok ()) \<longrightarrow> n = 0)"
  using async_serves_ok [OF assms(1)] assms(2)
  by (auto simp: async_ok_def async_turn_def async_accept_turn_def async_shutdown_def end_all_permits
      simp del: end_all.simps)

theorem async_server_permits_exact_witness:
  "async_shutdown (server_max_connections 1 (server_config_default None))
     (async_server_new 0 (server_max_connections 1 (server_config_default None))) \<noteq> None"
proof -
  let ?c = "server_max_connections 1 (server_config_default None)"
  have "async_serves True ?c True (async_server_new 0 ?c) (async_bind (Some ()) (IoOk ()) (IoOk local_7000)) {#} 0"
    by (rule async_serves.start)
  moreover have "svc_max_connections ?c < 2 ^ 61" by (simp add: server_max_connections_def)
  ultimately have "svc_max_connections ?c < 2 ^ 32 \<longrightarrow> (async_shutdown ?c (async_server_new 0 ?c) = None \<longleftrightarrow> 0 < (0::nat))"
    using async_server_permits_exact by blast
  then show ?thesis by (simp add: server_max_connections_def)
qed

end
