(* ===== verification/Sync_Server.thy ===== *)
theory Sync_Server
  imports Async_Server
begin

text \<open>
  The blocking server (src/src/server/sync_server.rs): its worker pool, the counter of active
  connections, the handling of one connection, and its shutdown, as a transition system in which the
  workers take the queued jobs in order and end them in any order. A job that panics takes its worker
  with it. What the listener delivers to a turn of the loop is an argument.
\<close>

section \<open>One connection\<close>

record ('t, 's) sync_conn_env =
  bv_socket :: 't
  bv_set_read_timeout :: "unit io"
  bv_set_write_timeout :: "unit io"
  bv_peek :: "u8 list io"
  bv_accept :: "'s outcome"

definition peek_is_tls_sync :: "u8 list io \<Rightarrow> bool outcome" where
  "peek_is_tls_sync peeked =
     (case peeked of
        IoOk bytes \<Rightarrow> Ok (length bytes = 1 \<and> bytes ! 0 = 0x16)
      | IoErr msg \<Rightarrow> Err (Io msg))"

definition sync_tls_connection ::
    "server_config \<Rightarrow> guard_context \<Rightarrow> 's \<Rightarrow> ('a, ('t, 's, 'c) sync_transport) connection" where
  "sync_tls_connection config ctx tls_stream =
     (let metadata = server_metadata (gc_peer_addr ctx) (gc_local_addr ctx) True in
      from_sync_server_tls (metadata\<lparr>cm_tls_server_name := tls_server_name (svc_tls config)\<rparr>) tls_stream)"

definition sync_tcp_connection :: "guard_context \<Rightarrow> 't \<Rightarrow> ('a, ('t, 's, 'c) sync_transport) connection" where
  "sync_tcp_connection ctx stream =
     from_sync_tcp (server_metadata (gc_peer_addr ctx) (gc_local_addr ctx) False) stream"

definition sync_connection ::
    "server_config \<Rightarrow> guard_context \<Rightarrow> ('t, 's) sync_conn_env \<Rightarrow> ('a, ('t, 's, 'c) sync_transport) connection outcome" where
  "sync_connection config ctx env =
     (case effective_mode config of
        AcceptTls \<Rightarrow> bind_ok (bv_accept env) (\<lambda>s. Ok (sync_tls_connection config ctx s))
      | AcceptMixed \<Rightarrow>
          bind_ok (peek_is_tls_sync (bv_peek env)) (\<lambda>is_tls.
            if is_tls then bind_ok (bv_accept env) (\<lambda>s. Ok (sync_tls_connection config ctx s))
            else Ok (sync_tcp_connection ctx (bv_socket env)))
      | AcceptTcp \<Rightarrow> Ok (sync_tcp_connection ctx (bv_socket env)))"

definition handle_sync_connection ::
    "'g guard_ops \<Rightarrow> (nat \<Rightarrow> instant) \<Rightarrow> (nat \<Rightarrow> instant) \<Rightarrow> (nat \<Rightarrow> instant) \<Rightarrow>
     (('a, ('t, 's, 'c) sync_transport) connection \<Rightarrow> handler_run) \<Rightarrow> server_config \<Rightarrow> guard_context \<Rightarrow>
     ('t, 's) sync_conn_env \<Rightarrow> 'g guard_stack \<Rightarrow> unit outcome \<times> 'g guard_stack" where
  "handle_sync_connection ops clk clk1 clk2 deliver config ctx env st =
     (case bv_set_read_timeout env of
        IoErr msg \<Rightarrow> (Err (Io msg), st)
      | IoOk _ \<Rightarrow>
     (case bv_set_write_timeout env of
        IoErr msg \<Rightarrow> (Err (Io msg), st)
      | IoOk _ \<Rightarrow>
     (case gs_reserve ops clk ctx st of
        (Err e, st) \<Rightarrow> (Err e, st)
      | (Panic msg, st) \<Rightarrow> (Panic msg, st)
      | (Ok ss, st) \<Rightarrow>
          (case sync_connection config ctx env of
             Err e \<Rightarrow> (Err e, drop_session ops clk2 ss st)
           | Panic msg \<Rightarrow> (Panic msg, drop_session ops clk2 ss st)
           | Ok connection \<Rightarrow>
               (case mark_established ops clk1 ss st of
                  (Err e, ss, st) \<Rightarrow> (Err e, drop_session ops clk2 ss st)
                | (Panic msg, ss, st) \<Rightarrow> (Panic msg, drop_session ops clk2 ss st)
                | (Ok _, ss, st) \<Rightarrow>
                    run_handler ops clk2 (deliver connection) (attach_guard_session connection ss, st))))))"

section \<open>The worker pool and the accept loop\<close>

text \<open>
  A job is the context of its connection; \<open>sy_workers\<close> counts the workers that are alive, and
  \<open>sy_dropped\<close> are the jobs that were dropped with the channel's receiver, unserved.
\<close>

record 'g sync_server =
  sy_active :: usize
  sy_workers :: usize
  sy_queue :: "guard_context list"
  sy_running :: "guard_context multiset"
  sy_dropped :: "guard_context list"
  sy_guards :: "'g guard_stack"

definition pool_size :: "usize \<Rightarrow> usize" where
  "pool_size size' = max size' 1"

definition sync_server_new :: "instant \<Rightarrow> server_config \<Rightarrow> std_guard sync_server" where
  "sync_server_new now config =
     \<lparr>sy_active = 0, sy_workers = pool_size (svc_worker_threads config), sy_queue = [], sy_running = {#},
      sy_dropped = [], sy_guards = build_guard_stack now (svc_guards config)\<rparr>"

text \<open>\<open>execute\<close> sends the job to the workers; the channel is closed when no worker is left.\<close>

definition pool_execute :: "guard_context \<Rightarrow> 'g sync_server \<Rightarrow> unit outcome \<times> 'g sync_server" where
  "pool_execute job sv =
     (if sy_workers sv = 0 then (Err (runtime_error ''sending on a closed channel''), sv)
      else (Ok (), sv\<lparr>sy_queue := sy_queue sv @ [job]\<rparr>))"

text \<open>One accepted connection: queued, dropped for want of room, or the end of \<open>run\<close> with an error.\<close>

datatype turn = Queued | OverLimit | RunFails syn_error

definition sync_accept_turn ::
    "server_config \<Rightarrow> instant \<Rightarrow> socket_addr \<Rightarrow> socket_addr option \<Rightarrow> 'g sync_server \<Rightarrow> turn \<times> 'g sync_server" where
  "sync_accept_turn config now peer_addr local_addr sv =
     (let permit = sy_active sv + 1; sv = sv\<lparr>sy_active := permit\<rparr> in
      if svc_max_connections config < permit then (OverLimit, sv\<lparr>sy_active := sy_active sv - 1\<rparr>)
      else
        let context = guard_context_new now peer_addr local_addr (is_tls_expected config) in
        case pool_execute context sv of
          (Err e, sv) \<Rightarrow> (RunFails e, sv\<lparr>sy_active := sy_active sv - 1\<rparr>)
        | (_, sv) \<Rightarrow> (Queued, sv))"

text \<open>An idle worker takes the first job of the queue.\<close>

definition worker_takes :: "'g sync_server \<Rightarrow> (guard_context \<times> 'g sync_server) option" where
  "worker_takes sv =
     (case sy_queue sv of
        [] \<Rightarrow> None
      | job # jobs \<Rightarrow>
          if size (sy_running sv) < sy_workers sv
          then Some (job, sv\<lparr>sy_queue := jobs, sy_running := add_mset job (sy_running sv)\<rparr>) else None)"

text \<open>
  The end of a job: after \<open>handle_sync_connection\<close> returned the counter goes down; when it panicked
  the closure is unwound past the decrement and the worker's thread ends. The workers alone hold the
  receiver of the channel, so the last of them drops it and with it the jobs still queued, whose
  closures never run and never decrement the counter either.
\<close>

definition job_ends :: "guard_context \<Rightarrow> unit outcome \<times> 'g guard_stack \<Rightarrow> 'g sync_server \<Rightarrow> 'g sync_server" where
  "job_ends job result sv =
     (let sv = sv\<lparr>sy_running := sy_running sv - {#job#}, sy_guards := snd result\<rparr> in
      case fst result of
        Panic _ \<Rightarrow>
          (let sv = sv\<lparr>sy_workers := sy_workers sv - 1\<rparr> in
           if sy_workers sv = 0 then sv\<lparr>sy_queue := [], sy_dropped := sy_dropped sv @ sy_queue sv\<rparr> else sv)
      | _ \<Rightarrow> sv\<lparr>sy_active := sy_active sv - 1\<rparr>)"

text \<open>Shutdown waits until no connection is active: \<open>None\<close> means waiting.\<close>

definition sync_shutdown :: "'g sync_server \<Rightarrow> unit outcome option" where
  "sync_shutdown sv = (if 0 < sy_active sv then None else Some (Ok ()))"

section \<open>The run loop\<close>

text \<open>
  The shutdown flag, and what \<open>accept\<close> answers: a connection, \<open>WouldBlock\<close> (the listener is
  non-blocking exactly when there is a flag to watch; the loop sleeps and polls again) or another error.
\<close>

definition sync_request_shutdown :: "bool \<Rightarrow> bool" where
  "sync_request_shutdown stop = True"

datatype accept_answer = FromPeer socket_addr "socket_addr option" | WouldBlock string | AcceptFails string

definition sync_bind :: "unit option \<Rightarrow> unit io \<Rightarrow> unit io \<Rightarrow> socket_addr io \<Rightarrow> loop_phase" where
  "sync_bind listener bound nonblocking local_addr =
     (case (case listener of Some l \<Rightarrow> IoOk l | None \<Rightarrow> bound) of
        IoErr msg \<Rightarrow> Finished (Err (Io msg))
      | IoOk _ \<Rightarrow>
          (case nonblocking of
             IoErr msg \<Rightarrow> Finished (Err (Io msg))
           | IoOk _ \<Rightarrow> (case local_addr of IoErr msg \<Rightarrow> Finished (Err (Io msg)) | IoOk _ \<Rightarrow> Accepting)))"

text \<open>\<open>shutdown\<close> is the flag as this turn reads it, \<open>None\<close> for a server without one.\<close>

definition sync_turn ::
    "server_config \<Rightarrow> bool option \<Rightarrow> instant \<Rightarrow> accept_answer \<Rightarrow> 'g sync_server \<Rightarrow> loop_phase \<times> 'g sync_server" where
  "sync_turn config shutdown now answer sv =
     (if shutdown = Some True then (Draining, sv)
      else
        case answer of
          WouldBlock msg \<Rightarrow>
            if shutdown \<noteq> None then (Accepting, sv) else (Finished (Err (Io msg)), sv)
        | AcceptFails msg \<Rightarrow> (Finished (Err (Io msg)), sv)
        | FromPeer peer_addr local_addr \<Rightarrow>
            (case sync_accept_turn config now peer_addr local_addr sv of
               (RunFails e, sv) \<Rightarrow> (Finished (Err e), sv)
             | (_, sv) \<Rightarrow> (Accepting, sv)))"

text \<open>
  When \<open>run_internal\<close> is left the pool is dropped: the channel is closed and every worker is joined. A
  worker leaves its loop when it finds the closed channel empty. \<open>None\<close> means waiting.
\<close>

definition pool_joined :: "'g sync_server \<Rightarrow> bool" where
  "pool_joined sv \<longleftrightarrow> sy_running sv = {#} \<and> sy_queue sv = []"

definition sync_run_returns :: "loop_phase \<Rightarrow> 'g sync_server \<Rightarrow> unit outcome option" where
  "sync_run_returns ph sv =
     (case ph of Finished r \<Rightarrow> if pool_joined sv then Some r else None | _ \<Rightarrow> None)"

section \<open>Reachable states\<close>

text \<open>\<open>stop\<close> is the shutdown flag, \<open>k\<close> counts the jobs that panicked.\<close>

inductive sync_serves ::
    "server_config \<Rightarrow> bool \<Rightarrow> std_guard sync_server \<Rightarrow> loop_phase \<Rightarrow> bool \<Rightarrow> nat \<Rightarrow> bool"
  for config :: server_config and watching :: bool where
  start: "sync_serves config watching (sync_server_new now config) (sync_bind listener bound nonblocking addr) False 0"
| requested: "sync_serves config watching sv ph stop k \<Longrightarrow>
    sync_serves config watching sv ph (sync_request_shutdown stop) k"
| turned: "sync_serves config watching sv Accepting stop k \<Longrightarrow>
    sync_turn config (if watching then Some stop else None) now answer sv = (ph, sv') \<Longrightarrow>
    sync_serves config watching sv' ph stop k"
| taken: "sync_serves config watching sv ph stop k \<Longrightarrow> worker_takes sv = Some (job, sv') \<Longrightarrow>
    sync_serves config watching sv' ph stop k"
| worked: "sync_serves config watching sv ph stop k \<Longrightarrow>
    sync_serves config watching (sv\<lparr>sy_guards := gs\<rparr>) ph stop k"
| ended: "sync_serves config watching sv ph stop k \<Longrightarrow> job \<in># sy_running sv \<Longrightarrow>
    sync_serves config watching (job_ends job result sv) ph stop (case fst result of Panic _ \<Rightarrow> Suc k | _ \<Rightarrow> k)"
| drained: "sync_serves config watching sv Draining stop k \<Longrightarrow> sync_shutdown sv = Some r \<Longrightarrow>
    sync_serves config watching sv (Finished r) stop k"

definition sync_inv :: "server_config \<Rightarrow> 'g sync_server \<Rightarrow> nat \<Rightarrow> bool" where
  "sync_inv config sv k \<longleftrightarrow>
     sy_active sv = length (sy_queue sv) + size (sy_running sv) + length (sy_dropped sv) + k \<and>
     (sy_workers sv = 0 \<longrightarrow> sy_queue sv = []) \<and> (0 < sy_workers sv \<longrightarrow> sy_dropped sv = []) \<and>
     size (sy_running sv) \<le> sy_workers sv \<and>
     sy_workers sv + k = pool_size (svc_worker_threads config) \<and>
     sy_active sv \<le> svc_max_connections config"

lemma accept_turn_inv:
  "sync_inv config sv k \<Longrightarrow> sync_accept_turn config now peer loc sv = (t, sv') \<Longrightarrow> sync_inv config sv' k"
  by (auto simp: sync_inv_def sync_accept_turn_def pool_execute_def Let_def split: if_splits)

lemma worker_takes_inv: "sync_inv config sv k \<Longrightarrow> worker_takes sv = Some (job, sv') \<Longrightarrow> sync_inv config sv' k"
  by (auto simp: sync_inv_def worker_takes_def split: list.splits if_splits)

lemma job_ends_inv:
  assumes "sync_inv config sv k" "job \<in># sy_running sv"
  shows "sync_inv config (job_ends job result sv) (case fst result of Panic _ \<Rightarrow> Suc k | _ \<Rightarrow> k)"
proof -
  obtain n where "size (sy_running sv) = Suc n" using assms(2) by (metis multi_member_split size_add_mset)
  then show ?thesis
    using assms by (auto simp: sync_inv_def job_ends_def Let_def size_Diff_singleton split: outcome.splits)
qed

lemma sync_turn_inv:
  assumes "sync_inv config sv k" "sync_turn config shutdown now answer sv = (ph, sv')"
  shows "sync_inv config sv' k"
proof (cases answer)
  case (FromPeer peer loc)
  obtain t sv1 where "sync_accept_turn config now peer loc sv = (t, sv1)" by fastforce
  then show ?thesis using assms FromPeer accept_turn_inv [OF assms(1), of now peer loc t sv1]
    by (auto simp: sync_turn_def split: if_splits turn.splits)
qed (use assms in \<open>auto simp: sync_turn_def split: if_splits\<close>)

lemma sync_turn_drains: "sync_turn config shutdown now answer sv = (ph, sv') \<Longrightarrow>
    (ph = Draining \<longrightarrow> shutdown = Some True) \<and> ph \<noteq> Finished (Ok ())"
  by (auto simp: sync_turn_def split: if_splits accept_answer.splits turn.splits prod.splits)

lemma sync_turn_draining: "fst (sync_turn config shutdown now answer sv) = Draining \<longleftrightarrow> shutdown = Some True"
proof
  assume "fst (sync_turn config shutdown now answer sv) = Draining"
  then obtain sv' where "sync_turn config shutdown now answer sv = (Draining, sv')" by (metis prod.collapse)
  then show "shutdown = Some True" using sync_turn_drains by blast
qed (simp add: sync_turn_def)

definition drain_ok :: "bool \<Rightarrow> 'g sync_server \<Rightarrow> loop_phase \<Rightarrow> bool \<Rightarrow> bool" where
  "drain_ok watching sv ph stop \<longleftrightarrow>
     (ph = Draining \<or> ph = Finished (Ok ()) \<longrightarrow> watching \<and> stop) \<and> (ph = Finished (Ok ()) \<longrightarrow> sy_active sv = 0)"

lemma sync_serves_inv: "sync_serves config watching sv ph stop k \<Longrightarrow> sync_inv config sv k \<and> drain_ok watching sv ph stop"
proof (induction rule: sync_serves.induct)
  case (start now listener bound nonblocking addr)
  show ?case
    by (auto simp: sync_inv_def drain_ok_def sync_server_new_def sync_bind_def split: io.splits option.splits)
next
  case (turned sv stop k now answer ph sv')
  then show ?case using sync_turn_inv [OF _ turned.hyps(2)] sync_turn_drains [OF turned.hyps(2)]
    by (auto simp: drain_ok_def split: if_splits)
next
  case (taken sv ph stop k job sv')
  then have "sync_inv config sv' k" using worker_takes_inv by blast
  moreover have "sy_active sv' = sy_active sv"
    using taken.hyps(2) by (auto simp: worker_takes_def split: list.splits if_splits)
  ultimately show ?case using taken.IH by (simp add: drain_ok_def)
next
  case (ended sv ph stop k job result)
  then have inv: "sync_inv config (job_ends job result sv) (case fst result of Panic _ \<Rightarrow> Suc k | _ \<Rightarrow> k)"
    using job_ends_inv by blast
  have "sy_active (job_ends job result sv) \<le> sy_active sv"
    by (auto simp: job_ends_def Let_def split: outcome.splits)
  then show ?case using inv ended.IH by (auto simp: drain_ok_def)
qed (auto simp: sync_inv_def drain_ok_def sync_request_shutdown_def sync_shutdown_def split: if_splits)

section \<open>Properties\<close>

text \<open>
  A connection of the blocking server leaves no trace in the guards either: time-outs that cannot
  be set, a refused reservation, a failed detection or handshake, a handler that returns, fails or
  panics; in each case every guard counts for it afterwards what it counted before.
\<close>

theorem sync_connection_gives_everything_back:
  fixes deliver :: "('a, ('t, 's, 'c) sync_transport) connection \<Rightarrow> handler_run"
  assumes "context_ok ctx" "all_ready ctx st"
  shows "map (std_usage ctx) (gs_guards (snd (handle_sync_connection std_ops clk clk1 clk2 deliver config ctx env st))) =
    map (std_usage ctx) (gs_guards st)"
proof -
  obtain r st1 where r: "gs_reserve std_ops clk ctx st = (r, st1)" by fastforce
  note refused = std.gs_reserve_refused [OF assms(1) assms(2) [unfolded all_ready_def] r]
  show ?thesis
  proof (cases r)
    case (Ok ss)
    obtain e ss2 st2 where m: "mark_established std_ops clk1 ss st1 = (e, ss2, st2)" by (metis surj_pair)
    note returned = guarded_work_gives_back [OF assms r [unfolded Ok] m, where ?clk2.0 = clk2]
    have handled: "map (std_usage ctx) (gs_guards (snd (run_handler std_ops clk2 run (attach_guard_session c ss2, st2)))) =
        map (std_usage ctx) (gs_guards st)" for run and c :: "('a, ('t, 's, 'c) sync_transport) connection"
      by (rule returned(3)) (simp add: attach_guard_session_def with_guard_session_def)
    show ?thesis using r Ok m returned handled
      by (cases "sync_connection config ctx env :: ('a, ('t, 's, 'c) sync_transport) connection outcome"; cases e)
        (auto simp: handle_sync_connection_def split: io.splits)
  qed (use r refused in \<open>auto simp: handle_sync_connection_def split: io.splits\<close>)
qed

theorem sync_connection_gives_everything_back_witness:
  "map (std_usage (demo_ctx 1)) (gs_guards (snd (handle_sync_connection std_ops id id id
      (\<lambda>c :: (unit, (unit, unit, unit) sync_transport) connection.
         \<lparr>hr_operations = [], hr_result = Panic ''handler''\<rparr>)
      (server_config_default None) (demo_ctx 1)
      \<lparr>bv_socket = (), bv_set_read_timeout = IoOk (), bv_set_write_timeout = IoOk (), bv_peek = IoOk [], bv_accept = Ok ()\<rparr>
      open_stack))) = map (std_usage (demo_ctx 1)) (gs_guards open_stack)"
  by (rule sync_connection_gives_everything_back) simp_all

text \<open>
  C19. The blocking server in every state it can reach. Its counter counts what it should only as long as
  no handler panics: it is the number of queued and running jobs plus the number \<open>k\<close> of jobs that ever
  panicked, and of those that were dropped unserved when the last worker had died of a panic; it is at
  most \<open>max_connections\<close>, and at most the living workers are busy; when \<open>max_connections\<close>
  jobs have panicked every connection is turned away. A shutdown that was asked for ends the loop at
  its next turn, and nothing else starts one; it then waits for the queued and running jobs, and for
  ever once a job has panicked; when it returns \<open>Ok\<close> no job is left and all workers can be joined. A
  queue never stands still while a worker lives.
\<close>

theorem sync_server_panics_leak_slots:
  assumes "sync_serves config watching sv ph stop k"
  shows "sy_active sv = length (sy_queue sv) + size (sy_running sv) + length (sy_dropped sv) + k \<and>
    (sy_workers sv = 0 \<longrightarrow> sy_queue sv = []) \<and> (0 < sy_workers sv \<longrightarrow> sy_dropped sv = []) \<and>
    sy_active sv \<le> svc_max_connections config \<and>
    size (sy_running sv) \<le> sy_workers sv \<and> sy_workers sv + k = pool_size (svc_worker_threads config) \<and>
    (k = svc_max_connections config \<longrightarrow> sync_accept_turn config now peer loc sv = (OverLimit, sv)) \<and>
    (fst (sync_turn config shutdown now answer sv) = Draining \<longleftrightarrow> shutdown = Some True) \<and>
    (ph = Draining \<longrightarrow> watching \<and> stop) \<and>
    (sync_shutdown sv = None \<longleftrightarrow> sy_queue sv \<noteq> [] \<or> sy_running sv \<noteq> {#} \<or> 0 < k) \<and>
    (ph = Finished (Ok ()) \<longrightarrow> watching \<and> stop \<and> k = 0 \<and> sync_run_returns ph sv = Some (Ok ())) \<and>
    (sy_queue sv \<noteq> [] \<and> sy_running sv = {#} \<and> 0 < sy_workers sv \<longrightarrow> worker_takes sv \<noteq> None)"
proof -
  have inv: "sync_inv config sv k" "drain_ok watching sv ph stop" using sync_serves_inv [OF assms] by auto
  have "fst (sync_turn config shutdown now answer sv) = Draining \<longleftrightarrow> shutdown = Some True"
    by (rule sync_turn_draining)
  moreover have "ph = Finished (Ok ()) \<longrightarrow> k = 0 \<and> sync_run_returns ph sv = Some (Ok ())"
    using inv by (auto simp: sync_inv_def drain_ok_def sync_run_returns_def pool_joined_def)
  moreover have "sync_shutdown sv = None \<longleftrightarrow> sy_queue sv \<noteq> [] \<or> sy_running sv \<noteq> {#} \<or> 0 < k"
    using inv(1) by (auto simp: sync_inv_def sync_shutdown_def nonempty_has_size pool_size_def)
  moreover have "k = svc_max_connections config \<longrightarrow> sync_accept_turn config now peer loc sv = (OverLimit, sv)"
    using inv(1) by (auto simp: sync_inv_def sync_accept_turn_def Let_def)
  moreover have "sy_queue sv \<noteq> [] \<and> sy_running sv = {#} \<and> 0 < sy_workers sv \<longrightarrow> worker_takes sv \<noteq> None"
    by (auto simp: worker_takes_def split: list.splits)
  ultimately show ?thesis using inv by (simp add: sync_inv_def drain_ok_def)
qed

definition one_worker :: server_config where
  "one_worker = server_worker_threads 1 (server_max_connections 1 (server_config_default None))"

text \<open>One panicking job, and the server with one slot never serves again.\<close>

theorem sync_server_panics_leak_slots_witness:
  "\<exists>sv :: std_guard sync_server. sync_serves one_worker True sv Accepting False 1 \<and> sync_shutdown sv = None \<and>
     sync_accept_turn one_worker 0 (gc_peer_addr (demo_ctx 2)) None sv = (OverLimit, sv)"
proof -
  let ?s0 = "sync_server_new 0 one_worker"
  let ?job = "guard_context_new 0 (gc_peer_addr (demo_ctx 1)) None (is_tls_expected one_worker)"
  let ?s1 = "?s0\<lparr>sy_active := 1, sy_queue := [?job]\<rparr>"
  let ?s2 = "?s1\<lparr>sy_queue := [], sy_running := {#?job#}\<rparr>"
  let ?in = "FromPeer (gc_peer_addr (demo_ctx 1)) None"
  have "sync_serves one_worker True ?s0 (sync_bind (Some ()) (IoOk ()) (IoOk ()) (IoOk local_7000)) False 0"
    by (rule sync_serves.start)
  then have "sync_serves one_worker True ?s0 Accepting False 0" by (simp add: sync_bind_def)
  moreover have "sync_turn one_worker (if True then Some False else None) 0 ?in ?s0 = (Accepting, ?s1)"
    by (simp add: sync_turn_def sync_accept_turn_def pool_execute_def sync_server_new_def one_worker_def
        server_max_connections_def server_worker_threads_def pool_size_def Let_def)
  ultimately have "sync_serves one_worker True ?s1 Accepting False 0" by (rule sync_serves.turned)
  moreover have "worker_takes ?s1 = Some (?job, ?s2)"
    by (simp add: worker_takes_def sync_server_new_def pool_size_def)
  ultimately have "sync_serves one_worker True ?s2 Accepting False 0" by (rule sync_serves.taken)
  from sync_serves.ended [OF this, of ?job "(Panic ''handler'', sy_guards ?s2)"]
  have s3: "sync_serves one_worker True (job_ends ?job (Panic ''handler'', sy_guards ?s2) ?s2) Accepting False 1" by simp
  have "svc_max_connections one_worker = 1"
    by (simp add: one_worker_def server_worker_threads_def server_max_connections_def)
  then show ?thesis using s3 sync_server_panics_leak_slots [OF s3] by auto
qed

lemma peek_one: "length bs = 1 \<and> bs ! 0 = 0x16 \<longleftrightarrow> bs = [0x16]" for bs :: "u8 list"
  by (cases bs) auto

lemma peek_async: "peek_is_tls_async r \<longleftrightarrow> r = IoOk [0x16]"
  by (cases r) (simp_all only: peek_is_tls_async_def io.case peek_one io.inject io.distinct)

lemma peek_sync: "peek_is_tls_sync r = Ok b \<longleftrightarrow> (\<exists>bs. r = IoOk bs) \<and> (b \<longleftrightarrow> r = IoOk [0x16])"
  by (cases r) (auto simp only: peek_is_tls_sync_def io.case peek_one io.inject io.distinct outcome.inject
      outcome.distinct)

text \<open>
  Whether a connection is to be encrypted, by the configuration and the peeked byte: what the settings
  promise, stated without the mode the handlers compute from them.
\<close>

definition tls_decision :: "server_config \<Rightarrow> u8 list io \<Rightarrow> bool" where
  "tls_decision config peeked \<longleftrightarrow>
     (if svc_accept_mode config = AcceptMixed then peeked = IoOk [0x16]
      else tls_enabled (svc_tls config) \<or> svc_accept_mode config = AcceptTls)"

lemma effective_mode_iff:
  "effective_mode config = AcceptMixed \<longleftrightarrow> svc_accept_mode config = AcceptMixed"
  "effective_mode config = AcceptTls \<longleftrightarrow>
     svc_accept_mode config \<noteq> AcceptMixed \<and> (tls_enabled (svc_tls config) \<or> svc_accept_mode config = AcceptTls)"
  "effective_mode config = AcceptTcp \<longleftrightarrow> svc_accept_mode config = AcceptTcp \<and> \<not> tls_enabled (svc_tls config)"
  by (auto simp: effective_mode_def intro: accept_mode.exhaust)

lemma tls_decision_mode:
  "tls_decision config peeked =
     (case effective_mode config of AcceptTls \<Rightarrow> True | AcceptTcp \<Rightarrow> False | AcceptMixed \<Rightarrow> peeked = IoOk [0x16])"
  using effective_mode_iff [of config] by (auto simp: tls_decision_def split: accept_mode.split)

lemma async_transport_mode:
  "async_transport (effective_mode config) env = Ok (stream, is_tls) \<Longrightarrow>
   transport_is_tls stream = is_tls \<and> is_tls = tls_decision config (av_peek env)"
  by (auto simp: async_transport_def tls_decision_mode bind_ok_Ok peek_async split: accept_mode.splits if_splits)

lemma sync_connection_made:
  assumes "sync_connection config ctx env = Ok c"
  shows "(if tls_decision config (bv_peek env) then \<exists>s. c = sync_tls_connection config ctx s
    else c = sync_tcp_connection ctx (bv_socket env))"
  using assms by (auto simp: sync_connection_def tls_decision_mode bind_ok_Ok peek_sync
      split: accept_mode.splits if_splits)

lemma sync_connection_flags:
  fixes s :: 's and sock :: 't and ctx :: guard_context and config :: server_config
  defines "c1 \<equiv> sync_tls_connection config ctx s :: (('t, 's, 'c) transport, ('t, 's, 'c) sync_transport) connection"
    and "c2 \<equiv> sync_tcp_connection ctx sock :: (('t, 's, 'c) transport, ('t, 's, 'c) sync_transport) connection"
  shows "cm_tls (cn_metadata c1)" "conn_is_tls c1" "cm_tls_server_name (cn_metadata c1) = tls_server_name (svc_tls config)"
    "\<not> cm_tls (cn_metadata c2)" "\<not> conn_is_tls c2"
  by (simp_all add: c1_def c2_def sync_tls_connection_def sync_tcp_connection_def from_sync_server_tls_def
      from_sync_tcp_def from_sync_stream_def server_metadata_def connection_metadata_new_def conn_is_tls_def Let_def)

lemma sync_connection_mode:
  fixes c :: "(('t, 's, 'c) transport, ('t, 's, 'c) sync_transport) connection"
  assumes "sync_connection config ctx env = Ok c"
  shows "cm_tls (cn_metadata c) = conn_is_tls c \<and>
    (conn_is_tls c \<longrightarrow> cm_tls_server_name (cn_metadata c) = tls_server_name (svc_tls config)) \<and>
    conn_is_tls c = tls_decision config (bv_peek env)"
  using sync_connection_made [OF assms] by (auto simp: sync_connection_flags split: if_splits)

lemma async_connection_metadata:
  "cm_tls (cn_metadata (async_connection config ctx stream is_tls)) = is_tls"
  "is_tls \<longrightarrow> cm_tls_server_name (cn_metadata (async_connection config ctx stream is_tls)) = tls_server_name (svc_tls config)"
  by (simp_all add: async_connection_def from_async_stream_def server_metadata_def connection_metadata_new_def Let_def)

text \<open>
  C37. The accept mode decides what the handler sees, in both servers. Unless the mode is mixed, every
  connection a handler gets is TLS when \<open>tls.enabled\<close> is set or the mode is TLS, either of the two
  being enough, and none is otherwise; in mixed mode, whatever \<open>tls.enabled\<close> says, a connection is TLS
  exactly when the one peeked byte is \<open>0x16\<close>. The flag in the metadata is true exactly for a TLS
  stream, and then the metadata carry the configured server name. When peeking fails, the
  asynchronous server goes on with a plain stream, and the blocking one closes the connection.
\<close>

theorem accept_mode_decides:
  fixes env :: "('t, 's) async_conn_env" and env' :: "('t, 's) sync_conn_env"
    and stream :: "('t, 's, 'c) transport"
    and c :: "(('t, 's, 'c) transport, ('t, 's, 'c) sync_transport) connection"
  shows "(async_transport (effective_mode config) env = Ok (stream, is_tls) \<longrightarrow>
     cm_tls (cn_metadata (async_connection config ctx stream is_tls)) = is_tls \<and> transport_is_tls stream = is_tls \<and>
     (is_tls \<longrightarrow> cm_tls_server_name (cn_metadata (async_connection config ctx stream is_tls)) =
        tls_server_name (svc_tls config)) \<and>
     is_tls = tls_decision config (av_peek env)) \<and>
   (sync_connection config ctx env' = Ok c \<longrightarrow>
     cm_tls (cn_metadata c) = conn_is_tls c \<and>
     (conn_is_tls c \<longrightarrow> cm_tls_server_name (cn_metadata c) = tls_server_name (svc_tls config)) \<and>
     conn_is_tls c = tls_decision config (bv_peek env')) \<and>
   (tls_enabled (svc_tls config) \<longrightarrow> effective_mode config \<noteq> AcceptTcp) \<and>
   (effective_mode config = AcceptMixed \<longleftrightarrow> svc_accept_mode config = AcceptMixed) \<and>
   (effective_mode config = AcceptTls \<longleftrightarrow>
     svc_accept_mode config \<noteq> AcceptMixed \<and> (tls_enabled (svc_tls config) \<or> svc_accept_mode config = AcceptTls)) \<and>
   (effective_mode config = AcceptMixed \<longrightarrow>
     async_transport AcceptMixed (env\<lparr>av_peek := IoErr msg\<rparr>) = Ok (TcpStream (av_socket env) :: ('t, 's, 'c) transport, False) \<and>
     sync_connection config ctx (env'\<lparr>bv_peek := IoErr msg\<rparr>) =
       (Err (Io msg) :: (('t, 's, 'c) transport, ('t, 's, 'c) sync_transport) connection outcome))"
  using async_transport_mode [of config env stream is_tls] sync_connection_mode [of config ctx env' c]
    effective_mode_iff [of config]
  by (auto simp: async_connection_metadata async_transport_def sync_connection_def
      peek_is_tls_async_def peek_is_tls_sync_def)

theorem accept_mode_decides_witness:
  "effective_mode (server_tls (build_enabled True tls_builder) (server_config_default None)) \<noteq> AcceptTcp"
proof -
  have "tls_enabled (svc_tls (server_tls (build_enabled True tls_builder) (server_config_default None)))"
    by (simp add: server_tls_def build_enabled_def)
  then show ?thesis using accept_mode_decides by blast
qed

end
