(* ===== verification/Client.thy ===== *)
theory Client
  imports Tls
begin

text \<open>
  The clients (src/src/client): connecting to the configured address, with TLS when it is enabled. What
  the operating system and the TLS library answer is an argument; an attempt of the asynchronous
  client that outlasts the time-out is cut short.
\<close>

definition client_metadata :: "socket_addr \<Rightarrow> socket_addr option \<Rightarrow> bool \<Rightarrow> connection_metadata" where
  "client_metadata peer_addr local_addr tls = connection_metadata_new peer_addr local_addr tls"

text \<open>The answers: the socket, its addresses, setting the time-outs, the handshake or session.\<close>

record ('t, 'c) connect_env =
  ce_connect :: "'t io"
  ce_set_read_timeout :: "unit io"
  ce_set_write_timeout :: "unit io"
  ce_local_addr :: "socket_addr io"
  ce_peer_addr :: "socket_addr io"
  ce_tls :: "'c outcome"

definition known_addr :: "socket_addr io \<Rightarrow> socket_addr option" where
  "known_addr r = (case r of IoOk a \<Rightarrow> Some a | IoErr _ \<Rightarrow> None)"

definition connect_inner ::
    "client_config \<Rightarrow> ('t, 'c) connect_env \<Rightarrow> (('t, 's, 'c) transport, 'b) connection outcome" where
  "connect_inner config env =
     bind_ok (of_io Io (ce_connect env)) (\<lambda>stream.
     let local_addr = known_addr (ce_local_addr env) in
     bind_ok (of_io Io (ce_peer_addr env)) (\<lambda>peer_addr.
       if tls_enabled (clc_tls config) then
         bind_ok (ce_tls env) (\<lambda>tls_stream.
           let metadata = connection_metadata_new peer_addr local_addr True in
           Ok (from_client_tls (metadata\<lparr>cm_tls_server_name := tls_server_name (clc_tls config)\<rparr>) tls_stream))
       else Ok (from_async_tcp (connection_metadata_new peer_addr local_addr False) stream)))"

definition connection_timed_out :: "socket_addr \<Rightarrow> duration \<Rightarrow> syn_error" where
  "connection_timed_out addr d =
     connection_error (''connection to '' @ display_socket addr @ '' timed out after '' @ debug_duration d)"

definition async_connect ::
    "client_config \<Rightarrow> bool \<Rightarrow> ('t, 'c) connect_env \<Rightarrow> (('t, 's, 'c) transport, 'b) connection outcome" where
  "async_connect config elapsed env =
     (if elapsed then Err (connection_timed_out (clc_connect_addr config) (clc_connection_timeout config))
      else connect_inner config env)"

definition sync_connect ::
    "client_config \<Rightarrow> ('t, 'c) connect_env \<Rightarrow> ('a, ('t, 's, 'c) sync_transport) connection outcome" where
  "sync_connect config env =
     bind_ok (of_io Io (ce_connect env)) (\<lambda>stream.
     bind_ok (of_io Io (ce_set_read_timeout env)) (\<lambda>_.
     bind_ok (of_io Io (ce_set_write_timeout env)) (\<lambda>_.
     let local_addr = known_addr (ce_local_addr env) in
     bind_ok (of_io Io (ce_peer_addr env)) (\<lambda>peer_addr.
       if tls_enabled (clc_tls config) then
         bind_ok (ce_tls env) (\<lambda>tls_stream.
           let metadata = connection_metadata_new peer_addr local_addr True in
           Ok (from_sync_client_tls (metadata\<lparr>cm_tls_server_name := tls_server_name (clc_tls config)\<rparr>) tls_stream))
       else Ok (from_sync_tcp (connection_metadata_new peer_addr local_addr False) stream)))))"

lemmas connect_defs = connect_inner_def async_connect_def sync_connect_def from_client_tls_def
  from_async_tcp_def from_sync_client_tls_def from_sync_tcp_def from_async_stream_def from_sync_stream_def
  connection_metadata_new_def

lemma returned_connection:
  fixes c :: "(('t, 's, 'c) transport, ('t, 's, 'c) sync_transport) connection"
  assumes "async_connect config elapsed env = Ok c \<or> sync_connect config env = Ok c"
  shows "conn_is_tls c = tls_enabled (clc_tls config) \<and> cm_tls (cn_metadata c) = tls_enabled (clc_tls config) \<and>
    (tls_enabled (clc_tls config) \<longrightarrow> cm_tls_server_name (cn_metadata c) = tls_server_name (clc_tls config) \<and>
      (\<exists>s. ce_tls env = Ok s)) \<and>
    ce_peer_addr env = IoOk (cm_peer_addr (cn_metadata c)) \<and> cn_guard_session c = None"
  using assms
  by (auto simp: connect_defs bind_ok_Ok of_io_Ok conn_is_tls_def Let_def split: if_splits)

text \<open>The answers of the operating system when all is well, whatever TLS then says.\<close>

definition reachable :: "('t, 'c) connect_env \<Rightarrow> bool" where
  "reachable env \<longleftrightarrow>
     is_ok (of_io Io (ce_connect env)) \<and> ce_set_read_timeout env = IoOk () \<and> ce_set_write_timeout env = IoOk () \<and>
     is_ok (of_io Io (ce_peer_addr env))"

lemma failed_handshake:
  assumes "tls_enabled (clc_tls config)" "ce_tls env = Err e" "reachable env"
  shows "async_connect config False env = Err e" "sync_connect config env = Err e"
  using assms by (auto simp: reachable_def is_ok_def connect_defs Let_def split: outcome.splits)

lemma never_panics:
  assumes "\<And>msg. ce_tls env \<noteq> Panic msg"
  shows "async_connect config elapsed env \<noteq> Panic msg" "sync_connect config env \<noteq> Panic msg"
  using assms by (auto simp: connect_defs Let_def bind_ok_def of_io_def split: outcome.splits io.splits if_splits)

text \<open>
  C39. A client never falls back to plain text: when a connection of either client is returned, its
  stream is TLS exactly when TLS is enabled in the configuration, the metadata say so and carry the
  configured server name, the peer address is the one the socket reports, and no guard session is
  attached. When TLS is enabled and the socket could be connected, but the handshake or the session
  fails with an error, both clients return that very error, the asynchronous one unless its time-out
  came first, which it then reports; and however the socket's calls end, neither client panics unless the TLS library does.
\<close>

theorem client_never_downgrades:
  fixes c :: "(('t, 's, 'c) transport, ('t, 's, 'c) sync_transport) connection"
  shows "(async_connect config elapsed env = Ok c \<or> sync_connect config env = Ok c \<longrightarrow>
      conn_is_tls c = tls_enabled (clc_tls config) \<and> cm_tls (cn_metadata c) = tls_enabled (clc_tls config) \<and>
      (tls_enabled (clc_tls config) \<longrightarrow> cm_tls_server_name (cn_metadata c) = tls_server_name (clc_tls config) \<and>
        (\<exists>s. ce_tls env = Ok s)) \<and>
      ce_peer_addr env = IoOk (cm_peer_addr (cn_metadata c)) \<and> cn_guard_session c = None) \<and>
    (tls_enabled (clc_tls config) \<and> ce_tls env = Err e \<and> reachable env \<longrightarrow>
      async_connect config False env =
        (Err e :: (('t, 's, 'c) transport, ('t, 's, 'c) sync_transport) connection outcome) \<and>
      sync_connect config env =
        (Err e :: (('t, 's, 'c) transport, ('t, 's, 'c) sync_transport) connection outcome)) \<and>
    async_connect config True env =
      (Err (connection_timed_out (clc_connect_addr config) (clc_connection_timeout config)) ::
        (('t, 's, 'c) transport, ('t, 's, 'c) sync_transport) connection outcome) \<and>
    ((\<forall>msg. ce_tls env \<noteq> Panic msg) \<longrightarrow>
      (\<forall>msg. async_connect config elapsed env \<noteq>
          (Panic msg :: (('t, 's, 'c) transport, ('t, 's, 'c) sync_transport) connection outcome) \<and>
        sync_connect config env \<noteq>
          (Panic msg :: (('t, 's, 'c) transport, ('t, 's, 'c) sync_transport) connection outcome)))"
  using returned_connection [of config elapsed env c] failed_handshake [of config env e]
  by (intro conjI impI allI never_panics) (simp_all add: async_connect_def)

theorem client_never_downgrades_witness:
  "\<exists>c :: ((unit, unit, unit) transport, (unit, unit, unit) sync_transport) connection.
     sync_connect (client_tls (build_enabled True tls_builder) client_builder)
       \<lparr>ce_connect = IoOk (), ce_set_read_timeout = IoOk (), ce_set_write_timeout = IoOk (), ce_local_addr = IoErr ''none'',
        ce_peer_addr = IoOk local_7000, ce_tls = Ok ()\<rparr> = Ok c \<and> conn_is_tls c"
proof -
  let ?config = "client_tls (build_enabled True tls_builder) client_builder"
  let ?env = "\<lparr>ce_connect = IoOk (), ce_set_read_timeout = IoOk (), ce_set_write_timeout = IoOk (),
    ce_local_addr = IoErr ''none'', ce_peer_addr = IoOk local_7000, ce_tls = Ok ()\<rparr>"
  have on: "tls_enabled (clc_tls ?config)" by (simp add: client_tls_def build_enabled_def)
  then have "\<exists>c. sync_connect ?config ?env =
      (Ok c :: ((unit, unit, unit) transport, (unit, unit, unit) sync_transport) connection outcome)"
    by (simp add: connect_defs Let_def)
  then show ?thesis using client_never_downgrades [of ?config _ ?env] on by blast
qed

end
