(* ===== verification/Echo_Handlers.thy ===== *)
theory Echo_Handlers
  imports Sync_Server Client
begin

text \<open>
  The echo handlers of the example programs (src/examples), asynchronous and blocking, and the
  clients that talk to them. What the socket delivers to a read and does with a write is a list of
  turns, one for each round of the handler's loop; a handler whose turns are used up is still
  waiting, and its result is \<open>None\<close>. A read delivers at most the buffer's length; nothing here
  depends on that length.
\<close>

section \<open>The asynchronous handlers\<close>

text \<open>\<open>write_all\<close>: everything taken, or an error after some bytes.\<close>

datatype written = WroteAll | WriteFailed nat string

fun written_io :: "written \<Rightarrow> unit io" where
  "written_io WroteAll = IoOk ()"
| "written_io (WriteFailed k msg) = IoErr msg"

fun sent_bytes :: "written \<Rightarrow> 'x list \<Rightarrow> 'x list" where
  "sent_bytes WroteAll bs = bs"
| "sent_bytes (WriteFailed k msg) bs = take k bs"

record echo_turn =
  et_read_clk :: "nat \<Rightarrow> instant"
  et_read :: "u8 list io"
  et_write_clk :: "nat \<Rightarrow> instant"
  et_write :: written

text \<open>
  The loop: how it ends, the bytes it sent back, and the connection with the guards. An error of
  \<open>read\<close> ends it with the result \<open>read_error\<close> says: the error itself (\<open>?\<close>) or, in most examples,
  \<open>Ok\<close> after a line on the terminal.
\<close>

fun async_echo :: "(syn_error \<Rightarrow> unit outcome) \<Rightarrow> 'g guard_ops \<Rightarrow> echo_turn list \<Rightarrow> ('a, 'b, 'g) conn_state \<Rightarrow>
    unit outcome option \<times> u8 list \<times> ('a, 'b, 'g) conn_state" where
  "async_echo read_error ops [] cst = (None, [], cst)"
| "async_echo read_error ops (t # ts) cst =
     (case conn_read ops (et_read_clk t) (et_read t) cst of
        (Err e, cst) \<Rightarrow> (Some (read_error e), [], cst)
      | (Panic msg, cst) \<Rightarrow> (Some (Panic msg), [], cst)
      | (Ok bytes, cst) \<Rightarrow>
          if bytes = [] then (Some (Ok ()), [], cst)
          else (case conn_write_all ops (et_write_clk t) (written_io (et_write t)) cst of
              (Ok _, cst) \<Rightarrow> (let (r, more, cst) = async_echo read_error ops ts cst in (r, bytes @ more, cst))
            | (Err e, cst) \<Rightarrow> (Some (Err e), sent_bytes (et_write t) bytes, cst)
            | (Panic msg, cst) \<Rightarrow> (Some (Panic msg), sent_bytes (et_write t) bytes, cst)))"

text \<open>
  The handler of the TCP, TLS, mutual-TLS and mixed-mode examples; the one of \<open>echo-server\<close>, which
  asks for the asynchronous stream first and shuts the connection down at the end; and the one of
  \<open>tls-server\<close>.
\<close>

definition echo_example :: "'g guard_ops \<Rightarrow> echo_turn list \<Rightarrow> ('a, 'b, 'g) conn_state \<Rightarrow>
    unit outcome option \<times> u8 list \<times> ('a, 'b, 'g) conn_state" where
  "echo_example ops ts cst = async_echo (\<lambda>e. Ok ()) ops ts cst"

definition echo_server_handle :: "'g guard_ops \<Rightarrow> echo_turn list \<Rightarrow> unit io \<Rightarrow> ('a, 'b, 'g) conn_state \<Rightarrow>
    unit outcome option \<times> u8 list \<times> ('a, 'b, 'g) conn_state" where
  "echo_server_handle ops ts shut cst =
     (case async_stream (fst cst) of
        Panic msg \<Rightarrow> (Some (Panic msg), [], cst)
      | Err e \<Rightarrow> (Some (Err e), [], cst)
      | Ok None \<Rightarrow> (Some (Panic ''async connection''), [], cst)
      | Ok (Some _) \<Rightarrow>
          (case async_echo Err ops ts cst of
             (Some (Ok _), sent, cst) \<Rightarrow> (let (r, cst) = conn_shutdown shut cst in (Some r, sent, cst))
           | (r, sent, cst) \<Rightarrow> (r, sent, cst)))"

definition tls_server_handle :: "'g guard_ops \<Rightarrow> echo_turn list \<Rightarrow>
    (('t, 's, 'c) transport, ('t2, 's2, 'c2) sync_transport, 'g) conn_state \<Rightarrow>
    unit outcome option \<times> u8 list \<times> (('t, 's, 'c) transport, ('t2, 's2, 'c2) sync_transport, 'g) conn_state" where
  "tls_server_handle ops ts cst =
     (if conn_is_tls (fst cst) then
        (case async_stream (fst cst) of
           Panic msg \<Rightarrow> (Some (Panic msg), [], cst)
         | Err e \<Rightarrow> (Some (Err e), [], cst)
         | Ok None \<Rightarrow> (Some (Panic ''async connection''), [], cst)
         | Ok (Some _) \<Rightarrow> async_echo Err ops ts cst)
      else async_echo Err ops ts cst)"

section \<open>The blocking handlers\<close>

text \<open>An error of \<open>read\<close> by its kind: the handlers take a time-out for the end of the stream.\<close>

datatype sync_read = Got "u8 list" | TimedOut | WouldBlock | ReadFailed string

fun sync_echo :: "(string \<Rightarrow> unit outcome) \<Rightarrow> (sync_read \<times> written) list \<Rightarrow> unit outcome option \<times> u8 list" where
  "sync_echo read_error [] = (None, [])"
| "sync_echo read_error ((Got bs, w) # ts) =
     (if bs = [] then (Some (Ok ()), [])
      else case w of
          WroteAll \<Rightarrow> (let (r, more) = sync_echo read_error ts in (r, bs @ more))
        | WriteFailed k msg \<Rightarrow> (Some (Err (Io msg)), take k bs))"
| "sync_echo read_error ((TimedOut, w) # ts) = (Some (Ok ()), [])"
| "sync_echo read_error ((WouldBlock, w) # ts) = (Some (Ok ()), [])"
| "sync_echo read_error ((ReadFailed msg, w) # ts) = (Some (read_error msg), [])"

text \<open>The stream is taken out of the connection, which drops the connection, and the loop runs on it.\<close>

definition on_sync_stream :: "'g guard_ops \<Rightarrow> (nat \<Rightarrow> instant) \<Rightarrow> unit outcome option \<times> u8 list \<Rightarrow>
    ('a, 'b, 'g) conn_state \<Rightarrow> unit outcome option \<times> u8 list \<times> 'g guard_stack" where
  "on_sync_stream ops clk run cst =
     (case into_stream ops clk cst of
        (Panic msg, st) \<Rightarrow> (Some (Panic msg), [], st)
      | (Err e, st) \<Rightarrow> (Some (Err e), [], st)
      | (Ok s, st) \<Rightarrow>
          (case as_sync s of
             None \<Rightarrow> (Some (Panic ''sync stream''), [], st)
           | Some _ \<Rightarrow> (fst run, snd run, st)))"

definition sync_echo_example :: "'g guard_ops \<Rightarrow> (nat \<Rightarrow> instant) \<Rightarrow> (sync_read \<times> written) list \<Rightarrow>
    ('a, 'b, 'g) conn_state \<Rightarrow> unit outcome option \<times> u8 list \<times> 'g guard_stack" where
  "sync_echo_example ops clk ts cst = on_sync_stream ops clk (sync_echo (\<lambda>msg. Ok ()) ts) cst"

definition sync_echo_server :: "'g guard_ops \<Rightarrow> (nat \<Rightarrow> instant) \<Rightarrow> (sync_read \<times> written) list \<Rightarrow>
    ('a, 'b, 'g) conn_state \<Rightarrow> unit outcome option \<times> u8 list \<times> 'g guard_stack" where
  "sync_echo_server ops clk ts cst = on_sync_stream ops clk (sync_echo (\<lambda>msg. Err (Io msg)) ts) cst"

section \<open>The clients\<close>

definition localhost :: "u16 \<Rightarrow> socket_addr" where
  "localhost port = SockV4 (ipv4_new 127 0 0 1) port"

text \<open>
  \<open>run_client\<close>: connect, send the message, read once; with what was sent. The connection of a client
  has no guard session, so there are no guards behind its reads and writes.
\<close>

definition async_exchange :: "u8 list \<Rightarrow> written \<Rightarrow> u8 list io \<Rightarrow> ('a, 'b) connection outcome \<Rightarrow>
    u8 list outcome \<times> u8 list" where
  "async_exchange message w got connected_to =
     (case connected_to of
        Err e \<Rightarrow> (Err e, [])
      | Panic msg \<Rightarrow> (Panic msg, [])
      | Ok conn \<Rightarrow>
          (case conn_write_all std_ops id (written_io w) (conn, gs_new) of
             (Err e, _) \<Rightarrow> (Err e, sent_bytes w message)
           | (Panic msg, _) \<Rightarrow> (Panic msg, [])
           | (Ok _, cst) \<Rightarrow> (fst (conn_read std_ops id got cst), message)))"

definition sync_exchange :: "u8 list \<Rightarrow> written \<Rightarrow> u8 list io \<Rightarrow> ('a, 'b) connection outcome \<Rightarrow>
    u8 list outcome \<times> u8 list" where
  "sync_exchange message w got connected_to =
     (case connected_to of
        Err e \<Rightarrow> (Err e, [])
      | Panic msg \<Rightarrow> (Panic msg, [])
      | Ok conn \<Rightarrow>
          (case fst (into_stream std_ops id (conn, gs_new)) of
             Err e \<Rightarrow> (Err e, [])
           | Panic msg \<Rightarrow> (Panic msg, [])
           | Ok s \<Rightarrow>
               (case as_sync s of
                  None \<Rightarrow> (Panic ''sync stream'', [])
                | Some _ \<Rightarrow>
                    (case written_io w of
                       IoErr msg \<Rightarrow> (Err (Io msg), sent_bytes w message)
                     | IoOk _ \<Rightarrow> (of_io Io got, message)))))"

text \<open>
  \<open>basic-client\<close> sends its message and shuts the stream down (the blocking one only sends). A
  server-side stream is unreachable there.
\<close>

definition hello_synclaire :: "u8 list" where
  "hello_synclaire = as_bytes (''hello from synclaire'' @ [CHR 0x0A])"

definition basic_client :: "written \<Rightarrow> unit io \<Rightarrow> (('t, 's, 'c) transport, 'b) connection outcome \<Rightarrow>
    unit outcome \<times> u8 list" where
  "basic_client w shut connected_to =
     (case connected_to of
        Err e \<Rightarrow> (Err e, [])
      | Panic msg \<Rightarrow> (Panic msg, [])
      | Ok conn \<Rightarrow>
          (case async_stream conn of
             Err e \<Rightarrow> (Err e, [])
           | Panic msg \<Rightarrow> (Panic msg, [])
           | Ok None \<Rightarrow> (Panic ''async connection'', [])
           | Ok (Some (ServerTls _)) \<Rightarrow> (Panic ''client never gets a server-side stream'', [])
           | Ok (Some _) \<Rightarrow>
               (case conn_write_all std_ops id (written_io w) (conn, gs_new) of
                  (Ok _, cst) \<Rightarrow> (fst (conn_shutdown shut cst), hello_synclaire)
                | (r, _) \<Rightarrow> (r, sent_bytes w hello_synclaire))))"

definition sync_basic_client :: "written \<Rightarrow> ('a, 'b) connection outcome \<Rightarrow> unit outcome \<times> u8 list" where
  "sync_basic_client w connected_to =
     (case connected_to of
        Err e \<Rightarrow> (Err e, [])
      | Panic msg \<Rightarrow> (Panic msg, [])
      | Ok conn \<Rightarrow>
          (case fst (into_stream std_ops id (conn, gs_new)) of
             Err e \<Rightarrow> (Err e, [])
           | Panic msg \<Rightarrow> (Panic msg, [])
           | Ok s \<Rightarrow>
               (case as_sync s of
                  None \<Rightarrow> (Panic ''sync stream'', [])
                | Some _ \<Rightarrow> (of_io Io (written_io w), sent_bytes w hello_synclaire))))"

section \<open>Lemmas\<close>

text \<open>The bytes a stream delivers before it ends or fails.\<close>

fun delivered :: "u8 list io list \<Rightarrow> u8 list" where
  "delivered [] = []"
| "delivered (IoErr msg # rs) = []"
| "delivered (IoOk bs # rs) = (if bs = [] then [] else bs @ delivered rs)"

fun sync_io :: "sync_read \<Rightarrow> u8 list io" where
  "sync_io (Got bs) = IoOk bs"
| "sync_io TimedOut = IoErr ''timed out''"
| "sync_io WouldBlock = IoErr ''would block''"
| "sync_io (ReadFailed msg) = IoErr msg"

text \<open>A stream is over when a read delivers nothing or fails.\<close>

definition stream_over :: "u8 list io list \<Rightarrow> bool" where
  "stream_over rs \<longleftrightarrow> (\<exists>r \<in> set rs. r = IoOk [] \<or> (\<exists>msg. r = IoErr msg))"

lemma stream_over_simps [simp]:
  "\<not> stream_over []" "stream_over (IoErr msg # rs)" "stream_over (IoOk bs # rs) \<longleftrightarrow> bs = [] \<or> stream_over rs"
  by (auto simp: stream_over_def)

lemma sent_bytes_prefix: "prefix (sent_bytes w bs) (bs @ cs)"
  by (cases w) (simp_all add: prefix_prefix take_is_prefix)

lemma conn_read_bytes: "fst (conn_read ops clk got cst) = Ok bytes \<Longrightarrow> got = IoOk bytes"
  by (auto simp: conn_read_def split: outcome.splits io.splits if_splits prod.splits)

lemma conn_read_state: "snd (conn_read ops clk got cst) = conn_step ops (ConnRead clk got) cst"
  by simp

text \<open>What the loop does to the connection is a sequence of operations of a handler.\<close>

lemma async_echo_operations:
  "\<exists>os. snd (snd (async_echo read_error ops ts cst)) = fold (conn_step ops) os cst"
proof (induction ts arbitrary: cst)
  case Nil
  show ?case by (intro exI [of _ "[]"]) simp
next
  case (Cons t ts)
  obtain r cst1 where r: "conn_read ops (et_read_clk t) (et_read t) cst = (r, cst1)" by (metis surj_pair)
  obtain w cst2 where w: "conn_write_all ops (et_write_clk t) (written_io (et_write t)) cst1 = (w, cst2)"
    by (metis surj_pair)
  let ?rd = "ConnRead (et_read_clk t) (et_read t)" and ?wr = "ConnWriteAll (et_write_clk t) (written_io (et_write t))"
  have one: "fold (conn_step ops) [?rd] cst = cst1" using r by simp
  have two: "fold (conn_step ops) [?rd, ?wr] cst = cst2" using r w by simp
  obtain os where os: "snd (snd (async_echo read_error ops ts cst2)) = fold (conn_step ops) os cst2"
    using Cons.IH by blast
  have "fold (conn_step ops) ([?rd, ?wr] @ os) cst = snd (snd (async_echo read_error ops ts cst2))"
    using two os by simp
  moreover have "snd (snd (async_echo read_error ops (t # ts) cst)) \<in>
      {cst1, cst2, snd (snd (async_echo read_error ops ts cst2))}"
    using r w by (cases r; cases w) (simp_all add: split_beta)
  ultimately show ?case using one two by (metis empty_iff insertE)
qed

lemma async_echo_delivered:
  assumes "async_echo read_error ops ts cst = (r, sent, cst')"
  shows "prefix sent (delivered (map et_read ts))" "stream_over (map et_read ts) \<Longrightarrow> r \<noteq> None"
    "r = None \<Longrightarrow> sent = delivered (map et_read ts)"
    "r = Some (Ok ()) \<Longrightarrow> \<forall>e. read_error e \<noteq> Ok () \<Longrightarrow>
       sent = delivered (map et_read ts) \<and> IoOk [] \<in> set (map et_read ts)"
  using assms
proof (induction ts arbitrary: cst r sent cst')
  case (Cons t ts)
  {
    case 1 then show ?case using Cons.IH(1) sent_bytes_prefix [of "et_write t"]
      by (auto split: outcome.splits prod.splits if_splits dest!: arg_cong [of "conn_read _ _ _ _" _ fst] conn_read_bytes)
  next
    case 2 then show ?case using Cons.IH(2)
      by (auto split: outcome.splits prod.splits if_splits dest!: arg_cong [of "conn_read _ _ _ _" _ fst] conn_read_bytes)
  next
    case 3 then show ?case using Cons.IH(3)
      by (auto split: outcome.splits prod.splits if_splits dest!: arg_cong [of "conn_read _ _ _ _" _ fst] conn_read_bytes)
  next
    case 4 then show ?case using Cons.IH(4)
      by (auto split: outcome.splits prod.splits if_splits dest!: arg_cong [of "conn_read _ _ _ _" _ fst] conn_read_bytes)
  }
qed simp_all

lemma sync_echo_delivered:
  assumes "sync_echo read_error ts = (r, sent)"
  shows "prefix sent (delivered (map (sync_io \<circ> fst) ts))" "stream_over (map (sync_io \<circ> fst) ts) \<Longrightarrow> r \<noteq> None"
    "r = None \<or> (list_all (\<lambda>t. snd t = WroteAll) ts) \<Longrightarrow> sent = delivered (map (sync_io \<circ> fst) ts)"
  using assms
  by (induction read_error ts arbitrary: r sent rule: sync_echo.induct)
    (auto simp: take_is_prefix split: written.splits prod.splits if_splits)

text \<open>What every handler that runs the loop does.\<close>

definition echoes :: "'g guard_ops \<Rightarrow> echo_turn list \<Rightarrow> ('a, 'b, 'g) conn_state \<Rightarrow>
    unit outcome option \<times> u8 list \<times> ('a, 'b, 'g) conn_state \<Rightarrow> bool" where
  "echoes ops ts cst res \<longleftrightarrow>
     (case res of (r, sent, cst') \<Rightarrow>
        (\<exists>os. cst' = fold (conn_step ops) os cst) \<and> prefix sent (delivered (map et_read ts)) \<and>
        (stream_over (map et_read ts) \<longrightarrow> r \<noteq> None) \<and> (r = None \<longrightarrow> sent = delivered (map et_read ts)))"

lemma async_echo_echoes: "echoes ops ts cst (async_echo read_error ops ts cst)"
proof -
  obtain r sent cst' where res: "async_echo read_error ops ts cst = (r, sent, cst')" by (metis surj_pair)
  show ?thesis
    using async_echo_delivered(1-3) [OF res] async_echo_operations [of read_error ops ts cst]
    by (auto simp: echoes_def res)
qed

lemma echoes_ends: "echoes ops ts cst (r, sent, cst') \<Longrightarrow> r \<noteq> None \<Longrightarrow> cst'' = fold (conn_step ops) os cst' \<Longrightarrow>
    echoes ops ts cst (Some r', sent, cst'')"
  by (auto simp: echoes_def) (metis comp_apply fold_append)

lemma echoes_refused: "echoes ops ts cst (Some r, [], cst)"
  by (auto simp: echoes_def intro: exI [of _ "[]"])

lemma echo_server_ran:
  assumes "echo_server_handle ops ts shut cst = (Some (Ok ()), sent, cst')"
  shows "\<exists>cst1. async_echo Err ops ts cst = (Some (Ok ()), sent, cst1)"
  using assms by (auto simp: echo_server_handle_def split: outcome.splits option.splits prod.splits)

lemma echo_server_echoes: "echoes ops ts cst (echo_server_handle ops ts shut cst)"
proof -
  obtain r sent cst1 where res: "async_echo Err ops ts cst = (r, sent, cst1)" by (metis surj_pair)
  have ran: "echoes ops ts cst (r, sent, cst1)" using async_echo_echoes [of ops ts cst Err] res by simp
  have "echoes ops ts cst (Some (fst (conn_shutdown shut cst1)), sent, snd (conn_shutdown shut cst1))" if "r \<noteq> None"
    by (rule echoes_ends [OF ran that, where os = "[ConnShutdown shut]"]) simp
  then show ?thesis
    using ran by (auto simp: echo_server_handle_def res echoes_refused split_beta
        split: outcome.splits option.splits)
qed

lemma tls_server_echoes: "echoes ops ts cst (tls_server_handle ops ts cst)"
  using async_echo_echoes [of ops ts cst Err]
  by (auto simp: tls_server_handle_def echoes_refused split: outcome.splits option.splits)

section \<open>Properties\<close>

text \<open>
  C27. The asynchronous echo handlers send back what they read and nothing else: what a handler has
  sent is a prefix of what the client's stream delivered, in order; while it still runs it is all of it;
  once the stream ends or fails the handler returns; when \<open>echo-server\<close> returns \<open>Ok\<close>, the client has
  ended its stream and got everything back. The guard session is held to the end, whatever the
  guards answer to the reads and writes, and dropping the connection gives back all that the guards
  count for it, which they knew nothing of before (\<open>all_ready\<close>).
\<close>

theorem async_echo_faithful:
  fixes c0 :: "(('t, 's, 'c) transport, ('t2, 's2, 'c2) sync_transport) connection"
  assumes "context_ok ctx" "all_ready ctx st" "gs_reserve std_ops clk ctx st = (Ok ss, st1)"
    and "mark_established std_ops clk1 ss st1 = (e, ss2, st2)"
  defines "cst \<equiv> (with_guard_session ss2 c0, st2)"
  assumes "res \<in> {echo_example std_ops ts cst, echo_server_handle std_ops ts shut cst, tls_server_handle std_ops ts cst}"
    and "res = (r, sent, c, st3)"
  shows "prefix sent (delivered (map et_read ts)) \<and> (stream_over (map et_read ts) \<longrightarrow> r \<noteq> None) \<and>
    (r = None \<longrightarrow> sent = delivered (map et_read ts)) \<and>
    (res = echo_server_handle std_ops ts shut cst \<and> r = Some (Ok ()) \<longrightarrow>
       sent = delivered (map et_read ts) \<and> IoOk [] \<in> set (map et_read ts)) \<and>
    cn_guard_session c = Some ss2 \<and>
    map (std_usage ctx) (gs_guards (drop_connection std_ops clk2 (c, st3))) = map (std_usage ctx) (gs_guards st)"
proof -
  have e: "echoes std_ops ts cst res"
    using assms(6) unfolding echo_example_def insert_iff empty_iff
    by (elim disjE) (simp_all only: async_echo_echoes echo_server_echoes tls_server_echoes)
  then obtain os where os: "fold (conn_step std_ops) os cst = (c, st3)" by (auto simp: echoes_def assms(7))
  have s: "cn_guard_session (with_guard_session ss2 c0) = Some ss2" by (simp add: with_guard_session_def)
  have "c = with_guard_session ss2 c0" using conn_steps_session [OF s, of std_ops os st2] os by (auto simp: cst_def)
  moreover note connection_gives_everything_back [OF assms(1-4) os [unfolded cst_def], of clk2]
  moreover have "sent = delivered (map et_read ts) \<and> IoOk [] \<in> set (map et_read ts)"
    if "res = echo_server_handle std_ops ts shut cst" "r = Some (Ok ())"
    using that assms(7) echo_server_ran [of std_ops ts shut cst] async_echo_delivered(4) [of Err std_ops ts cst] by fastforce
  ultimately show ?thesis using e s by (auto simp: echoes_def assms(7))
qed

text \<open>
  C28. The blocking echo handlers work outside the guards: \<open>into_stream\<close> ends the session before the
  first read, so from then on, while the handler runs (result \<open>None\<close>) and after it, every guard
  counts for the connection what it counted before it came, when no guard knew of it (\<open>all_ready\<close>), and nothing the client sends or fails to send
  reaches a guard. What the handler sends back is a prefix of what the stream delivered, all of it when
  the client takes every write; the handler returns once the stream ends, fails, or times out.
\<close>

theorem sync_echo_outside_guards:
  assumes "context_ok ctx" "all_ready ctx st" "gs_reserve std_ops clk ctx st = (Ok ss, st1)"
    and "mark_established std_ops clk1 ss st1 = (e, ss2, st2)" "cn_stream c0 = Some (SyncStream s)"
    and "res \<in> {sync_echo_example std_ops clk2 ts (with_guard_session ss2 c0, st2),
                sync_echo_server std_ops clk2 ts (with_guard_session ss2 c0, st2)}"
    and "res = (r, sent, st3)"
  shows "map (std_usage ctx) (gs_guards st3) = map (std_usage ctx) (gs_guards st) \<and>
    st3 = snd (into_stream std_ops clk2 (with_guard_session ss2 c0, st2)) \<and>
    prefix sent (delivered (map (sync_io \<circ> fst) ts)) \<and>
    (r = None \<or> list_all (\<lambda>t. snd t = WroteAll) ts \<longrightarrow> sent = delivered (map (sync_io \<circ> fst) ts)) \<and>
    (stream_over (map (sync_io \<circ> fst) ts) \<longrightarrow> r \<noteq> None)"
proof -
  obtain st4 where st4: "into_stream std_ops clk2 (with_guard_session ss2 c0, st2) = (Ok (SyncStream s), st4)"
      "map (std_usage ctx) (gs_guards st4) = map (std_usage ctx) (gs_guards st)"
    using into_stream_escapes_guards [OF assms(1-5), of clk2] by blast
  obtain read_error where run: "sync_echo read_error ts = (r, sent)" and "st3 = st4"
    using assms(6,7) by (auto simp: sync_echo_example_def sync_echo_server_def on_sync_stream_def st4 prod_eq_iff)
  then show ?thesis using st4 sync_echo_delivered [OF run] by auto
qed

text \<open>A client that sends \<open>hi\<close> and closes.\<close>

definition hi_turns :: "echo_turn list" where
  "hi_turns =
     [\<lparr>et_read_clk = id, et_read = IoOk [104, 105], et_write_clk = id, et_write = WroteAll\<rparr>,
      \<lparr>et_read_clk = id, et_read = IoOk [], et_write_clk = id, et_write = WroteAll\<rparr>]"

theorem async_echo_faithful_witness:
  "\<exists>ss ss2 st2 r sent c st3. fst (gs_reserve std_ops id (demo_ctx 1) open_stack) = Ok ss \<and>
     echo_server_handle std_ops hi_turns (IoOk ()) (with_guard_session ss2
       (from_async_tcp (connection_metadata_new (gc_peer_addr (demo_ctx 1)) None False) () ::
         ((unit, unit, unit) transport, (unit, unit, unit) sync_transport) connection), st2) = (r, sent, c, st3) \<and>
     r \<noteq> None \<and> prefix sent [104, 105] \<and>
     map (std_usage (demo_ctx 1)) (gs_guards (drop_connection std_ops id (c, st3))) =
     map (std_usage (demo_ctx 1)) (gs_guards open_stack)"
proof -
  obtain ss st1 where r: "gs_reserve std_ops id (demo_ctx 1) open_stack = (Ok ss, st1)" by (rule open_stack_reserves)
  obtain e ss2 st2 where m: "mark_established std_ops id ss st1 = (e, ss2, st2)" by (metis surj_pair)
  let ?c0 = "from_async_tcp (connection_metadata_new (gc_peer_addr (demo_ctx 1)) None False) () ::
    ((unit, unit, unit) transport, (unit, unit, unit) sync_transport) connection"
  obtain r' sent c st3 where h: "echo_server_handle std_ops hi_turns (IoOk ()) (with_guard_session ss2 ?c0, st2) = (r', sent, c, st3)"
    by (metis surj_pair)
  have "stream_over (map et_read hi_turns)" "delivered (map et_read hi_turns) = [104, 105]" by (simp_all add: hi_turns_def)
  then show ?thesis
    using async_echo_faithful [OF demo_ctx_ok open_stack_ready r m, where ts = hi_turns and shut = "IoOk ()" and ?c0.0 = ?c0,
        OF _ h, of id] r h
    by (metis fst_conv insertCI)
qed

theorem sync_echo_outside_guards_witness:
  "\<exists>ss ss2 st2 r sent st3. fst (gs_reserve std_ops id (demo_ctx 1) open_stack) = Ok ss \<and>
     sync_echo_example std_ops id [(Got [104, 105], WroteAll)] (with_guard_session ss2
       (from_sync_tcp (connection_metadata_new (gc_peer_addr (demo_ctx 1)) None False) () ::
         (unit, (unit, unit, unit) sync_transport) connection), st2) = (r, sent, st3) \<and> sent = [104, 105] \<and>
     map (std_usage (demo_ctx 1)) (gs_guards st3) = map (std_usage (demo_ctx 1)) (gs_guards open_stack)"
proof -
  obtain ss st1 where r: "gs_reserve std_ops id (demo_ctx 1) open_stack = (Ok ss, st1)" by (rule open_stack_reserves)
  obtain e ss2 st2 where m: "mark_established std_ops id ss st1 = (e, ss2, st2)" by (metis surj_pair)
  let ?c0 = "from_sync_tcp (connection_metadata_new (gc_peer_addr (demo_ctx 1)) None False) () ::
    (unit, (unit, unit, unit) sync_transport) connection"
  let ?ts = "[(Got [104, 105], WroteAll)]"
  obtain r' sent st3 where h: "sync_echo_example std_ops id ?ts (with_guard_session ss2 ?c0, st2) = (r', sent, st3)"
    by (metis surj_pair)
  have s: "cn_stream ?c0 = Some (SyncStream (SyncTcp ()))" by (simp add: from_sync_tcp_def from_sync_stream_def)
  note sync_echo_outside_guards [OF demo_ctx_ok open_stack_ready r m s, where ts = ?ts and ?clk2.0 = id, OF insertI1 h]
  then have "sent = [104, 105]" "map (std_usage (demo_ctx 1)) (gs_guards st3) = map (std_usage (demo_ctx 1)) (gs_guards open_stack)"
    by (simp, blast)
  then show ?thesis using r h by (metis fst_conv)
qed

text \<open>
  The echo examples end to end, over streams that deliver bytes in order: when what the server has
  read is a prefix of what the client sent, and what the client reads is a prefix of what the server
  has sent back, cut anyhow, then what \<open>run_client\<close> prints, over either client and either server, is
  a prefix of its own message; a client that is handed all of the echo of a server that still
  waits for more, having read the whole message, prints the whole message.
\<close>

theorem echo_examples_end_to_end:
  assumes "async_exchange message w got conn = (Ok printed, out) \<or> sync_exchange message w got conn = (Ok printed, out)"
    and "(\<exists>cst'. echo_example ops ts cst = (r, returned, cst')) \<and> reads = map et_read ts \<or>
      sync_echo (\<lambda>msg. Ok ()) ts' = (r, returned) \<and> reads = map (sync_io \<circ> fst) ts'"
    and "prefix (delivered reads) out" and "\<exists>bs. got = IoOk bs \<and> prefix bs returned"
  shows "out = message \<and> prefix printed message \<and>
    (delivered reads = message \<and> r = None \<and> got = IoOk returned \<longrightarrow> printed = message)"
proof -
  have out: "out = message" "got = IoOk printed"
    using assms(1) conn_read_bytes
    by (auto simp: async_exchange_def sync_exchange_def of_io_Ok split: outcome.splits prod.splits option.splits io.splits)
  have "prefix returned (delivered reads)" "r = None \<Longrightarrow> returned = delivered reads"
    using assms(2) async_echo_delivered(1,3) [of "\<lambda>e. Ok ()" ops ts cst r returned] sync_echo_delivered(1,3) [of "\<lambda>msg. Ok ()" ts' r returned]
    by (auto simp: echo_example_def)
  then show ?thesis using out assms(3,4) by (auto intro: prefix_order.trans)
qed

definition local_sync_connection :: "(unit, (unit, unit, unit) sync_transport) connection" where
  "local_sync_connection = from_sync_tcp (connection_metadata_new local_7000 None False) ()"

theorem echo_examples_end_to_end_witness:
  "\<exists>printed out. sync_exchange [104, 105] WroteAll (IoOk [104, 105]) (Ok local_sync_connection) = (Ok printed, out) \<and>
     printed = [104, 105]"
proof -
  have "sync_exchange [104, 105] WroteAll (IoOk [104, 105]) (Ok local_sync_connection) = (Ok [104, 105], [104, 105])"
    by (simp add: local_sync_connection_def sync_exchange_def into_stream_def from_sync_tcp_def from_sync_stream_def
        drop_connection_def)
  moreover have "sync_echo (\<lambda>msg. Ok ()) [(Got [104], WroteAll), (Got [105], WroteAll)] = (None, [104, 105])" by simp
  ultimately show ?thesis
    using echo_examples_end_to_end [of "[104, 105]" WroteAll "IoOk [104, 105]" "Ok local_sync_connection"
        "[104, 105]" "[104, 105]"]
    by simp
qed

end
