(* ===== verification/Relay.thy ===== *)
theory Relay
  imports Proxy_Forward Echo_Handlers
begin

text \<open>
  The relay of the blocking proxy under concurrency (\<open>forward_bidirectional\<close> of src/src/proxy.rs): two
  threads, each of which copies from one socket to the other, between two peers that send and end
  their streams when they like. Every interleaving is a run of \<open>relay_step\<close>; the sequential
  \<open>copy_loop\<close> of \<open>Proxy_Forward\<close> is what one thread does. At the end the relay is composed with the
  echo handler of the examples as its backend.
\<close>

section \<open>The threads and the sockets\<close>

datatype side = FromClient | FromBackend

fun other :: "side \<Rightarrow> side" where
  "other FromClient = FromBackend"
| "other FromBackend = FromClient"

text \<open>
  A copying thread: reading, holding the bytes it has read, or ended, and why. What its calls
  returned and what it copied is recorded; \<open>pm_partial\<close> are the bytes a failed \<open>write_all\<close> got across.
\<close>

datatype stop = SawEnd | IdleTooLong | ReadBroke | WriteBroke

datatype pump_phase = Reading | Holding string | Stopped stop

record pump =
  pm_phase :: pump_phase
  pm_reads :: reads
  pm_writes :: "unit io list"
  pm_copied :: "string list"
  pm_partial :: string

definition pump_new :: pump where
  "pump_new = \<lparr>pm_phase = Reading, pm_reads = [], pm_writes = [], pm_copied = [], pm_partial = []\<rparr>"

text \<open>
  One answer to \<open>read\<close>, one to \<open>write_all\<close>. The sockets have a read time-out; a read that runs into it
  is an error like any other.
\<close>

definition pump_reads :: "stop \<Rightarrow> string io \<Rightarrow> pump \<Rightarrow> pump" where
  "pump_reads why r p =
     p\<lparr>pm_reads := pm_reads p @ [r],
       pm_phase := (case r of
           IoErr msg \<Rightarrow> Stopped why
         | IoOk chunk \<Rightarrow> if chunk = [] then Stopped SawEnd else Holding chunk)\<rparr>"

definition pump_writes :: "written \<Rightarrow> string \<Rightarrow> pump \<Rightarrow> pump" where
  "pump_writes w chunk p =
     (case w of
        WroteAll \<Rightarrow> p\<lparr>pm_writes := pm_writes p @ [IoOk ()], pm_phase := Reading, pm_copied := pm_copied p @ [chunk]\<rparr>
      | WriteFailed k msg \<Rightarrow>
          p\<lparr>pm_writes := pm_writes p @ [IoErr msg], pm_phase := Stopped WriteBroke, pm_partial := take k chunk\<rparr>)"

text \<open>
  A peer as its socket shows it: the bytes it has sent and the proxy has not read, whether it has ended
  its stream, by shutting it down or by closing, and all it ever sent.
\<close>

record peer =
  pr_inbox :: string
  pr_fin :: bool
  pr_sent :: string

definition peer_new :: peer where
  "peer_new = \<lparr>pr_inbox = [], pr_fin = False, pr_sent = []\<rparr>"

text \<open>The thread that reads from \<open>x\<close> and writes to the other side is \<open>rl_pump s x\<close>.\<close>

record relay =
  rl_peer :: "side \<Rightarrow> peer"
  rl_pump :: "side \<Rightarrow> pump"

definition relay_new :: relay where
  "relay_new = \<lparr>rl_peer = (\<lambda>_. peer_new), rl_pump = (\<lambda>_. pump_new)\<rparr>"

definition set_peer :: "side \<Rightarrow> peer \<Rightarrow> relay \<Rightarrow> relay" where
  "set_peer x p s = s\<lparr>rl_peer := (rl_peer s)(x := p)\<rparr>"

definition set_pump :: "side \<Rightarrow> pump \<Rightarrow> relay \<Rightarrow> relay" where
  "set_pump x p s = s\<lparr>rl_pump := (rl_pump s)(x := p)\<rparr>"

datatype relay_event =
    PeerSends side string
  | PeerEnds side
  | PumpReads side nat
  | PumpIdles side
  | PumpBreaks side string
  | PumpWrites side written

text \<open>
  One event, when it can happen. A read takes at most \<open>n\<close> bytes, the size of the buffer, returns nothing at
  once when the buffer is empty, and otherwise waits for bytes, for the end of the stream, or for its
  time-out; it, and a write, may fail at any time. Each thread owns one handle of each socket, so a socket is closed, and its peer sees the
  end of its stream, when both threads have ended.
\<close>

fun relay_step :: "usize \<Rightarrow> relay_event \<Rightarrow> relay \<Rightarrow> relay option" where
  "relay_step n (PeerSends x bs) s =
     (let p = rl_peer s x in
      if pr_fin p then None
      else Some (set_peer x (p\<lparr>pr_inbox := pr_inbox p @ bs, pr_sent := pr_sent p @ bs\<rparr>) s))"
| "relay_step n (PeerEnds x) s = Some (set_peer x ((rl_peer s x)\<lparr>pr_fin := True\<rparr>) s)"
| "relay_step n (PumpReads x k) s =
     (let p = rl_peer s x; t = rl_pump s x in
      if pm_phase t \<noteq> Reading then None
      else if n = 0 then Some (set_pump x (pump_reads ReadBroke (IoOk []) t) s)
      else if pr_inbox p = [] then
        (if pr_fin p then Some (set_pump x (pump_reads ReadBroke (IoOk []) t) s) else None)
      else if k = 0 \<or> n < k then None
      else Some (set_pump x (pump_reads ReadBroke (IoOk (take k (pr_inbox p))) t)
          (set_peer x (p\<lparr>pr_inbox := drop k (pr_inbox p)\<rparr>) s)))"
| "relay_step n (PumpIdles x) s =
     (let p = rl_peer s x; t = rl_pump s x in
      if pm_phase t = Reading \<and> n \<noteq> 0 \<and> pr_inbox p = [] \<and> \<not> pr_fin p
      then Some (set_pump x (pump_reads IdleTooLong (IoErr ''timed out'') t) s) else None)"
| "relay_step n (PumpBreaks x msg) s =
     (if pm_phase (rl_pump s x) = Reading \<and> n \<noteq> 0
      then Some (set_pump x (pump_reads ReadBroke (IoErr msg) (rl_pump s x)) s) else None)"
| "relay_step n (PumpWrites x w) s =
     (case pm_phase (rl_pump s x) of
        Holding chunk \<Rightarrow> Some (set_pump x (pump_writes w chunk (rl_pump s x)) s)
      | _ \<Rightarrow> None)"

definition pump_stopped :: "side \<Rightarrow> relay \<Rightarrow> bool" where
  "pump_stopped x s \<longleftrightarrow> (case pm_phase (rl_pump s x) of Stopped _ \<Rightarrow> True | _ \<Rightarrow> False)"

text \<open>\<open>forward_bidirectional\<close> returns when both threads have been joined.\<close>

definition relay_returned :: "relay \<Rightarrow> bool" where
  "relay_returned s \<longleftrightarrow> pump_stopped FromClient s \<and> pump_stopped FromBackend s"

definition sees_end :: "side \<Rightarrow> relay \<Rightarrow> bool" where
  "sees_end x s \<longleftrightarrow> pump_stopped x s \<and> pump_stopped (other x) s"

text \<open>What has reached the peer \<open>x\<close>.\<close>

definition reached :: "side \<Rightarrow> relay \<Rightarrow> string" where
  "reached x s = concat (pm_copied (rl_pump s (other x))) @ pm_partial (rl_pump s (other x))"

inductive relay_run :: "usize \<Rightarrow> relay \<Rightarrow> bool" for n where
  start: "relay_run n relay_new"
| step: "relay_run n s \<Longrightarrow> relay_step n ev s = Some s' \<Longrightarrow> relay_run n s'"

section \<open>What a thread has done\<close>

definition pump_ok :: "pump \<Rightarrow> bool" where
  "pump_ok t \<longleftrightarrow>
     list_all (\<lambda>c. c \<noteq> []) (pm_copied t) \<and>
     (let rs = map IoOk (pm_copied t); ws = replicate (length (pm_copied t)) (IoOk ()) in
      case pm_phase t of
        Reading \<Rightarrow> pm_reads t = rs \<and> pm_writes t = ws \<and> pm_partial t = []
      | Holding c \<Rightarrow> pm_reads t = rs @ [IoOk c] \<and> pm_writes t = ws \<and> pm_partial t = [] \<and> c \<noteq> []
      | Stopped SawEnd \<Rightarrow> pm_reads t = rs @ [IoOk []] \<and> pm_writes t = ws \<and> pm_partial t = []
      | Stopped WriteBroke \<Rightarrow>
          (\<exists>c msg. pm_reads t = rs @ [IoOk c] \<and> pm_writes t = ws @ [IoErr msg] \<and> c \<noteq> [] \<and> prefix (pm_partial t) c)
      | Stopped _ \<Rightarrow> (\<exists>msg. pm_reads t = rs @ [IoErr msg]) \<and> pm_writes t = ws \<and> pm_partial t = [])"

lemma copy_loop_append:
  "list_all (\<lambda>c. c \<noteq> []) cs \<Longrightarrow>
   copy_loop (map IoOk cs @ rs) (replicate (length cs) (IoOk ()) @ ws) =
     (cs @ fst (copy_loop rs ws), snd (copy_loop rs ws))"
  by (induction cs) (simp_all add: split_beta)

text \<open>The records of a thread are a run of the sequential loop.\<close>

lemma pump_is_copy_loop:
  assumes "pump_ok t"
  shows "copy_loop (pm_reads t) (pm_writes t) = (pm_copied t, case pm_phase t of Stopped _ \<Rightarrow> True | _ \<Rightarrow> False)"
proof -
  have "list_all (\<lambda>c. c \<noteq> []) (pm_copied t)" using assms by (simp add: pump_ok_def)
  note loop = copy_loop_append [OF this, where ws = "[]", simplified] copy_loop_append [OF this]
  show ?thesis
    using assms loop(1) [of "[]"]
    by (auto simp: pump_ok_def Let_def loop split: pump_phase.splits stop.splits)
qed

lemma pump_ok_new: "pump_ok pump_new"
  by (simp add: pump_ok_def pump_new_def)

lemma pump_ok_reads: "pump_ok t \<Longrightarrow> pm_phase t = Reading \<Longrightarrow> why \<in> {IdleTooLong, ReadBroke} \<Longrightarrow> pump_ok (pump_reads why r t)"
  by (cases r) (auto simp: pump_ok_def pump_reads_def Let_def)

lemma pump_ok_writes: "pump_ok t \<Longrightarrow> pm_phase t = Holding c \<Longrightarrow> pump_ok (pump_writes w c t)"
  by (cases w) (auto simp: pump_ok_def pump_writes_def Let_def replicate_append_same take_is_prefix)

section \<open>What the relay has done\<close>

lemma set_simps [simp]:
  "rl_peer (set_peer x p s) = (rl_peer s)(x := p)" "rl_pump (set_peer x p s) = rl_pump s"
  "rl_peer (set_pump x t s) = rl_peer s" "rl_pump (set_pump x t s) = (rl_pump s)(x := t)"
  by (simp_all add: set_peer_def set_pump_def)

lemma other_simps [simp]: "other (other x) = x" "other x \<noteq> x" "x \<noteq> other x"
  by (cases x; simp)+

lemma both_sides: "(\<forall>x. P x) \<longleftrightarrow> P FromClient \<and> P FromBackend"
  by (metis side.exhaust)

text \<open>
  One direction: what the peer has sent is what was copied, what the thread holds or lost in a failed
  write, and what is not yet read.
\<close>

definition flow_ok :: "peer \<Rightarrow> pump \<Rightarrow> bool" where
  "flow_ok p t \<longleftrightarrow>
     pump_ok t \<and>
     (\<exists>c. pr_sent p = concat (pm_copied t) @ c @ pr_inbox p \<and>
       (case pm_phase t of Holding d \<Rightarrow> c = d | Stopped WriteBroke \<Rightarrow> prefix (pm_partial t) c | _ \<Rightarrow> c = []))"

definition relay_ok :: "relay \<Rightarrow> bool" where
  "relay_ok s \<longleftrightarrow> (\<forall>x. flow_ok (rl_peer s x) (rl_pump s x))"

lemma flow_ok_sends: "flow_ok p t \<Longrightarrow> flow_ok (p\<lparr>pr_inbox := pr_inbox p @ bs, pr_sent := pr_sent p @ bs\<rparr>) t"
  by (auto simp: flow_ok_def)

lemma flow_ok_ends: "flow_ok p t \<Longrightarrow> flow_ok (p\<lparr>pr_fin := True\<rparr>) t"
  by (simp add: flow_ok_def)

lemma flow_ok_stops:
  assumes "flow_ok p t" "pm_phase t = Reading" "why \<in> {IdleTooLong, ReadBroke}" "r = IoOk [] \<or> (\<exists>msg. r = IoErr msg)"
  shows "flow_ok p (pump_reads why r t)"
proof -
  have "pump_ok (pump_reads why r t)" using assms pump_ok_reads by (simp add: flow_ok_def)
  then show ?thesis using assms by (auto simp: flow_ok_def pump_reads_def)
qed

lemma flow_ok_takes:
  assumes "flow_ok p t" "pm_phase t = Reading" "pr_inbox p \<noteq> []" "0 < k"
  shows "flow_ok (p\<lparr>pr_inbox := drop k (pr_inbox p)\<rparr>) (pump_reads ReadBroke (IoOk (take k (pr_inbox p))) t)"
proof -
  have "pump_ok (pump_reads ReadBroke (IoOk (take k (pr_inbox p))) t)" using assms pump_ok_reads by (simp add: flow_ok_def)
  then show ?thesis using assms by (auto simp: flow_ok_def pump_reads_def)
qed

lemma flow_ok_writes:
  assumes "flow_ok p t" "pm_phase t = Holding c"
  shows "flow_ok p (pump_writes w c t)"
proof -
  have "pump_ok (pump_writes w c t)" using assms pump_ok_writes by (simp add: flow_ok_def)
  then show ?thesis using assms by (cases w) (auto simp: flow_ok_def pump_writes_def take_is_prefix)
qed

text \<open>What an event does to one direction.\<close>

lemma relay_step_flow:
  assumes "relay_step n ev s = Some s'" "flow_ok (rl_peer s y) (rl_pump s y)"
  shows "flow_ok (rl_peer s' y) (rl_pump s' y)"
  using assms
  by (cases ev) (auto simp: Let_def flow_ok_sends flow_ok_ends flow_ok_stops flow_ok_takes flow_ok_writes
      split: if_splits pump_phase.splits)

lemma relay_run_ok: "relay_run n s \<Longrightarrow> relay_ok s"
proof (induction rule: relay_run.induct)
  case start
  show ?case by (simp add: relay_ok_def relay_new_def flow_ok_def pump_ok_new peer_new_def) (simp add: pump_new_def)
next
  case (step s ev s')
  then show ?case using relay_step_flow by (auto simp: relay_ok_def)
qed

lemma flow_ok_prefix:
  assumes "flow_ok p t"
  shows "prefix (concat (pm_copied t) @ pm_partial t) (pr_sent p)"
  using assms by (auto simp: flow_ok_def pump_ok_def Let_def prefix_def split: pump_phase.splits stop.splits)

text \<open>A thread that has ended does nothing more.\<close>

lemma stopped_stays:
  assumes "relay_step n ev s = Some s'" "pump_stopped x s"
  shows "rl_pump s' x = rl_pump s x"
  using assms by (cases ev) (auto simp: Let_def pump_stopped_def split: if_splits pump_phase.splits)

text \<open>A thread that saw the end of the stream has read all of it, or its buffer is empty.\<close>

lemma saw_end_read_all:
  assumes "relay_run n s" "pm_phase (rl_pump s x) = Stopped SawEnd"
  shows "n = 0 \<or> pr_fin (rl_peer s x) \<and> pr_inbox (rl_peer s x) = []"
  using assms
proof (induction rule: relay_run.induct)
  case start
  then show ?case by (simp add: relay_new_def pump_new_def)
next
  case (step s ev s')
  then show ?case
    by (cases ev) (auto simp: Let_def pump_reads_def pump_writes_def split: if_splits pump_phase.splits written.splits)
qed

section \<open>The relay in front of an echo server\<close>

text \<open>
  The network of the \<open>proxy-usage\<close> example once the client is authenticated: a client that sends and
  ends its stream when it likes, the relay, and a backend whose handler is \<open>sync_echo\<close> with its
  turns. The backend's own socket has a read time-out too, which the handler takes for the end; its
  reads can fail and its writes get stuck half-way. When the handler has returned, its stream is
  dropped, which ends the stream.
\<close>

record echo_net =
  en_relay :: relay
  en_turns :: "(sync_read \<times> written) list"

definition echo_net_new :: echo_net where
  "echo_net_new = \<lparr>en_relay = relay_new, en_turns = []\<rparr>"

datatype net_event =
    ClientSends string
  | ClientEnds
  | ProxyReads side nat
  | ProxyIdles side
  | ProxyBreaks side string
  | ProxyWrites side written
  | BackendEchoes nat written
  | BackendStops sync_read
  | BackendCloses

text \<open>
  What has reached the backend and it has not read: as long as its handler runs, it has sent back all it
  read. The handler logs its errors and returns \<open>Ok\<close> on one of a read.
\<close>

definition unread :: "echo_net \<Rightarrow> string" where
  "unread w = drop (length (pr_sent (rl_peer (en_relay w) FromBackend))) (reached FromBackend (en_relay w))"

definition handler_result :: "echo_net \<Rightarrow> unit outcome option" where
  "handler_result w = fst (sync_echo (\<lambda>msg. Ok ()) (en_turns w))"

fun relay_part :: "net_event \<Rightarrow> echo_net \<Rightarrow> relay_event" where
  "relay_part (ClientSends bs) w = PeerSends FromClient bs"
| "relay_part ClientEnds w = PeerEnds FromClient"
| "relay_part (ProxyReads x k) w = PumpReads x k"
| "relay_part (ProxyIdles x) w = PumpIdles x"
| "relay_part (ProxyBreaks x msg) w = PumpBreaks x msg"
| "relay_part (ProxyWrites x r) w = PumpWrites x r"
| "relay_part (BackendEchoes k r) w = PeerSends FromBackend (sent_bytes r (take k (unread w)))"
| "relay_part (BackendStops r) w = PeerSends FromBackend []"
| "relay_part BackendCloses w = PeerEnds FromBackend"

fun backend_turn :: "net_event \<Rightarrow> echo_net \<Rightarrow> (sync_read \<times> written) list" where
  "backend_turn (BackendEchoes k r) w = [(Got (as_bytes (take k (unread w))), r)]"
| "backend_turn (BackendStops r) w = [(r, WroteAll)]"
| "backend_turn _ w = []"

text \<open>
  When the backend can act: a read returns bytes that are there, at most a buffer of 4096; with none
  there it returns the end of the stream when the backend sees it, or else runs into the time-out,
  which is \<open>TimedOut\<close> or \<open>WouldBlock\<close> by the system; and it may fail at any time. A connection is
  closed when its handler has returned.
\<close>

fun backend_can :: "net_event \<Rightarrow> echo_net \<Rightarrow> bool" where
  "backend_can (BackendEchoes k r) w \<longleftrightarrow> handler_result w = None \<and> 0 < k \<and> k \<le> 4096 \<and> unread w \<noteq> []"
| "backend_can (BackendStops r) w \<longleftrightarrow> handler_result w = None \<and>
     (case r of
        Got bs \<Rightarrow> bs = [] \<and> unread w = [] \<and> sees_end FromBackend (en_relay w)
      | TimedOut \<Rightarrow> unread w = [] \<and> \<not> sees_end FromBackend (en_relay w)
      | WouldBlock \<Rightarrow> unread w = [] \<and> \<not> sees_end FromBackend (en_relay w)
      | ReadFailed msg \<Rightarrow> True)"
| "backend_can BackendCloses w \<longleftrightarrow>
     handler_result w \<noteq> None \<and> \<not> pr_fin (rl_peer (en_relay w) FromBackend)"
| "backend_can _ w \<longleftrightarrow> True"

definition net_step :: "usize \<Rightarrow> net_event \<Rightarrow> echo_net \<Rightarrow> echo_net option" where
  "net_step n ev w =
     (if backend_can ev w
      then map_option (\<lambda>s. w\<lparr>en_relay := s, en_turns := en_turns w @ backend_turn ev w\<rparr>)
        (relay_step n (relay_part ev w) (en_relay w))
      else None)"

inductive net_run :: "usize \<Rightarrow> echo_net \<Rightarrow> bool" for n where
  start: "net_run n echo_net_new"
| step: "net_run n w \<Longrightarrow> net_step n ev w = Some w' \<Longrightarrow> net_run n w'"

text \<open>
  The backend gave up: its time-out, a failed read or a failed write ended its handler. And it was told of
  the end of its stream.
\<close>

fun gave_up :: "sync_read \<times> written \<Rightarrow> bool" where
  "gave_up (Got bs, w) \<longleftrightarrow> bs \<noteq> [] \<and> w \<noteq> WroteAll"
| "gave_up (r, w) \<longleftrightarrow> True"

definition backend_gave_up :: "echo_net \<Rightarrow> bool" where
  "backend_gave_up w \<longleftrightarrow> list_ex gave_up (en_turns w)"

definition told_of_end :: "echo_net \<Rightarrow> bool" where
  "told_of_end w \<longleftrightarrow> list_ex (\<lambda>(r, _). r = Got []) (en_turns w)"

definition echoed :: "sync_read \<times> written \<Rightarrow> bool" where
  "echoed t \<longleftrightarrow> (\<exists>bs. t = (Got bs, WroteAll) \<and> bs \<noteq> [])"

lemma net_step_Some:
  "net_step n ev w = Some w' \<longleftrightarrow>
     backend_can ev w \<and> relay_step n (relay_part ev w) (en_relay w) = Some (en_relay w') \<and>
     en_turns w' = en_turns w @ backend_turn ev w"
  by (auto simp: net_step_def)

lemma net_stepE:
  assumes "net_step n ev w = Some w'"
  obtains s' where "backend_can ev w" "relay_step n (relay_part ev w) (en_relay w) = Some s'"
    "w' = w\<lparr>en_relay := s', en_turns := en_turns w @ backend_turn ev w\<rparr>"
  using assms by (auto simp: net_step_def split: if_splits)

lemma net_run_relay: "net_run n w \<Longrightarrow> relay_run n (en_relay w)"
proof (induction rule: net_run.induct)
  case start
  show ?case by (simp add: echo_net_new_def relay_run.start)
next
  case (step w ev w')
  then show ?case using relay_run.step net_step_Some by blast
qed

text \<open>The backend is the echo handler: what it has sent is what its loop sends on these turns.\<close>

lemma sync_echo_append:
  "list_all echoed ts \<Longrightarrow>
   sync_echo re (ts @ us) = (fst (sync_echo re us), snd (sync_echo re ts) @ snd (sync_echo re us))"
  by (induction ts) (auto simp: echoed_def split_beta)

text \<open>
  As long as the handler runs, every turn was echoed in full. When it has returned, it gave up or was
  told of the end; and it is told only when both threads of the relay have ended.
\<close>

definition backend_ok :: "echo_net \<Rightarrow> bool" where
  "backend_ok w \<longleftrightarrow>
     prefix (pr_sent (rl_peer (en_relay w) FromBackend)) (reached FromBackend (en_relay w)) \<and>
     (pr_fin (rl_peer (en_relay w) FromBackend) \<longrightarrow> handler_result w \<noteq> None) \<and>
     (if handler_result w = None then list_all echoed (en_turns w) else backend_gave_up w \<or> told_of_end w) \<and>
     (told_of_end w \<longrightarrow> relay_returned (en_relay w)) \<and>
     snd (sync_echo (\<lambda>msg. Ok ()) (en_turns w)) = as_bytes (pr_sent (rl_peer (en_relay w) FromBackend))"

lemma echoed_neither: "list_all echoed ts \<Longrightarrow> \<not> list_ex gave_up ts \<and> \<not> list_ex (\<lambda>(r, _). r = Got []) ts"
  by (induction ts) (auto simp: echoed_def)

text \<open>What reaches a peer only grows, and a thread that has ended stays so.\<close>

lemma pump_changes:
  assumes "relay_step n ev s = Some s'"
  shows "rl_pump s' y = rl_pump s y \<or>
    pm_phase (rl_pump s y) = Reading \<and> (\<exists>why r. rl_pump s' y = pump_reads why r (rl_pump s y)) \<or>
    (\<exists>c w. pm_phase (rl_pump s y) = Holding c \<and> rl_pump s' y = pump_writes w c (rl_pump s y))"
  using assms by (cases ev) (fastforce simp: Let_def split: if_splits pump_phase.splits)+

lemma flow_ok_partial: "flow_ok p t \<Longrightarrow> pm_phase t = Holding c \<Longrightarrow> pm_partial t = []"
  by (simp add: flow_ok_def pump_ok_def Let_def)

lemma reached_grows:
  assumes "relay_step n ev s = Some s'" "relay_ok s"
  shows "prefix (reached x s) (reached x s')"
  using pump_changes [OF assms(1), of "other x"]
proof (elim disjE exE conjE)
  fix c w assume h: "pm_phase (rl_pump s (other x)) = Holding c" "rl_pump s' (other x) = pump_writes w c (rl_pump s (other x))"
  then have "pm_partial (rl_pump s (other x)) = []" using assms(2) flow_ok_partial by (auto simp: relay_ok_def)
  then show ?thesis using h(2) by (cases w) (simp_all add: reached_def pump_writes_def)
qed (simp_all add: reached_def pump_reads_def)

lemma returned_stays: "relay_step n ev s = Some s' \<Longrightarrow> relay_returned s \<Longrightarrow> relay_returned s'"
  using stopped_stays [of n ev s s'] by (auto simp: relay_returned_def pump_stopped_def)

lemma backend_ok_new: "backend_ok echo_net_new"
  by (simp add: backend_ok_def echo_net_new_def relay_new_def peer_new_def handler_result_def told_of_end_def)

text \<open>Every event but the backend's own leaves what the backend has sent.\<close>

lemma backend_ok_others:
  assumes "backend_ok w" "relay_ok (en_relay w)" "net_step n ev w = Some w'"
    and "\<And>k r. ev \<noteq> BackendEchoes k r" "\<And>r. ev \<noteq> BackendStops r"
  shows "backend_ok w'"
proof -
  note st = assms(3) [unfolded net_step_Some]
  obtain s' where s': "relay_step n (relay_part ev w) (en_relay w) = Some s'" "en_relay w' = s'"
    using assms(3) by (rule net_stepE) simp
  have "pr_sent (rl_peer (en_relay w') FromBackend) = pr_sent (rl_peer (en_relay w) FromBackend) \<and> backend_turn ev w = []"
    unfolding s'(2) using s'(1) assms(4,5) by (cases ev) (auto simp: Let_def split: if_splits pump_phase.splits)
  moreover have "pr_fin (rl_peer (en_relay w') FromBackend) \<Longrightarrow>
      pr_fin (rl_peer (en_relay w) FromBackend) \<or> handler_result w \<noteq> None"
    unfolding s'(2) using s'(1) st [THEN conjunct1] assms(4,5)
    by (cases ev) (auto simp: Let_def split: if_splits pump_phase.splits)
  moreover have "prefix (reached FromBackend (en_relay w)) (reached FromBackend (en_relay w'))"
    using reached_grows st assms(2) by blast
  moreover have "relay_returned (en_relay w) \<Longrightarrow> relay_returned (en_relay w')" using returned_stays st by blast
  moreover have "en_turns w' = en_turns w" using calculation(1) st by simp
  ultimately show ?thesis using assms(1)
    by (auto simp: backend_ok_def handler_result_def backend_gave_up_def told_of_end_def split: if_splits)
qed

lemma backend_ok_echoes:
  assumes "backend_ok w" "net_step n (BackendEchoes k r) w = Some w'"
  shows "backend_ok w'"
proof -
  let ?s = "pr_sent (rl_peer (en_relay w) FromBackend)" and ?r = "reached FromBackend (en_relay w)"
  let ?c = "take k (unread w)" and ?t = "(Got (as_bytes (take k (unread w))), r)"
  from assms(2) obtain s' where st: "backend_can (BackendEchoes k r) w"
      "relay_step n (relay_part (BackendEchoes k r) w) (en_relay w) = Some s'"
      "w' = w\<lparr>en_relay := s', en_turns := en_turns w @ backend_turn (BackendEchoes k r) w\<rparr>" by (rule net_stepE)
  then have w': "handler_result w = None" "0 < k" "unread w \<noteq> []" "rl_pump (en_relay w') = rl_pump (en_relay w)"
      "pr_sent (rl_peer (en_relay w') FromBackend) = ?s @ sent_bytes r ?c"
      "\<not> pr_fin (rl_peer (en_relay w') FromBackend)" "en_turns w' = en_turns w @ [?t]"
    by (auto simp: Let_def split: if_splits)
  have echo: "list_all echoed (en_turns w)" "snd (sync_echo (\<lambda>msg. Ok ()) (en_turns w)) = as_bytes ?s"
    using assms(1) w'(1) by (simp_all add: backend_ok_def)
  have ne: "as_bytes ?c \<noteq> []" using w'(2,3) by (cases "unread w"; cases k) simp_all
  note loop = sync_echo_append [OF echo(1), of "\<lambda>msg. Ok ()" "[?t]"]
  have reach: "reached FromBackend (en_relay w') = ?r" using w'(4) by (simp add: reached_def)
  have "?r = ?s @ unread w" using assms(1) by (auto simp: backend_ok_def unread_def prefix_def)
  moreover have "prefix (sent_bytes r ?c) (unread w)" by (cases r) (simp_all add: take_is_prefix)
  ultimately have "prefix (?s @ sent_bytes r ?c) ?r" by simp
  moreover have "\<not> told_of_end w'" using echoed_neither [OF echo(1)] ne by (auto simp: told_of_end_def w'(7))
  moreover have "if handler_result w' = None then list_all echoed (en_turns w') else backend_gave_up w' \<or> told_of_end w'"
    using loop ne echo(1) by (cases r) (simp_all add: handler_result_def backend_gave_up_def echoed_def w'(7))
  moreover have "snd (sync_echo (\<lambda>msg. Ok ()) (en_turns w')) = as_bytes (?s @ sent_bytes r ?c)"
    using loop ne echo(2) by (cases r) (simp_all add: w'(7) as_bytes_def take_map)
  ultimately show ?thesis using w'(5,6) reach by (simp add: backend_ok_def)
qed

lemma backend_ok_stops:
  assumes "backend_ok w" "net_step n (BackendStops r) w = Some w'"
  shows "backend_ok w'"
proof -
  from assms(2) obtain s' where st: "backend_can (BackendStops r) w"
      "relay_step n (relay_part (BackendStops r) w) (en_relay w) = Some s'"
      "w' = w\<lparr>en_relay := s', en_turns := en_turns w @ backend_turn (BackendStops r) w\<rparr>" by (rule net_stepE)
  then have w': "handler_result w = None" "rl_pump (en_relay w') = rl_pump (en_relay w)"
      "pr_sent (rl_peer (en_relay w') FromBackend) = pr_sent (rl_peer (en_relay w) FromBackend)"
      "en_turns w' = en_turns w @ [(r, WroteAll)]"
    by (auto simp: Let_def split: if_splits)
  have echo: "list_all echoed (en_turns w)" using assms(1) w'(1) by (simp add: backend_ok_def)
  note loop = sync_echo_append [OF this, of "\<lambda>msg. Ok ()" "[(r, WroteAll)]"]
  have same: "reached FromBackend (en_relay w') = reached FromBackend (en_relay w)"
      "relay_returned (en_relay w') = relay_returned (en_relay w)"
    using w'(2) by (simp_all add: reached_def relay_returned_def pump_stopped_def)
  have "relay_returned (en_relay w)" if "r = Got []"
    using st(1) that by (auto simp: sees_end_def relay_returned_def)
  moreover have "gave_up (r, WroteAll) \<or> r = Got []" "handler_result w' \<noteq> None"
      "snd (sync_echo (\<lambda>msg. Ok ()) (en_turns w')) = snd (sync_echo (\<lambda>msg. Ok ()) (en_turns w))"
    using st(1) loop by (cases r; simp add: handler_result_def w'(4))+
  ultimately show ?thesis using assms(1) same w'(3) echoed_neither [OF echo]
    by (auto simp: backend_ok_def backend_gave_up_def told_of_end_def w'(4))
qed

lemma net_run_ok: "net_run n w \<Longrightarrow> backend_ok w"
proof (induction rule: net_run.induct)
  case start
  show ?case by (rule backend_ok_new)
next
  case (step w ev w')
  have "relay_ok (en_relay w)" using step.hyps(1) net_run_relay relay_run_ok by blast
  then show ?case using step backend_ok_others backend_ok_echoes backend_ok_stops by (metis net_event.exhaust)
qed

text \<open>
  Nothing makes the thread that reads from the backend end but its time-out, a failed read or write,
  and a backend that gave up.
\<close>

lemma reply_thread_waits:
  assumes "net_run n w" "0 < n" "pm_phase (rl_pump (en_relay w) FromBackend) = Stopped why"
  shows "why \<in> {IdleTooLong, ReadBroke, WriteBroke} \<or> backend_gave_up w"
  using assms(1,3)
proof (induction arbitrary: why rule: net_run.induct)
  case start
  then show ?case by (simp add: echo_net_new_def relay_new_def pump_new_def)
next
  case (step w ev w')
  obtain s' where st: "relay_step n (relay_part ev w) (en_relay w) = Some s'" "en_relay w' = s'"
      "en_turns w' = en_turns w @ backend_turn ev w"
    using step.hyps(2) by (rule net_stepE) simp
  have ok: "backend_ok w" "relay_ok (en_relay w)"
    using net_run_ok net_run_relay relay_run_ok step.hyps(1) by blast+
  have grows: "backend_gave_up w \<Longrightarrow> backend_gave_up w'" by (simp add: backend_gave_up_def st(3))
  have over: "pr_fin (rl_peer (en_relay w) FromBackend) \<Longrightarrow> pump_stopped FromBackend (en_relay w) \<or> backend_gave_up w"
    using ok by (auto simp: backend_ok_def relay_returned_def split: if_splits)
  have "pm_phase (rl_pump (en_relay w) FromBackend) = Stopped why \<or> why \<in> {IdleTooLong, ReadBroke, WriteBroke} \<or>
      (pm_phase (rl_pump (en_relay w) FromBackend) = Reading \<and> pr_fin (rl_peer (en_relay w) FromBackend))"
    using st(1) step.prems [unfolded st(2)] assms(2)
    by (cases ev) (auto simp: Let_def pump_reads_def pump_writes_def split: if_splits pump_phase.splits written.splits)
  then show ?case using step.IH grows over by (auto simp: pump_stopped_def)
qed

section \<open>The relay makes progress\<close>

definition held :: "pump \<Rightarrow> string" where
  "held t = (case pm_phase t of Holding c \<Rightarrow> c | _ \<Rightarrow> [])"

text \<open>
  What is left to do: every byte still has its way to go, every thread its end, and the backend to
  return and to close.
\<close>

definition way_left :: "nat \<Rightarrow> nat \<Rightarrow> peer \<Rightarrow> pump \<Rightarrow> nat" where
  "way_left a b p t =
     a * length (pr_inbox p) + b * length (held t) + (case pm_phase t of Stopped _ \<Rightarrow> 0 | _ \<Rightarrow> 1)"

definition work :: "echo_net \<Rightarrow> nat" where
  "work w =
     way_left 5 4 (rl_peer (en_relay w) FromClient) (rl_pump (en_relay w) FromClient) + 3 * length (unread w) +
     way_left 2 1 (rl_peer (en_relay w) FromBackend) (rl_pump (en_relay w) FromBackend) +
     of_bool (handler_result w = None) + of_bool (\<not> pr_fin (rl_peer (en_relay w) FromBackend))"

lemma reads_keep:
  assumes "relay_step n ev s = Some s'" "ev = PumpReads x k \<or> ev = PumpIdles x \<or> ev = PumpBreaks x msg"
  shows "rl_peer s' (other x) = rl_peer s (other x)" "rl_pump s' (other x) = rl_pump s (other x)"
    and "pr_sent (rl_peer s' y) = pr_sent (rl_peer s y)" "pr_fin (rl_peer s' y) = pr_fin (rl_peer s y)"
    and "reached y s' = reached y s"
  using assms by (auto simp: Let_def reached_def pump_reads_def split: if_splits)

lemma way_left_reads:
  assumes "relay_step n ev s = Some s'" "ev = PumpReads x k \<or> ev = PumpIdles x \<or> ev = PumpBreaks x msg" "b < a"
  shows "way_left a b (rl_peer s' x) (rl_pump s' x) < way_left a b (rl_peer s x) (rl_pump s x)"
proof -
  have less: "a * (l - k) + b * min l k < a * l" if "0 < l" "0 < k" for l k
  proof -
    have "a * l = a * (l - k) + a * min l k" by (simp add: add_mult_distrib2 [symmetric] min_def)
    then show ?thesis using that assms(3) by simp
  qed
  show "way_left a b (rl_peer s' x) (rl_pump s' x) < way_left a b (rl_peer s x) (rl_pump s x)"
    using assms(1,2) less [of "length (pr_inbox (rl_peer s x))" k]
    by (auto simp: Let_def way_left_def held_def pump_reads_def split: if_splits)
qed

lemma way_left_writes:
  assumes "relay_step n (PumpWrites x r) s = Some s'" "relay_ok s"
  obtains c where "c \<noteq> []" "rl_peer s' = rl_peer s" "rl_pump s' (other x) = rl_pump s (other x)"
    "reached (other x) s' = reached (other x) s @ sent_bytes r c" "reached x s' = reached x s"
    "way_left a b (rl_peer s x) (rl_pump s' x) + b * length c \<le> way_left a b (rl_peer s x) (rl_pump s x)"
proof -
  obtain c where c: "pm_phase (rl_pump s x) = Holding c" and s': "s' = set_pump x (pump_writes r c (rl_pump s x)) s"
    using assms(1) by (auto split: pump_phase.splits)
  have "flow_ok (rl_peer s x) (rl_pump s x)" using assms(2) by (simp add: relay_ok_def)
  then have ne: "c \<noteq> []" "pm_partial (rl_pump s x) = []" using c by (auto simp: flow_ok_def pump_ok_def Let_def)
  show thesis
  proof (rule that)
    show "c \<noteq> []" by (rule ne)
    show "rl_peer s' = rl_peer s" "rl_pump s' (other x) = rl_pump s (other x)" by (simp_all add: s')
    show "reached (other x) s' = reached (other x) s @ sent_bytes r c"
      using ne c by (cases r) (simp_all add: s' reached_def pump_writes_def)
    show "reached x s' = reached x s" by (simp add: s' reached_def)
    show "way_left a b (rl_peer s x) (rl_pump s' x) + b * length c \<le> way_left a b (rl_peer s x) (rl_pump s x)"
      using c by (cases r) (simp_all add: s' way_left_def held_def pump_writes_def)
  qed
qed

lemma sent_bytes_length: "length (sent_bytes w bs) \<le> length bs"
  by (cases w) simp_all

lemma unread_reached:
  assumes "backend_ok w"
  shows "reached FromBackend (en_relay w) = pr_sent (rl_peer (en_relay w) FromBackend) @ unread w"
  using assms by (auto simp: backend_ok_def unread_def prefix_def)

lemma net_work:
  assumes "net_run n w" "net_step n ev w = Some w'" "ev \<noteq> ClientEnds" "\<And>bs. ev \<noteq> ClientSends bs"
  shows "work w' < work w"
proof -
  have ok: "backend_ok w" "relay_ok (en_relay w)"
    using net_run_ok net_run_relay relay_run_ok assms(1) by blast+
  obtain s' where st: "backend_can ev w" "relay_step n (relay_part ev w) (en_relay w) = Some s'"
      "w' = w\<lparr>en_relay := s', en_turns := en_turns w @ backend_turn ev w\<rparr>"
    using assms(2) by (rule net_stepE)
  have w': "en_relay w' = s'" using st(3) by simp
  have reads: "work w' < work w" if "relay_part ev w = PumpReads x k \<or> relay_part ev w = PumpIdles x \<or> relay_part ev w = PumpBreaks x msg"
      "backend_turn ev w = []" for x k msg
  proof -
    note keep = reads_keep [OF st(2) that(1)]
    have less: "way_left 5 4 (rl_peer s' x) (rl_pump s' x) < way_left 5 4 (rl_peer (en_relay w) x) (rl_pump (en_relay w) x)"
        "way_left 2 1 (rl_peer s' x) (rl_pump s' x) < way_left 2 1 (rl_peer (en_relay w) x) (rl_pump (en_relay w) x)"
      by (rule way_left_reads [OF st(2) that(1)], simp)+
    have "unread w' = unread w" "handler_result w' = handler_result w"
      by (simp_all only: unread_def handler_result_def w' keep) (simp add: st(3) that(2))
    moreover have "rl_peer s' FromBackend = rl_peer (en_relay w) FromBackend \<and>
        rl_pump s' FromBackend = rl_pump (en_relay w) FromBackend" if "x = FromClient"
      using keep(1,2) that by simp
    moreover have "rl_peer s' FromClient = rl_peer (en_relay w) FromClient \<and>
        rl_pump s' FromClient = rl_pump (en_relay w) FromClient" if "x = FromBackend"
      using keep(1,2) that by simp
    moreover note keep(4) [of FromBackend]
    ultimately show ?thesis unfolding work_def w' using less by (cases x) auto
  qed
  show ?thesis
  proof (cases ev)
    case (ProxyWrites x r)
    then have "relay_step n (PumpWrites x r) (en_relay w) = Some s'" using st(2) by simp
    note wr = this
    have same: "handler_result w' = handler_result w" using st(3) ProxyWrites by (simp add: handler_result_def)
    show ?thesis
    proof (cases x)
      case FromClient
      obtain c where "c \<noteq> []"
          "rl_peer s' = rl_peer (en_relay w)" "rl_pump s' (other x) = rl_pump (en_relay w) (other x)"
          "reached (other x) s' = reached (other x) (en_relay w) @ sent_bytes r c" "reached x s' = reached x (en_relay w)"
          "way_left 5 4 (rl_peer (en_relay w) x) (rl_pump s' x) + 4 * length c \<le>
            way_left 5 4 (rl_peer (en_relay w) x) (rl_pump (en_relay w) x)"
        by (rule way_left_writes [OF wr ok(2)])
      note c = this [unfolded FromClient other.simps]
      then obtain c0 cs where "c = c0 # cs" by (cases c) auto
      moreover have "unread w' = unread w @ sent_bytes r c"
        using c(2,4) unread_reached [OF ok(1)] by (simp add: unread_def [of w'] w')
      ultimately show ?thesis using c(2,3,6) sent_bytes_length [of r c] same by (simp add: work_def w')
    next
      case FromBackend
      obtain c where "c \<noteq> []"
          "rl_peer s' = rl_peer (en_relay w)" "rl_pump s' (other x) = rl_pump (en_relay w) (other x)"
          "reached (other x) s' = reached (other x) (en_relay w) @ sent_bytes r c" "reached x s' = reached x (en_relay w)"
          "way_left 2 1 (rl_peer (en_relay w) x) (rl_pump s' x) + 1 * length c \<le>
            way_left 2 1 (rl_peer (en_relay w) x) (rl_pump (en_relay w) x)"
        by (rule way_left_writes [OF wr ok(2)])
      note c = this [unfolded FromBackend other.simps]
      then obtain c0 cs where "c = c0 # cs" by (cases c) auto
      moreover have "unread w' = unread w" using c(2,5) by (simp add: unread_def w')
      ultimately show ?thesis using c(2,3,6) same by (simp add: work_def w')
    qed
  next
    case (BackendEchoes k r)
    let ?p = "rl_peer (en_relay w) FromBackend" and ?new = "sent_bytes r (take k (unread w))"
    have ok': "backend_ok w'" using backend_ok_echoes [OF ok(1)] assms(2) BackendEchoes by blast
    have running: "handler_result w = None" "0 < length (take k (unread w))" using st(1) BackendEchoes by simp_all
    have s': "s' = set_peer FromBackend (?p\<lparr>pr_inbox := pr_inbox ?p @ ?new, pr_sent := pr_sent ?p @ ?new\<rparr>) (en_relay w)"
      using st(2) BackendEchoes by (simp add: Let_def split: if_splits)
    have "reached FromBackend s' = reached FromBackend (en_relay w)" by (simp add: s' reached_def)
    then have "unread w = ?new @ unread w'" using unread_reached [OF ok'] unread_reached [OF ok(1)] by (simp add: s' w')
    then have "length (unread w') + length ?new = length (unread w)" by (metis add.commute length_append)
    moreover have "length ?new = 0 \<longrightarrow> handler_result w' \<noteq> None"
      using running(2) sync_echo_append [of "en_turns w" "\<lambda>msg. Ok ()" "[(Got (as_bytes (take k (unread w))), r)]"]
        ok(1) running(1) BackendEchoes
      by (cases r) (auto simp: handler_result_def backend_ok_def st(3) as_bytes_def)
    ultimately show ?thesis using running(1) by (cases "length ?new") (auto simp: work_def w' s' way_left_def)
  next
    case (BackendStops r)
    let ?p = "rl_peer (en_relay w) FromBackend"
    have s': "s' = en_relay w" "handler_result w = None" "backend_can (BackendStops r) w"
      using st(1,2) BackendStops by (simp_all add: Let_def set_peer_def split: if_splits)
    have "list_all echoed (en_turns w)" using ok(1) s'(2) by (simp add: backend_ok_def)
    from sync_echo_append [OF this, of "\<lambda>msg. Ok ()" "[(r, WroteAll)]"]
    have "handler_result w' \<noteq> None"
      using s'(3) BackendStops by (cases r) (simp_all add: handler_result_def st(3))
    then show ?thesis using s'(1,2) by (simp add: work_def w' unread_def)
  next
    case BackendCloses
    let ?p = "rl_peer (en_relay w) FromBackend"
    have s': "s' = set_peer FromBackend (?p\<lparr>pr_fin := True\<rparr>) (en_relay w)" "\<not> pr_fin ?p"
      using st(1,2) BackendCloses by simp_all
    have "unread w' = unread w" "handler_result w' = handler_result w"
      using BackendCloses by (simp_all add: unread_def handler_result_def w' s'(1) reached_def st(3))
    then show ?thesis using s'(2) by (simp add: work_def w' s'(1) way_left_def)
  next
    case (ProxyReads x k)
    then show ?thesis by (intro reads [of x k "[]"]) simp_all
  next
    case (ProxyIdles x)
    then show ?thesis by (intro reads [of x 0 "[]"]) simp_all
  next
    case (ProxyBreaks x msg)
    then show ?thesis by (intro reads [of x 0 msg]) simp_all
  qed (use assms(3,4) in simp_all)
qed

lemma relay_in_order_aux:
  assumes "relay_run n s" "pm_phase (rl_pump s x) \<noteq> Stopped WriteBroke"
  shows "pr_sent (rl_peer s x) = reached (other x) s @ held (rl_pump s x) @ pr_inbox (rl_peer s x)"
proof -
  have "flow_ok (rl_peer s x) (rl_pump s x)" using relay_run_ok [OF assms(1)] by (simp add: relay_ok_def)
  then show ?thesis using assms(2)
    by (auto simp: flow_ok_def pump_ok_def reached_def held_def Let_def split: pump_phase.splits stop.splits)
qed

text \<open>Runs given by their events.\<close>

fun exec :: "('e \<Rightarrow> 's \<Rightarrow> 's option) \<Rightarrow> 'e list \<Rightarrow> 's \<Rightarrow> 's option" where
  "exec step [] s = Some s"
| "exec step (ev # evs) s = (case step ev s of None \<Rightarrow> None | Some s' \<Rightarrow> exec step evs s')"

lemma exec_relay: "exec (relay_step n) evs s = Some s' \<Longrightarrow> relay_run n s \<Longrightarrow> relay_run n s'"
  by (induction evs arbitrary: s) (auto intro: relay_run.step split: option.splits)

lemma exec_net: "exec (net_step n) evs w = Some w' \<Longrightarrow> net_run n w \<Longrightarrow> net_run n w'"
  by (induction evs arbitrary: w) (auto intro: net_run.step split: option.splits)

lemmas net_eval = net_step_def echo_net_new_def relay_new_def peer_new_def pump_new_def set_peer_def set_pump_def
  pump_reads_def pump_writes_def unread_def reached_def sees_end_def pump_stopped_def relay_returned_def Let_def
  handler_result_def backend_gave_up_def

text \<open>The client sends \<open>hi\<close>, ends its stream, and receives the echo.\<close>

definition hi_events :: "net_event list" where
  "hi_events =
     [ClientSends ''hi'', ClientEnds, ProxyReads FromClient 2, ProxyWrites FromClient WroteAll, BackendEchoes 2 WroteAll,
      ProxyReads FromBackend 2, ProxyWrites FromBackend WroteAll, ProxyReads FromClient 1]"

lemma hi_run:
  obtains w where "net_run 8192 w" "reached FromClient (en_relay w) = ''hi''"
    "pr_fin (rl_peer (en_relay w) FromClient)" "pump_stopped FromClient (en_relay w)"
    "pm_phase (rl_pump (en_relay w) FromBackend) = Reading" "pr_inbox (rl_peer (en_relay w) FromBackend) = []"
    "unread w = []" "pr_sent (rl_peer (en_relay w) FromClient) = ''hi''"
    "pm_phase (rl_pump (en_relay w) FromClient) = Stopped SawEnd" "\<not> pr_fin (rl_peer (en_relay w) FromBackend)"
    "\<not> backend_gave_up w"
proof -
  have "\<exists>w. exec (net_step 8192) hi_events echo_net_new = Some w \<and> reached FromClient (en_relay w) = ''hi'' \<and>
      pr_fin (rl_peer (en_relay w) FromClient) \<and> pump_stopped FromClient (en_relay w) \<and>
      pm_phase (rl_pump (en_relay w) FromBackend) = Reading \<and> pr_inbox (rl_peer (en_relay w) FromBackend) = [] \<and>
      unread w = [] \<and> pr_sent (rl_peer (en_relay w) FromClient) = ''hi'' \<and>
      pm_phase (rl_pump (en_relay w) FromClient) = Stopped SawEnd \<and> \<not> pr_fin (rl_peer (en_relay w) FromBackend) \<and>
      \<not> backend_gave_up w"
    by (simp add: hi_events_def net_eval)
  then show thesis using that exec_net net_run.start by blast
qed

section \<open>Properties\<close>

text \<open>
  C9. The relay keeps the order of the bytes and loses none, in every interleaving of its two threads
  with the two peers: what has reached a peer is a prefix of what the other peer sent; as long as
  the thread in between has not failed to write, the rest is what the thread holds and what it has
  not read; what a thread did is a run of the sequential copy loop on the answers it got; and
  \<open>forward_bidirectional\<close> has returned exactly when both loops have ended.
\<close>

theorem relay_in_order:
  assumes "relay_run n s"
  shows "prefix (reached (other x) s) (pr_sent (rl_peer s x)) \<and>
    (pm_phase (rl_pump s x) \<noteq> Stopped WriteBroke \<longrightarrow>
       pr_sent (rl_peer s x) = reached (other x) s @ held (rl_pump s x) @ pr_inbox (rl_peer s x)) \<and>
    copy_loop (pm_reads (rl_pump s x)) (pm_writes (rl_pump s x)) = (pm_copied (rl_pump s x), pump_stopped x s) \<and>
    (relay_returned s \<longleftrightarrow> (\<forall>y. snd (copy_loop (pm_reads (rl_pump s y)) (pm_writes (rl_pump s y)))))"
proof -
  have ok: "flow_ok (rl_peer s y) (rl_pump s y)" for y using relay_run_ok [OF assms] by (simp add: relay_ok_def)
  then have loop: "copy_loop (pm_reads (rl_pump s y)) (pm_writes (rl_pump s y)) = (pm_copied (rl_pump s y), pump_stopped y s)" for y
    using pump_is_copy_loop by (simp add: flow_ok_def pump_stopped_def)
  show ?thesis using flow_ok_prefix [OF ok [of x]] loop relay_in_order_aux [OF assms, of x]
    by (simp add: reached_def relay_returned_def both_sides)
qed

text \<open>
  C10. The blocking relay does not pass on the end of a stream. In front of an echo server with its own
  time-out, and with a buffer that is not empty, whatever the client sends, whether it ends its stream,
  and however the threads are scheduled: the backend is told of the end only when both
  threads have ended, and the thread that reads from the backend ends only when its read runs into
  the time-out or fails, when a write to the client fails, or when the backend gave up by itself, which is its
  own time-out, a failed read or a failed write. So the end of the client's stream alone never makes
  \<open>forward_bidirectional\<close> return, ends the handler of the backend, or shows the client the end of the
  reply: one of the two time-outs or a failure has to come first, although every byte may long have
  been delivered. (With an empty buffer both threads end at once, \<open>empty_buffer_relays_nothing\<close>.)
\<close>

theorem relay_end_not_passed_on:
  assumes "net_run n w" "0 < n"
  shows "(pm_phase (rl_pump (en_relay w) FromBackend) = Stopped why \<longrightarrow>
       why \<in> {IdleTooLong, ReadBroke, WriteBroke} \<or> backend_gave_up w) \<and>
    (relay_returned (en_relay w) \<longrightarrow>
       pm_phase (rl_pump (en_relay w) FromBackend) \<in> {Stopped IdleTooLong, Stopped ReadBroke, Stopped WriteBroke} \<or>
       backend_gave_up w) \<and>
    (sees_end x (en_relay w) \<longleftrightarrow> relay_returned (en_relay w)) \<and>
    (told_of_end w \<longrightarrow> relay_returned (en_relay w)) \<and>
    (handler_result w \<noteq> None \<longrightarrow> relay_returned (en_relay w) \<or> backend_gave_up w) \<and>
    (pr_fin (rl_peer (en_relay w) FromBackend) \<longrightarrow> relay_returned (en_relay w) \<or> backend_gave_up w)"
proof -
  have "relay_returned (en_relay w) \<Longrightarrow> \<exists>why. pm_phase (rl_pump (en_relay w) FromBackend) = Stopped why"
    by (auto simp: relay_returned_def pump_stopped_def split: pump_phase.splits)
  moreover have "sees_end x (en_relay w) \<longleftrightarrow> relay_returned (en_relay w)"
    by (cases x) (auto simp: sees_end_def relay_returned_def)
  moreover have "told_of_end w \<Longrightarrow> relay_returned (en_relay w)"
    "handler_result w \<noteq> None \<Longrightarrow> relay_returned (en_relay w) \<or> backend_gave_up w"
    "pr_fin (rl_peer (en_relay w) FromBackend) \<Longrightarrow> relay_returned (en_relay w) \<or> backend_gave_up w"
    using net_run_ok [OF assms(1)] by (auto simp: backend_ok_def split: if_splits)
  ultimately show ?thesis using reply_thread_waits [OF assms] by blast
qed

text \<open>
  C11. The relay in front of an echo server delivers, with a buffer that is not empty: every event but
  those of the client uses up work, so only finitely many can come in a row, whatever their order; and
  when no thread has run into a time-out or failed to read or write, nor has the backend, and no
  thread can read or write and the backend has nothing to echo, then the client has received exactly
  what it sent. (With an empty buffer nothing is ever delivered, \<open>empty_buffer_relays_nothing\<close>.)
\<close>

theorem relay_echo_complete:
  assumes "net_run n w" "0 < n"
  shows "(\<forall>ev w'. net_step n ev w = Some w' \<and> ev \<noteq> ClientEnds \<and> (\<forall>bs. ev \<noteq> ClientSends bs) \<longrightarrow>
       work w' < work w) \<and>
    ((\<forall>x. pm_phase (rl_pump (en_relay w) x) \<notin> {Stopped IdleTooLong, Stopped ReadBroke, Stopped WriteBroke} \<and>
        net_step n (ProxyReads x 1) w = None \<and> net_step n (ProxyWrites x WroteAll) w = None) \<and>
      \<not> backend_gave_up w \<and> net_step n (BackendEchoes 1 WroteAll) w = None \<longrightarrow>
      reached FromClient (en_relay w) = pr_sent (rl_peer (en_relay w) FromClient))"
proof (intro conjI impI allI)
  fix ev w' assume "net_step n ev w = Some w' \<and> ev \<noteq> ClientEnds \<and> (\<forall>bs. ev \<noteq> ClientSends bs)"
  then show "work w' < work w" using net_work [OF assms(1)] by blast
next
  assume stuck: "(\<forall>x. pm_phase (rl_pump (en_relay w) x) \<notin> {Stopped IdleTooLong, Stopped ReadBroke, Stopped WriteBroke} \<and>
        net_step n (ProxyReads x 1) w = None \<and> net_step n (ProxyWrites x WroteAll) w = None) \<and>
      \<not> backend_gave_up w \<and> net_step n (BackendEchoes 1 WroteAll) w = None"
  have run: "relay_run n (en_relay w)" using net_run_relay [OF assms(1)] .
  have ok: "backend_ok w" using net_run_ok [OF assms(1)] .
  have down: "\<not> pump_stopped FromBackend (en_relay w)"
    using stuck reply_thread_waits [OF assms] by (auto simp: pump_stopped_def split: pump_phase.splits)
  have idle: "held (rl_pump (en_relay w) x) = [] \<and> pr_inbox (rl_peer (en_relay w) x) = []" for x
  proof (cases "pm_phase (rl_pump (en_relay w) x)")
    case (Holding c)
    then show ?thesis using stuck [THEN conjunct1, rule_format, of x] by (simp add: net_step_def)
  next
    case Reading
    then show ?thesis using stuck [THEN conjunct1, rule_format, of x] assms(2)
      by (auto simp: net_step_def Let_def held_def split: if_splits)
  next
    case (Stopped why)
    then have "why = SawEnd" using stuck [THEN conjunct1, rule_format, of x] by (cases why) auto
    then show ?thesis using saw_end_read_all [OF run] Stopped assms(2) by (simp add: held_def)
  qed
  have "handler_result w = None" "\<not> pr_fin (rl_peer (en_relay w) FromBackend)"
    using ok down stuck by (auto simp: backend_ok_def relay_returned_def split: if_splits)
  moreover have "net_step n (BackendEchoes 1 WroteAll) w = None" using stuck by blast
  ultimately have "unread w = []" by (auto simp: net_step_def Let_def split: if_splits)
  then have "reached FromBackend (en_relay w) = pr_sent (rl_peer (en_relay w) FromBackend)"
    using unread_reached [OF ok] by simp
  moreover have "pr_sent (rl_peer (en_relay w) x) = reached (other x) (en_relay w)" for x
    using relay_in_order_aux [OF run, of x] idle [of x] stuck by auto
  ultimately show "reached FromClient (en_relay w) = pr_sent (rl_peer (en_relay w) FromClient)"
    by (metis other.simps)
qed

theorem relay_in_order_witness:
  "\<exists>w. net_run 8192 w \<and> prefix ''hi'' (pr_sent (rl_peer (en_relay w) FromBackend))"
proof -
  obtain w where w: "net_run 8192 w" "reached FromClient (en_relay w) = ''hi''" by (rule hi_run)
  show ?thesis using w relay_in_order [OF net_run_relay [OF w(1)], of FromBackend] by auto
qed

theorem relay_end_not_passed_on_witness:
  "\<exists>w. net_run 8192 w \<and> reached FromClient (en_relay w) = ''hi'' \<and> pr_fin (rl_peer (en_relay w) FromClient) \<and>
     \<not> sees_end FromClient (en_relay w)"
proof -
  obtain w where w: "net_run 8192 w" "reached FromClient (en_relay w) = ''hi''"
      "pr_fin (rl_peer (en_relay w) FromClient)" "pm_phase (rl_pump (en_relay w) FromBackend) = Reading"
      "\<not> backend_gave_up w"
    by (rule hi_run)
  show ?thesis using w relay_end_not_passed_on [OF w(1), of _ FromClient] by auto
qed

theorem relay_echo_complete_witness:
  "\<exists>w. net_run 8192 w \<and> reached FromClient (en_relay w) = pr_sent (rl_peer (en_relay w) FromClient) \<and>
     pr_sent (rl_peer (en_relay w) FromClient) = ''hi''"
proof -
  obtain w where w: "net_run 8192 w" "pm_phase (rl_pump (en_relay w) FromBackend) = Reading"
      "pr_inbox (rl_peer (en_relay w) FromBackend) = []" "unread w = []" "pr_sent (rl_peer (en_relay w) FromClient) = ''hi''"
      "pm_phase (rl_pump (en_relay w) FromClient) = Stopped SawEnd" "\<not> pr_fin (rl_peer (en_relay w) FromBackend)"
      "\<not> backend_gave_up w"
    by (rule hi_run)
  have "pm_phase (rl_pump (en_relay w) x) \<notin> {Stopped IdleTooLong, Stopped ReadBroke, Stopped WriteBroke} \<and>
      net_step 8192 (ProxyReads x 1) w = None \<and> net_step 8192 (ProxyWrites x WroteAll) w = None" for x
    using w by (cases x) (simp_all add: net_step_def Let_def)
  moreover have "net_step 8192 (BackendEchoes 1 WroteAll) w = None" using w(4) by (simp add: net_step_def)
  ultimately show ?thesis using w(1,5,8) relay_echo_complete [OF w(1)] by auto
qed

text \<open>
  The exception is real: here the backend's own time-out comes first, its handler returns \<open>Ok\<close> and closes,
  the reply thread sees the end, and so the relay returns and the client sees the end of the reply.
\<close>

lemma backend_time_out_first:
  "\<exists>w. net_run 8192 w \<and> backend_gave_up w \<and> handler_result w = Some (Ok ()) \<and>
     pm_phase (rl_pump (en_relay w) FromBackend) = Stopped SawEnd \<and> sees_end FromClient (en_relay w) \<and>
     reached FromClient (en_relay w) = ''hi''"
proof -
  have "\<exists>w. exec (net_step 8192) (hi_events @ [BackendStops WouldBlock, BackendCloses, ProxyReads FromBackend 1]) echo_net_new = Some w \<and>
      backend_gave_up w \<and> handler_result w = Some (Ok ()) \<and>
      pm_phase (rl_pump (en_relay w) FromBackend) = Stopped SawEnd \<and> sees_end FromClient (en_relay w) \<and>
      reached FromClient (en_relay w) = ''hi''"
    by (simp add: hi_events_def net_eval)
  then show ?thesis using exec_net net_run.start by blast
qed

text \<open>
  A direction that was silent for the time-out is dead while the connection lives: its thread has
  ended, and nothing that is sent later in that direction ever arrives, whatever happens. Here the
  client is silent while the backend replies, then speaks, and the backend never hears it.
\<close>

lemma stopped_for_good:
  assumes "pump_stopped x s" "exec (relay_step n) evs s = Some s'"
  shows "reached (other x) s' = reached (other x) s"
  using assms
proof (induction evs arbitrary: s)
  case (Cons ev evs)
  then obtain s1 where s1: "relay_step n ev s = Some s1" "exec (relay_step n) evs s1 = Some s'" by (auto split: option.splits)
  have "rl_pump s1 x = rl_pump s x" using stopped_stays [OF s1(1) Cons.prems(1)] .
  then show ?case using Cons.IH [OF _ s1(2)] Cons.prems(1) by (simp add: reached_def pump_stopped_def)
qed simp

lemma silent_direction_dies:
  "\<exists>s. relay_run 8192 s \<and> pr_sent (rl_peer s FromClient) = ''more'' \<and> \<not> pr_fin (rl_peer s FromClient) \<and>
     \<not> pump_stopped FromBackend s \<and>
     (\<forall>evs s'. exec (relay_step 8192) evs s = Some s' \<longrightarrow> reached FromBackend s' = [])"
proof -
  let ?evs = "[PeerSends FromBackend ''part'', PumpReads FromBackend 4, PumpWrites FromBackend WroteAll, PumpIdles FromClient,
    PeerSends FromClient ''more'']"
  have "\<exists>s. exec (relay_step 8192) ?evs relay_new = Some s \<and> pr_sent (rl_peer s FromClient) = ''more'' \<and>
      \<not> pr_fin (rl_peer s FromClient) \<and> pump_stopped FromClient s \<and> \<not> pump_stopped FromBackend s \<and> reached FromBackend s = []"
    by (simp add: net_eval)
  then obtain s where s: "exec (relay_step 8192) ?evs relay_new = Some s" "pr_sent (rl_peer s FromClient) = ''more''"
      "\<not> pr_fin (rl_peer s FromClient)" "pump_stopped FromClient s" "\<not> pump_stopped FromBackend s" "reached FromBackend s = []"
    by blast
  have "reached FromBackend s' = []" if "exec (relay_step 8192) evs s = Some s'" for evs s'
    using stopped_for_good [OF s(4) that] s(6) by simp
  then show ?thesis using s exec_relay [OF s(1) relay_run.start] by blast
qed

text \<open>A buffer of size zero ends the relay at once: both threads take the empty read for the end.\<close>

lemma empty_buffer_relays_nothing:
  assumes "relay_run 0 s"
  shows "reached x s = []"
  using assms
proof (induction rule: relay_run.induct)
  case start
  show ?case by (simp add: relay_new_def pump_new_def reached_def)
next
  case (step s ev s')
  have "\<not> (\<exists>c. pm_phase (rl_pump s y) = Holding c)" for y
    using step.hyps(1)
  proof (induction rule: relay_run.induct)
    case start
    show ?case by (simp add: relay_new_def pump_new_def)
  next
    case (step s ev s')
    then show ?case by (cases ev) (auto simp: Let_def pump_reads_def split: if_splits pump_phase.splits)
  qed
  then show ?case using step.hyps(2) step.IH
    by (cases ev) (auto simp: Let_def reached_def pump_reads_def split: if_splits pump_phase.splits)
qed

end
