(* ===== verification/Example_Programs.thy ===== *)
theory Example_Programs
  imports Echo_Handlers
begin

text \<open>
  The client and server examples (src/examples): the command line, the demos, and for each program its
  handler, the configurations its server and its client run with, and its client. The programs share
  the shapes of the first section; each has its own definitions below. An error of \<open>main\<close> is the
  error it was boxed from. What the network answers is an argument, as everywhere.
\<close>

section \<open>What the programs share\<close>

definition parse_u16 :: "string \<Rightarrow> u16 option" where
  "parse_u16 s =
     (let digits = (case s of c # cs \<Rightarrow> if c = CHR ''+'' then cs else s | [] \<Rightarrow> []);
          (ds, rest) = read_digits 10 digits in
      if digits = [] \<or> rest \<noteq> [] then None
      else if value_of 10 ds < 65536 then Some (of_nat (value_of 10 ds)) else None)"

datatype example_command = RunDemo | RunServer | RunClient u16 | RunTlsClient u16 | PrintUsage

definition arg :: "string list \<Rightarrow> nat \<Rightarrow> string option" where
  "arg args i = (if i < length args then Some (args ! i) else None)"

definition port_arg :: "u16 \<Rightarrow> string option \<Rightarrow> u16" where
  "port_arg dflt a = (case Option.bind a parse_u16 of Some port \<Rightarrow> port | None \<Rightarrow> dflt)"

definition example_main :: "u16 \<Rightarrow> string list \<Rightarrow> example_command" where
  "example_main default_port args =
     (let mode = (case arg args 1 of Some m \<Rightarrow> m | None \<Rightarrow> ''demo'') in
      if mode = ''demo'' then RunDemo
      else if mode = ''server'' then RunServer
      else if mode = ''client'' then RunClient (port_arg default_port (arg args 2))
      else PrintUsage)"

definition mixed_main :: "u16 \<Rightarrow> string list \<Rightarrow> example_command" where
  "mixed_main default_port args =
     (let mode = (case arg args 1 of Some m \<Rightarrow> m | None \<Rightarrow> ''demo''); port = port_arg default_port (arg args 2) in
      if mode = ''demo'' then RunDemo
      else if mode = ''server'' then RunServer
      else if mode = ''client-tcp'' then RunClient port
      else if mode = ''client-tls'' then RunTlsClient port
      else PrintUsage)"

text \<open>\<open>run_server\<close>: bind, ask for the port, run; \<open>finished\<close> is how the server's \<open>run\<close> ended.\<close>

definition run_example_server :: "unit io \<Rightarrow> u16 io \<Rightarrow> unit outcome \<Rightarrow> unit outcome" where
  "run_example_server bound port finished =
     bind_ok (of_io Io bound) (\<lambda>_. bind_ok (of_io Io port) (\<lambda>_. finished))"

text \<open>
  \<open>run_demo\<close>: the server in the background, then the clients one after the other, then the shutdown; the
  second component says whether the shutdown was asked for. The asynchronous demos stop at the first
  client that fails, the blocking ones go on.
\<close>

fun clients_in_turn :: "unit outcome list \<Rightarrow> unit outcome" where
  "clients_in_turn [] = Ok ()"
| "clients_in_turn (r # rs) = (case r of Ok _ \<Rightarrow> clients_in_turn rs | Err e \<Rightarrow> Err e | Panic msg \<Rightarrow> Panic msg)"

definition run_async_demo :: "unit io \<Rightarrow> u16 io \<Rightarrow> (u16 \<Rightarrow> unit outcome) list \<Rightarrow> unit outcome \<Rightarrow> unit outcome \<times> bool" where
  "run_async_demo bound port clients signalled =
     (case bound of
        IoErr msg \<Rightarrow> (Err (Io msg), False)
      | IoOk _ \<Rightarrow>
          (case port of
             IoErr msg \<Rightarrow> (Err (Io msg), False)
           | IoOk port \<Rightarrow>
               (case clients_in_turn (map (\<lambda>c. c port) clients) of
                  Ok _ \<Rightarrow> (signalled, True)
                | r \<Rightarrow> (r, False))))"

fun clients_regardless :: "unit outcome list \<Rightarrow> unit outcome" where
  "clients_regardless [] = Ok ()"
| "clients_regardless (r # rs) = (case r of Panic msg \<Rightarrow> Panic msg | _ \<Rightarrow> clients_regardless rs)"

definition run_sync_demo :: "unit io \<Rightarrow> u16 io \<Rightarrow> (u16 \<Rightarrow> unit outcome) list \<Rightarrow> unit outcome \<times> bool" where
  "run_sync_demo bound port clients =
     (case bound of
        IoErr msg \<Rightarrow> (Err (Io msg), False)
      | IoOk _ \<Rightarrow>
          (case port of
             IoErr msg \<Rightarrow> (Err (Io msg), False)
           | IoOk port \<Rightarrow>
               (case clients_regardless (map (\<lambda>c. c port) clients) of
                  Ok _ \<Rightarrow> (Ok (), True)
                | r \<Rightarrow> (r, False))))"

definition cert_file :: "string \<Rightarrow> pem_source" where
  "cert_file name = pem_file (''examples/certs/'' @ name)"

type_synonym ('t, 's, 'c) any_connection = "(('t, 's, 'c) transport, ('t, 's, 'c) sync_transport) connection"

section \<open>Plain TCP\<close>

definition tcp_async_handle :: "'g guard_ops \<Rightarrow> echo_turn list \<Rightarrow> ('a, 'b, 'g) conn_state \<Rightarrow>
    unit outcome option \<times> u8 list \<times> ('a, 'b, 'g) conn_state" where
  "tcp_async_handle = echo_example"

definition tcp_async_server :: "usize option \<Rightarrow> server_config" where
  "tcp_async_server parallelism =
     server_config_name ''tcp-async-server'' (server_builder parallelism)"

definition tcp_async_client_config :: "u16 \<Rightarrow> client_config" where
  "tcp_async_client_config port = client_connect_addr (localhost port) client_builder"

definition tcp_async_run_client :: "u16 \<Rightarrow> bool \<Rightarrow> ('t, 'c) connect_env \<Rightarrow> written \<Rightarrow> u8 list io \<Rightarrow> u8 list outcome \<times> u8 list" where
  "tcp_async_run_client port elapsed env w got =
     async_exchange (as_bytes ''Hello from TCP Async Client!'') w got
       (async_connect (tcp_async_client_config port) elapsed env :: ('t, unit, 'c) any_connection outcome)"

definition tcp_async_run_demo :: "unit io \<Rightarrow> u16 io \<Rightarrow> (u16 \<Rightarrow> unit outcome) \<Rightarrow> unit outcome \<Rightarrow> unit outcome \<times> bool" where
  "tcp_async_run_demo bound port client signalled = run_async_demo bound port [client] signalled"

definition tcp_async_run_server :: "unit io \<Rightarrow> u16 io \<Rightarrow> unit outcome \<Rightarrow> unit outcome" where
  "tcp_async_run_server = run_example_server"

definition tcp_async_main :: "string list \<Rightarrow> example_command" where
  "tcp_async_main = example_main 9002"

definition tcp_sync_handle :: "'g guard_ops \<Rightarrow> (nat \<Rightarrow> instant) \<Rightarrow> (sync_read \<times> written) list \<Rightarrow>
    ('a, 'b, 'g) conn_state \<Rightarrow> unit outcome option \<times> u8 list \<times> 'g guard_stack" where
  "tcp_sync_handle = sync_echo_example"

definition tcp_sync_server :: "usize option \<Rightarrow> server_config" where
  "tcp_sync_server parallelism =
     server_config_name ''tcp-sync-server'' (server_builder parallelism)"

definition tcp_sync_client_config :: "u16 \<Rightarrow> client_config" where
  "tcp_sync_client_config port = client_connect_addr (localhost port) client_builder"

definition tcp_sync_run_client :: "u16 \<Rightarrow> ('t, 'c) connect_env \<Rightarrow> written \<Rightarrow> u8 list io \<Rightarrow> u8 list outcome \<times> u8 list" where
  "tcp_sync_run_client port env w got =
     sync_exchange (as_bytes ''Hello from TCP Sync Client!'') w got
       (sync_connect (tcp_sync_client_config port) env :: ('t, unit, 'c) any_connection outcome)"

definition tcp_sync_run_demo :: "unit io \<Rightarrow> u16 io \<Rightarrow> (u16 \<Rightarrow> unit outcome) \<Rightarrow> unit outcome \<times> bool" where
  "tcp_sync_run_demo bound port client = run_sync_demo bound port [client]"

definition tcp_sync_run_server :: "unit io \<Rightarrow> u16 io \<Rightarrow> unit outcome \<Rightarrow> unit outcome" where
  "tcp_sync_run_server = run_example_server"

definition tcp_sync_main :: "string list \<Rightarrow> example_command" where
  "tcp_sync_main = example_main 9001"

section \<open>TLS\<close>

definition tls_async_handle :: "'g guard_ops \<Rightarrow> echo_turn list \<Rightarrow> ('a, 'b, 'g) conn_state \<Rightarrow>
    unit outcome option \<times> u8 list \<times> ('a, 'b, 'g) conn_state" where
  "tls_async_handle = echo_example"

definition tls_async_server_tls :: tls_config where
  "tls_async_server_tls =
     build_private_key (cert_file ''server.key'') (build_certificate_chain (cert_file ''server.crt'') (build_enabled True tls_builder))"

definition tls_async_server :: "usize option \<Rightarrow> server_config" where
  "tls_async_server parallelism =
     server_tls tls_async_server_tls (server_config_name ''tls-async-server'' (server_builder parallelism))"

definition tls_async_client_tls :: tls_config where
  "tls_async_client_tls =
     build_trust_anchor (cert_file ''ca.crt'') (build_server_name ''localhost'' (build_enabled True tls_builder))"

definition tls_async_client_config :: "u16 \<Rightarrow> client_config" where
  "tls_async_client_config port = client_tls tls_async_client_tls (client_connect_addr (localhost port) client_builder)"

definition tls_async_run_client :: "u16 \<Rightarrow> bool \<Rightarrow> ('t, 'c) connect_env \<Rightarrow> written \<Rightarrow> u8 list io \<Rightarrow> u8 list outcome \<times> u8 list" where
  "tls_async_run_client port elapsed env w got =
     async_exchange (as_bytes ''Hello from TLS Async Client!'') w got
       (async_connect (tls_async_client_config port) elapsed env :: ('t, unit, 'c) any_connection outcome)"

definition tls_async_run_demo :: "unit io \<Rightarrow> u16 io \<Rightarrow> (u16 \<Rightarrow> unit outcome) \<Rightarrow> unit outcome \<Rightarrow> unit outcome \<times> bool" where
  "tls_async_run_demo bound port client signalled = run_async_demo bound port [client] signalled"

definition tls_async_run_server :: "unit io \<Rightarrow> u16 io \<Rightarrow> unit outcome \<Rightarrow> unit outcome" where
  "tls_async_run_server = run_example_server"

definition tls_async_main :: "string list \<Rightarrow> example_command" where
  "tls_async_main = example_main 9004"

definition tls_sync_handle :: "'g guard_ops \<Rightarrow> (nat \<Rightarrow> instant) \<Rightarrow> (sync_read \<times> written) list \<Rightarrow>
    ('a, 'b, 'g) conn_state \<Rightarrow> unit outcome option \<times> u8 list \<times> 'g guard_stack" where
  "tls_sync_handle = sync_echo_example"

definition tls_sync_server_tls :: tls_config where
  "tls_sync_server_tls =
     build_private_key (cert_file ''server.key'') (build_certificate_chain (cert_file ''server.crt'') (build_enabled True tls_builder))"

definition tls_sync_server :: "usize option \<Rightarrow> server_config" where
  "tls_sync_server parallelism =
     server_tls tls_sync_server_tls (server_config_name ''tls-sync-server'' (server_builder parallelism))"

definition tls_sync_client_tls :: tls_config where
  "tls_sync_client_tls =
     build_trust_anchor (cert_file ''ca.crt'') (build_server_name ''localhost'' (build_enabled True tls_builder))"

definition tls_sync_client_config :: "u16 \<Rightarrow> client_config" where
  "tls_sync_client_config port = client_tls tls_sync_client_tls (client_connect_addr (localhost port) client_builder)"

definition tls_sync_run_client :: "u16 \<Rightarrow> ('t, 'c) connect_env \<Rightarrow> written \<Rightarrow> u8 list io \<Rightarrow> u8 list outcome \<times> u8 list" where
  "tls_sync_run_client port env w got =
     sync_exchange (as_bytes ''Hello from TLS Sync Client!'') w got
       (sync_connect (tls_sync_client_config port) env :: ('t, unit, 'c) any_connection outcome)"

definition tls_sync_run_demo :: "unit io \<Rightarrow> u16 io \<Rightarrow> (u16 \<Rightarrow> unit outcome) \<Rightarrow> unit outcome \<times> bool" where
  "tls_sync_run_demo bound port client = run_sync_demo bound port [client]"

definition tls_sync_run_server :: "unit io \<Rightarrow> u16 io \<Rightarrow> unit outcome \<Rightarrow> unit outcome" where
  "tls_sync_run_server = run_example_server"

definition tls_sync_main :: "string list \<Rightarrow> example_command" where
  "tls_sync_main = example_main 9003"

section \<open>Mutual TLS\<close>

definition mtls_async_handle :: "'g guard_ops \<Rightarrow> echo_turn list \<Rightarrow> ('a, 'b, 'g) conn_state \<Rightarrow>
    unit outcome option \<times> u8 list \<times> ('a, 'b, 'g) conn_state" where
  "mtls_async_handle = echo_example"

definition mtls_async_server_tls :: tls_config where
  "mtls_async_server_tls =
     build_require_client_auth True (build_trust_anchor (cert_file ''ca.crt'') (build_private_key (cert_file ''server.key'') (build_certificate_chain (cert_file ''server.crt'') (build_enabled True tls_builder))))"

definition mtls_async_server :: "usize option \<Rightarrow> server_config" where
  "mtls_async_server parallelism =
     server_tls mtls_async_server_tls (server_config_name ''mtls-async-server'' (server_builder parallelism))"

definition mtls_async_client_tls :: tls_config where
  "mtls_async_client_tls =
     build_trust_anchor (cert_file ''ca.crt'') (build_client_private_key (cert_file ''client.key'') (build_client_certificate_chain (cert_file ''client.crt'') (build_server_name ''localhost'' (build_enabled True tls_builder))))"

definition mtls_async_client_config :: "u16 \<Rightarrow> client_config" where
  "mtls_async_client_config port = client_tls mtls_async_client_tls (client_connect_addr (localhost port) client_builder)"

definition mtls_async_run_client :: "u16 \<Rightarrow> bool \<Rightarrow> ('t, 'c) connect_env \<Rightarrow> written \<Rightarrow> u8 list io \<Rightarrow> u8 list outcome \<times> u8 list" where
  "mtls_async_run_client port elapsed env w got =
     async_exchange (as_bytes ''Hello from mTLS Async Client (mutually authenticated)!'') w got
       (async_connect (mtls_async_client_config port) elapsed env :: ('t, unit, 'c) any_connection outcome)"

definition mtls_async_run_demo :: "unit io \<Rightarrow> u16 io \<Rightarrow> (u16 \<Rightarrow> unit outcome) \<Rightarrow> unit outcome \<Rightarrow> unit outcome \<times> bool" where
  "mtls_async_run_demo bound port client signalled = run_async_demo bound port [client] signalled"

definition mtls_async_run_server :: "unit io \<Rightarrow> u16 io \<Rightarrow> unit outcome \<Rightarrow> unit outcome" where
  "mtls_async_run_server = run_example_server"

definition mtls_async_main :: "string list \<Rightarrow> example_command" where
  "mtls_async_main = example_main 9006"

definition mtls_sync_handle :: "'g guard_ops \<Rightarrow> (nat \<Rightarrow> instant) \<Rightarrow> (sync_read \<times> written) list \<Rightarrow>
    ('a, 'b, 'g) conn_state \<Rightarrow> unit outcome option \<times> u8 list \<times> 'g guard_stack" where
  "mtls_sync_handle = sync_echo_example"

definition mtls_sync_server_tls :: tls_config where
  "mtls_sync_server_tls =
     build_require_client_auth True (build_trust_anchor (cert_file ''ca.crt'') (build_private_key (cert_file ''server.key'') (build_certificate_chain (cert_file ''server.crt'') (build_enabled True tls_builder))))"

definition mtls_sync_server :: "usize option \<Rightarrow> server_config" where
  "mtls_sync_server parallelism =
     server_tls mtls_sync_server_tls (server_config_name ''mtls-sync-server'' (server_builder parallelism))"

definition mtls_sync_client_tls :: tls_config where
  "mtls_sync_client_tls =
     build_trust_anchor (cert_file ''ca.crt'') (build_client_private_key (cert_file ''client.key'') (build_client_certificate_chain (cert_file ''client.crt'') (build_server_name ''localhost'' (build_enabled True tls_builder))))"

definition mtls_sync_client_config :: "u16 \<Rightarrow> client_config" where
  "mtls_sync_client_config port = client_tls mtls_sync_client_tls (client_connect_addr (localhost port) client_builder)"

definition mtls_sync_run_client :: "u16 \<Rightarrow> ('t, 'c) connect_env \<Rightarrow> written \<Rightarrow> u8 list io \<Rightarrow> u8 list outcome \<times> u8 list" where
  "mtls_sync_run_client port env w got =
     sync_exchange (as_bytes ''Hello from mTLS Sync Client (mutually authenticated)!'') w got
       (sync_connect (mtls_sync_client_config port) env :: ('t, unit, 'c) any_connection outcome)"

definition mtls_sync_run_demo :: "unit io \<Rightarrow> u16 io \<Rightarrow> (u16 \<Rightarrow> unit outcome) \<Rightarrow> unit outcome \<times> bool" where
  "mtls_sync_run_demo bound port client = run_sync_demo bound port [client]"

definition mtls_sync_run_server :: "unit io \<Rightarrow> u16 io \<Rightarrow> unit outcome \<Rightarrow> unit outcome" where
  "mtls_sync_run_server = run_example_server"

definition mtls_sync_main :: "string list \<Rightarrow> example_command" where
  "mtls_sync_main = example_main 9005"

section \<open>TCP and TLS on one port\<close>

definition mixed_async_handle :: "'g guard_ops \<Rightarrow> echo_turn list \<Rightarrow> ('a, 'b, 'g) conn_state \<Rightarrow>
    unit outcome option \<times> u8 list \<times> ('a, 'b, 'g) conn_state" where
  "mixed_async_handle = echo_example"

definition mixed_async_server_tls :: tls_config where
  "mixed_async_server_tls =
     build_private_key (cert_file ''server.key'') (build_certificate_chain (cert_file ''server.crt'') (build_enabled False tls_builder))"

definition mixed_async_server :: "usize option \<Rightarrow> server_config" where
  "mixed_async_server parallelism =
     server_accept_mode AcceptMixed (server_tls mixed_async_server_tls (server_config_name ''mixed-async-server'' (server_builder parallelism)))"

definition mixed_async_tcp_config :: "u16 \<Rightarrow> client_config" where
  "mixed_async_tcp_config port = client_connect_addr (localhost port) client_builder"

definition mixed_async_run_client_tcp :: "u16 \<Rightarrow> bool \<Rightarrow> ('t, 'c) connect_env \<Rightarrow> written \<Rightarrow> u8 list io \<Rightarrow> u8 list outcome \<times> u8 list" where
  "mixed_async_run_client_tcp port elapsed env w got =
     async_exchange (as_bytes ''Hello from Mixed-Mode Async Client (TCP)!'') w got
       (async_connect (mixed_async_tcp_config port) elapsed env :: ('t, unit, 'c) any_connection outcome)"

definition mixed_async_client_tls :: tls_config where
  "mixed_async_client_tls =
     build_trust_anchor (cert_file ''ca.crt'') (build_server_name ''localhost'' (build_enabled True tls_builder))"

definition mixed_async_tls_config :: "u16 \<Rightarrow> client_config" where
  "mixed_async_tls_config port = client_tls mixed_async_client_tls (client_connect_addr (localhost port) client_builder)"

definition mixed_async_run_client_tls :: "u16 \<Rightarrow> bool \<Rightarrow> ('t, 'c) connect_env \<Rightarrow> written \<Rightarrow> u8 list io \<Rightarrow> u8 list outcome \<times> u8 list" where
  "mixed_async_run_client_tls port elapsed env w got =
     async_exchange (as_bytes ''Hello from Mixed-Mode Async Client (TLS)!'') w got
       (async_connect (mixed_async_tls_config port) elapsed env :: ('t, unit, 'c) any_connection outcome)"

definition mixed_async_run_demo :: "unit io \<Rightarrow> u16 io \<Rightarrow> (u16 \<Rightarrow> unit outcome) \<Rightarrow> (u16 \<Rightarrow> unit outcome) \<Rightarrow> unit outcome \<Rightarrow> unit outcome \<times> bool" where
  "mixed_async_run_demo bound port client_tcp client_tls' signalled = run_async_demo bound port [client_tcp, client_tls'] signalled"

definition mixed_async_run_server :: "unit io \<Rightarrow> u16 io \<Rightarrow> unit outcome \<Rightarrow> unit outcome" where
  "mixed_async_run_server = run_example_server"

definition mixed_async_main :: "string list \<Rightarrow> example_command" where
  "mixed_async_main = mixed_main 9008"

definition mixed_sync_handle :: "'g guard_ops \<Rightarrow> (nat \<Rightarrow> instant) \<Rightarrow> (sync_read \<times> written) list \<Rightarrow>
    ('a, 'b, 'g) conn_state \<Rightarrow> unit outcome option \<times> u8 list \<times> 'g guard_stack" where
  "mixed_sync_handle = sync_echo_example"

definition mixed_sync_server_tls :: tls_config where
  "mixed_sync_server_tls =
     build_private_key (cert_file ''server.key'') (build_certificate_chain (cert_file ''server.crt'') (build_enabled False tls_builder))"

definition mixed_sync_server :: "usize option \<Rightarrow> server_config" where
  "mixed_sync_server parallelism =
     server_accept_mode AcceptMixed (server_tls mixed_sync_server_tls (server_config_name ''mixed-sync-server'' (server_builder parallelism)))"

definition mixed_sync_tcp_config :: "u16 \<Rightarrow> client_config" where
  "mixed_sync_tcp_config port = client_connect_addr (localhost port) client_builder"

definition mixed_sync_run_client_tcp :: "u16 \<Rightarrow> ('t, 'c) connect_env \<Rightarrow> written \<Rightarrow> u8 list io \<Rightarrow> u8 list outcome \<times> u8 list" where
  "mixed_sync_run_client_tcp port env w got =
     sync_exchange (as_bytes ''Hello from Mixed-Mode Sync Client (TCP)!'') w got
       (sync_connect (mixed_sync_tcp_config port) env :: ('t, unit, 'c) any_connection outcome)"

definition mixed_sync_client_tls :: tls_config where
  "mixed_sync_client_tls =
     build_trust_anchor (cert_file ''ca.crt'') (build_server_name ''localhost'' (build_enabled True tls_builder))"

definition mixed_sync_tls_config :: "u16 \<Rightarrow> client_config" where
  "mixed_sync_tls_config port = client_tls mixed_sync_client_tls (client_connect_addr (localhost port) client_builder)"

definition mixed_sync_run_client_tls :: "u16 \<Rightarrow> ('t, 'c) connect_env \<Rightarrow> written \<Rightarrow> u8 list io \<Rightarrow> u8 list outcome \<times> u8 list" where
  "mixed_sync_run_client_tls port env w got =
     sync_exchange (as_bytes ''Hello from Mixed-Mode Sync Client (TLS)!'') w got
       (sync_connect (mixed_sync_tls_config port) env :: ('t, unit, 'c) any_connection outcome)"

definition mixed_sync_run_demo :: "unit io \<Rightarrow> u16 io \<Rightarrow> (u16 \<Rightarrow> unit outcome) \<Rightarrow> (u16 \<Rightarrow> unit outcome) \<Rightarrow> unit outcome \<times> bool" where
  "mixed_sync_run_demo bound port client_tcp client_tls' = run_sync_demo bound port [client_tcp, client_tls']"

definition mixed_sync_run_server :: "unit io \<Rightarrow> u16 io \<Rightarrow> unit outcome \<Rightarrow> unit outcome" where
  "mixed_sync_run_server = run_example_server"

definition mixed_sync_main :: "string list \<Rightarrow> example_command" where
  "mixed_sync_main = mixed_main 9007"

section \<open>The single programs\<close>

text \<open>\<open>echo-server\<close> and \<open>tls-server\<close>, for the asynchronous build and for the blocking one.\<close>

definition echo_server_config :: "usize option \<Rightarrow> server_config" where
  "echo_server_config parallelism =
     server_connection_timeout (secs 60) (server_config_name ''echo-server'' (server_builder parallelism))"

definition echo_server_sync_config :: "usize option \<Rightarrow> server_config" where
  "echo_server_sync_config parallelism = server_config_name ''echo-server'' (server_builder parallelism)"

definition echo_server_main :: "unit io \<Rightarrow> u16 io \<Rightarrow> unit outcome \<Rightarrow> unit outcome" where
  "echo_server_main = run_example_server"

definition echo_server_sync_main :: "unit io \<Rightarrow> u16 io \<Rightarrow> unit outcome \<Rightarrow> unit outcome" where
  "echo_server_sync_main = run_example_server"

definition tls_server_tls :: tls_config where
  "tls_server_tls =
     build_private_key (cert_file ''server.key'') (build_certificate_chain (cert_file ''server.crt'')
       (build_server_name ''localhost'' (build_enabled True tls_builder)))"

definition tls_server_config :: "usize option \<Rightarrow> server_config" where
  "tls_server_config parallelism =
     server_accept_mode AcceptTls (server_tls tls_server_tls (server_connection_timeout (secs 60)
       (server_config_name ''tls-echo-server'' (server_builder parallelism))))"

definition tls_server_sync_tls :: tls_config where
  "tls_server_sync_tls =
     build_private_key (cert_file ''server.key'') (build_certificate_chain (cert_file ''server.crt'')
       (build_server_name ''localhost'' (build_enabled True tls_builder)))"

definition tls_server_sync_config :: "usize option \<Rightarrow> server_config" where
  "tls_server_sync_config parallelism =
     server_tls tls_server_sync_tls (server_config_name ''tls-echo-server'' (server_builder parallelism))"

definition tls_server_main :: "unit io \<Rightarrow> u16 io \<Rightarrow> unit outcome \<Rightarrow> unit outcome" where
  "tls_server_main = run_example_server"

definition tls_server_sync_handle :: "'g guard_ops \<Rightarrow> (nat \<Rightarrow> instant) \<Rightarrow> (sync_read \<times> written) list \<Rightarrow>
    ('a, 'b, 'g) conn_state \<Rightarrow> unit outcome option \<times> u8 list \<times> 'g guard_stack" where
  "tls_server_sync_handle = sync_echo_server"

definition tls_server_sync_main :: "unit io \<Rightarrow> u16 io \<Rightarrow> unit outcome \<Rightarrow> unit outcome" where
  "tls_server_sync_main = run_example_server"

text \<open>\<open>basic-client\<close> takes the port as its first argument.\<close>

definition basic_client_config :: "u16 \<Rightarrow> client_config" where
  "basic_client_config port = client_connect_addr (localhost port) (client_config_name ''basic-client'' client_builder)"

definition basic_client_main :: "string list \<Rightarrow> bool \<Rightarrow> ('t, 'c) connect_env \<Rightarrow> written \<Rightarrow> unit io \<Rightarrow>
    unit outcome \<times> u8 list" where
  "basic_client_main args elapsed env w shut =
     basic_client w shut
       (async_connect (basic_client_config (port_arg 7000 (arg args 1))) elapsed env :: ('t, unit, 'c) any_connection outcome)"

definition basic_client_sync_main :: "string list \<Rightarrow> ('t, 'c) connect_env \<Rightarrow> written \<Rightarrow> unit outcome \<times> u8 list" where
  "basic_client_sync_main args env w =
     sync_basic_client w
       (sync_connect (basic_client_config (port_arg 7000 (arg args 1))) env :: ('t, unit, 'c) any_connection outcome)"

section \<open>Lemmas\<close>

lemma parse_u16_examples:
  "parse_u16 ''9002'' = Some 9002" "parse_u16 ''+80'' = Some 80" "parse_u16 ''65535'' = Some 65535"
  "parse_u16 ''65536'' = None" "parse_u16 '''' = None" "parse_u16 ''+'' = None" "parse_u16 ''80x'' = None"
  by code_simp+

text \<open>A missing port, or one that is no number of 16 bits, is the program's own.\<close>

lemma port_arg_default: "Option.bind a parse_u16 = None \<Longrightarrow> port_arg dflt a = dflt"
  by (simp add: port_arg_def)

text \<open>
  The demos: the asynchronous one returns the error of the first client that fails and then never asks
  the server to stop; the blocking one asks whatever the clients return, and returns \<open>Ok\<close>.
\<close>

lemma clients_in_turn_first_error:
  "clients_in_turn rs = (case dropWhile is_ok rs of [] \<Rightarrow> Ok () | r # _ \<Rightarrow> r)"
  by (induction rs) (auto simp: is_ok_def split: outcome.splits)

lemma async_demo_fails:
  assumes "run_async_demo (IoOk ()) (IoOk port) clients signalled = (r, asked)"
  shows "asked \<longleftrightarrow> list_all is_ok (map (\<lambda>c. c port) clients)" "\<not> asked \<Longrightarrow> \<exists>c \<in> set clients. c port = r \<and> \<not> is_ok r"
proof -
  have "clients_in_turn rs = Ok () \<longleftrightarrow> list_all is_ok rs" "clients_in_turn rs \<noteq> Ok () \<Longrightarrow> clients_in_turn rs \<in> set rs" for rs
    by (induction rs) (auto simp: is_ok_def split: outcome.splits)
  note turn = this [of "map (\<lambda>c. c port) clients"]
  have "(r, asked) = (if clients_in_turn (map (\<lambda>c. c port) clients) = Ok () then (signalled, True)
      else (clients_in_turn (map (\<lambda>c. c port) clients), False))"
    using assms by (cases "clients_in_turn (map (\<lambda>c. c port) clients)") (auto simp: run_async_demo_def)
  moreover have "q = Ok () \<longleftrightarrow> is_ok q" for q :: "unit outcome" by (cases q) simp_all
  ultimately show "asked \<longleftrightarrow> list_all is_ok (map (\<lambda>c. c port) clients)"
    "\<not> asked \<Longrightarrow> \<exists>c \<in> set clients. c port = r \<and> \<not> is_ok r"
    using turn by (auto split: if_splits)
qed

lemma clients_regardless_ok: "clients_regardless rs = Ok () \<longleftrightarrow> (\<forall>r \<in> set rs. \<forall>msg. r \<noteq> Panic msg)"
  by (induction rs) (auto split: outcome.splits)

lemma sync_demo_stops:
  assumes "\<forall>c \<in> set clients. \<forall>msg. c port \<noteq> Panic msg"
  shows "run_sync_demo (IoOk ()) (IoOk port) clients = (Ok (), True)"
proof -
  have "clients_regardless (map (\<lambda>c. c port) clients) = Ok ()" using assms by (auto simp: clients_regardless_ok)
  then show ?thesis by (simp add: run_sync_demo_def)
qed

text \<open>The arm \<open>basic-client\<close> calls unreachable is.\<close>

lemma connect_inner_client_side:
  fixes c :: "(('t, 's, 'c) transport, 'b) connection"
  assumes "connect_inner config env = Ok c"
  shows "\<exists>s. cn_stream c = Some (AsyncStream s) \<and> as_server_tls s = None" "cn_guard_session c = None"
  using assms by (auto simp: connect_defs bind_ok_Ok of_io_Ok Let_def split: if_splits)

lemma connect_inner_panics:
  assumes "\<forall>m. ce_tls env \<noteq> Panic m"
  shows "connect_inner config env \<noteq> Panic msg"
  using assms by (auto simp: connect_inner_def bind_ok_def of_io_def Let_def split: outcome.splits io.splits)

lemma basic_client_never_panics:
  fixes env :: "('t, 'c) connect_env"
  assumes "\<forall>m. ce_tls env \<noteq> Panic m"
  shows "fst (basic_client_main args elapsed env w shut) \<noteq> Panic msg"
proof -
  let ?config = "basic_client_config (port_arg 7000 (arg args 1))"
  have no_panic: "connect_inner ?config env \<noteq> (Panic m :: ('t, unit, 'c) any_connection outcome)" for m
    by (rule connect_inner_panics [OF assms])
  consider e where "async_connect ?config elapsed env = (Err e :: ('t, unit, 'c) any_connection outcome)"
    | c :: "('t, unit, 'c) any_connection" where "async_connect ?config elapsed env = Ok c" "connect_inner ?config env = Ok c"
    using no_panic
    by (cases "connect_inner ?config env :: ('t, unit, 'c) any_connection outcome"; cases elapsed) (simp_all add: async_connect_def)
  then show ?thesis
  proof cases
    case 1
    then show ?thesis by (simp add: basic_client_main_def basic_client_def)
  next
    case 2
    obtain s where s: "cn_stream c = Some (AsyncStream s)" "as_server_tls s = None" "cn_guard_session c = None"
      using connect_inner_client_side [OF 2(2)] by blast
    then show ?thesis using 2(1)
      by (cases s; cases w; cases shut) (simp_all add: basic_client_main_def basic_client_def async_stream_def conn_stream_def
          conn_write_all_def expected_stream_def report_touch_def conn_shutdown_def required_stream_def)
  qed
qed

lemmas example_defs = tls_async_server_def tls_sync_server_def mtls_async_server_def mtls_sync_server_def
  mixed_async_server_def mixed_sync_server_def tls_async_client_config_def tls_sync_client_config_def
  mtls_async_client_config_def mtls_sync_client_config_def mixed_async_tls_config_def mixed_sync_tls_config_def
  tls_async_server_tls_def tls_sync_server_tls_def mtls_async_server_tls_def mtls_sync_server_tls_def
  mixed_async_server_tls_def mixed_sync_server_tls_def tls_async_client_tls_def tls_sync_client_tls_def
  mtls_async_client_tls_def mtls_sync_client_tls_def mixed_async_client_tls_def mixed_sync_client_tls_def
  tcp_async_server_def tcp_sync_server_def tcp_async_client_config_def tcp_sync_client_config_def
  server_tls_def server_accept_mode_def server_config_name_def server_builder_def server_config_default_def
  client_tls_def client_connect_addr_def client_builder_def client_config_default_def
  build_enabled_def build_server_name_def build_certificate_chain_def build_private_key_def
  build_client_certificate_chain_def build_client_private_key_def build_trust_anchor_def
  build_require_client_auth_def tls_builder_def tls_config_default_def

lemma server_side:
  assumes "build_server_config lib tls = Ok srv"
  shows "tls_require_client_auth tls \<Longrightarrow>
      \<exists>roots. build_root_store lib (tls_trust_anchors tls) = Ok roots \<and> rsc_client_auth srv = ClientAuthRequired roots"
    "\<not> tls_require_client_auth tls \<Longrightarrow> tls_trust_anchors tls = [] \<Longrightarrow> rsc_client_auth srv = NoClientAuth"
  using assms by (auto simp: build_server_config_def client_verifier_def Let_def bind_ok_Ok)

lemma client_side:
  assumes "build_client_config lib tls = Ok cli"
  shows "tls_verify_peer tls \<Longrightarrow> tls_trust_anchors tls \<noteq> [] \<Longrightarrow>
      \<exists>roots. build_root_store lib (tls_trust_anchors tls) = Ok roots \<and> rcc_verification cli = VerifyAgainst roots"
    "rcc_identity cli = None \<longleftrightarrow> tls_client_certificate_chain tls = None \<or> tls_client_private_key tls = None"
  using assms by (auto simp: build_client_config_def client_identity_def build_root_store_for_client_def bind_ok_Ok
      split: option.splits if_splits)

section \<open>Properties\<close>

text \<open>
  The examples run with the security their names promise. The TCP servers accept plain
  connections only, the TLS and mutual-TLS servers TLS only, and the mixed-mode servers both, though
  TLS is disabled in their configuration (and the guards are told to expect none). Whenever the TLS
  set-up of a server and its client succeeds, the client checks the server against the one authority
  the example names, and the server demands a certificate of the same authority, which the client
  has, exactly in the mutual-TLS examples; no other server asks for one. The plain clients use no TLS.
\<close>

theorem examples_security:
  assumes "(server, client, mutual, mode) \<in>
      {(tls_async_server p, tls_async_client_config port, False, AcceptTls),
       (tls_sync_server p, tls_sync_client_config port, False, AcceptTls),
       (mtls_async_server p, mtls_async_client_config port, True, AcceptTls),
       (mtls_sync_server p, mtls_sync_client_config port, True, AcceptTls),
       (mixed_async_server p, mixed_async_tls_config port, False, AcceptMixed),
       (mixed_sync_server p, mixed_sync_tls_config port, False, AcceptMixed)}"
    and "build_server_config lib (svc_tls server) = Ok srv" "build_client_config lib (clc_tls client) = Ok cli"
  shows "effective_mode server = mode \<and> is_tls_expected server = (mode = AcceptTls) \<and>
    tls_enabled (clc_tls client) \<and> tls_server_name (clc_tls client) = Some ''localhost'' \<and>
    (\<exists>roots. build_root_store lib [cert_file ''ca.crt''] = Ok roots \<and> rcc_verification cli = VerifyAgainst roots \<and>
      rsc_client_auth srv = (if mutual then ClientAuthRequired roots else NoClientAuth)) \<and>
    (rcc_identity cli \<noteq> None \<longleftrightarrow> mutual) \<and>
    (\<forall>(plain, tcp_client) \<in> {(tcp_async_server p, tcp_async_client_config port), (tcp_sync_server p, tcp_sync_client_config port)}.
      effective_mode plain = AcceptTcp \<and> \<not> tls_enabled (clc_tls tcp_client))"
proof -
  have "effective_mode server = mode" "is_tls_expected server = (mode = AcceptTls)" "tls_enabled (clc_tls client)"
      "tls_server_name (clc_tls client) = Some ''localhost''"
    using assms(1) by (auto simp: example_defs effective_mode_def is_tls_expected_def)
  moreover have "tls_trust_anchors (clc_tls client) = [cert_file ''ca.crt'']" "tls_verify_peer (clc_tls client)"
      "(tls_client_certificate_chain (clc_tls client) = None \<or> tls_client_private_key (clc_tls client) = None) = (\<not> mutual)"
      "tls_trust_anchors (svc_tls server) = (if mutual then [cert_file ''ca.crt''] else [])"
      "tls_require_client_auth (svc_tls server) = mutual"
    using assms(1) by (auto simp: example_defs)
  moreover have "effective_mode plain = AcceptTcp \<and> \<not> tls_enabled (clc_tls tcp_client)"
    if "(plain, tcp_client) \<in> {(tcp_async_server p, tcp_async_client_config port), (tcp_sync_server p, tcp_sync_client_config port)}"
    for plain tcp_client
    using that by (auto simp: example_defs effective_mode_def)
  ultimately show ?thesis using server_side [OF assms(2)] client_side [OF assms(3)] by auto
qed

definition any_file :: "(u8, u8, u8 list) tls_lib" where
  "any_file = demo_lib\<lparr>lib_read_file := \<lambda>path. IoOk [1]\<rparr>"

theorem examples_security_witness:
  "\<exists>srv cli roots. build_server_config any_file (svc_tls (mtls_sync_server None)) = Ok srv \<and>
     build_client_config any_file (clc_tls (mtls_sync_client_config 9005)) = Ok cli \<and>
     rsc_client_auth srv = ClientAuthRequired roots \<and> rcc_identity cli \<noteq> None"
proof -
  have "is_ok (build_server_config any_file (svc_tls (mtls_sync_server None)))"
      "is_ok (build_client_config any_file (clc_tls (mtls_sync_client_config 9005)))"
    by code_simp+
  then obtain srv cli where b: "build_server_config any_file (svc_tls (mtls_sync_server None)) = Ok srv"
      "build_client_config any_file (clc_tls (mtls_sync_client_config 9005)) = Ok cli"
    by (auto simp: is_ok_def split: outcome.splits)
  show ?thesis
    using b examples_security [of "mtls_sync_server None" "mtls_sync_client_config 9005" True AcceptTls None 9005, OF _ b]
    by auto
qed

end
