(* ===== verification/Proxy_Usage.thy ===== *)
theory Proxy_Usage
  imports Proxy_Server Example_Programs
begin

text \<open>
  The \<open>proxy-usage\<close> example (src/examples/proxy-usage.rs): the routing tables, pools, limits and
  credentials its proxies run with, its clients, and its demo from the client's request through the
  proxy to the echo backend and back. The two pools of the load-balancing proxy are the pools 0 and 1
  of the store. The environment variables of the asynchronous proxy are arguments.
\<close>

section \<open>The command line and the backend\<close>

datatype usage_command =
    UsageBackend
  | UsageDemo
  | UsageServer u16
  | UsageServerLb
  | UsageServerAsync
  | UsageClient u16 "string option"
  | UsageBadClient u16
  | UsageMissingPort string
  | UsageHelp

definition usage_main :: "string list \<Rightarrow> usage_command" where
  "usage_main args =
     (let mode = (case arg args 1 of Some m \<Rightarrow> m | None \<Rightarrow> ''demo'');
          port = Option.bind (arg args 2) parse_u16 in
      if mode = ''backend'' then UsageBackend
      else if mode = ''demo'' then UsageDemo
      else if mode = ''proxy-server'' then
        (case port of Some p \<Rightarrow> UsageServer p | None \<Rightarrow> UsageMissingPort ''proxy-server'')
      else if mode = ''proxy-server-lb'' then UsageServerLb
      else if mode = ''proxy-server-async'' then UsageServerAsync
      else if mode = ''proxy-client'' then
        (case port of Some p \<Rightarrow> UsageClient p (arg args 3) | None \<Rightarrow> UsageMissingPort ''proxy-client'')
      else if mode = ''proxy-client-bad-creds'' then
        (case port of Some p \<Rightarrow> UsageBadClient p | None \<Rightarrow> UsageMissingPort ''proxy-client-bad-creds'')
      else UsageHelp)"

definition usage_echo_handle :: "'g guard_ops \<Rightarrow> (nat \<Rightarrow> instant) \<Rightarrow> (sync_read \<times> written) list \<Rightarrow>
    ('a, 'b, 'g) conn_state \<Rightarrow> unit outcome option \<times> u8 list \<times> 'g guard_stack" where
  "usage_echo_handle = sync_echo_example"

definition backend_server_config :: "usize option \<Rightarrow> server_config" where
  "backend_server_config parallelism = server_config_name ''proxy-backend'' (server_builder parallelism)"

definition run_backend_server :: "unit io \<Rightarrow> u16 io \<Rightarrow> unit outcome \<Rightarrow> unit outcome" where
  "run_backend_server = run_example_server"

definition demo_backend_config :: "usize option \<Rightarrow> server_config" where
  "demo_backend_config parallelism = server_config_name ''proxy-backend-demo'' (server_builder parallelism)"

section \<open>The configurations\<close>

definition admin :: proxy_auth where
  "admin = auth_basic ''admin'' ''password123''"

definition loopback_group :: ip_group where
  "loopback_group = add_prefix (prefix_v4 127 0 0 0 8) group_new"

definition demo_table :: "socket_addr \<Rightarrow> routing_table" where
  "demo_table backend_addr =
     add_rule (from_group ''loopback'' (rule_new ''loopback-to-backend'' (Forward backend_addr)))
       (add_group ''loopback'' loopback_group (table_new Reject))"

definition run_demo_config :: "u16 \<Rightarrow> u16 \<Rightarrow> proxy_config" where
  "run_demo_config proxy_port backend_port =
     (let backend_addr = localhost backend_port in
      with_routing (demo_table backend_addr) (with_buffer_size 8192 (with_auth admin
        (proxy_config_new (localhost proxy_port) backend_addr))))"

definition run_demo_client :: "u16 \<Rightarrow> u16 \<Rightarrow> proxy_client" where
  "run_demo_client proxy_port backend_port =
     client_with_auth admin (proxy_client_new (localhost proxy_port) (localhost backend_port))"

definition usage_guards :: guard_stack_config where
  "usage_guards =
     guard_stack_config_default\<lparr>gsc_rate_limiter := Some
       \<lparr>per_ip_capacity = 100, per_ip_refill_per_second = 50, global_capacity = 2000,
        global_refill_per_second = 1000, global_window = secs 10, global_window_limit = 5000,
        max_tracked_ips = 100000\<rparr>\<rparr>"

definition usage_table :: "u16 \<Rightarrow> routing_table" where
  "usage_table backend_port =
     (let backend_primary = localhost backend_port; backend_secondary = localhost 3001 in
      add_rule (from_ip (V4 (ipv4_new 192 168 1 100)) (rule_new ''trusted-to-secondary'' (Forward backend_secondary)))
        (add_rule (from_group ''loopback'' (rule_new ''loopback-to-primary'' (Forward backend_primary)))
          (add_group ''loopback'' loopback_group (table_new Reject))))"

definition run_proxy_server :: "u16 \<Rightarrow> proxy_server" where
  "run_proxy_server backend_port =
     (let config = with_routing (usage_table backend_port) (with_guards usage_guards (with_buffer_size 8192
            (with_auth admin (proxy_config_new (localhost 0) (localhost backend_port)))));
          auth_handle = handle_new admin in
      server_with_metrics metrics_new (server_with_auth_handle auth_handle (proxy_server_new config)))"

text \<open>The thread that rotates the credentials after thirty seconds, on the shared handle.\<close>

definition rotate_credentials :: "proxy_server \<Rightarrow> proxy_server" where
  "rotate_credentials s =
     s\<lparr>pxs_auth_handle := map_option (\<lambda>h. snd (handle_set_basic ''admin'' ''rotated-secret'' h)) (pxs_auth_handle s)\<rparr>"

definition api_cluster :: backend_pool where
  "api_cluster = round_robin (map (\<lambda>port. backend_new (localhost port)) [9001, 9002, 9003])"

definition session_cluster :: "sorter \<Rightarrow> backend_pool" where
  "session_cluster srt =
     consistent_hash srt
       [with_weight 2 (backend_new (localhost 9011)), with_weight 1 (backend_new (localhost 9012))] 150 StickyIp"

definition lb_pools :: "sorter \<Rightarrow> pool_ref \<Rightarrow> backend_pool" where
  "lb_pools srt = (\<lambda>r. if r = 1 then session_cluster srt else api_cluster)"

definition lb_table :: routing_table where
  "lb_table =
     add_rule (from_group ''internal'' (rule_new ''internal-sticky'' (Pool 1)))
       (add_group ''internal'' (add_prefix (prefix_v4 10 0 0 0 24) group_new) (table_new (Pool 0)))"

definition lb_config :: proxy_config where
  "lb_config = with_routing lb_table (with_buffer_size 8192 (proxy_config_new (localhost 0) (localhost 9001)))"

definition scale_out :: "sorter \<Rightarrow> (pool_ref \<Rightarrow> backend_pool) \<Rightarrow> pool_ref \<Rightarrow> backend_pool" where
  "scale_out srt pools = pools(0 := add_backend srt (backend_new (localhost 9004)) (pools 0))"

definition async_usage_table :: routing_table where
  "async_usage_table =
     add_rule (from_group ''loopback'' (rule_new ''loopback-allowed'' (Forward (localhost 3000))))
       (add_group ''loopback'' loopback_group (table_new Reject))"

definition tls_offload_of :: "string option \<Rightarrow> string option \<Rightarrow> string option \<Rightarrow> tls_config option option" where
  "tls_offload_of enable cert key =
     (if enable = Some ''1'' then
        (case (cert, key) of
           (Some c, Some k) \<Rightarrow>
             Some (Some (build_private_key (pem_file k) (build_certificate_chain (pem_file c) (build_enabled True tls_builder))))
         | _ \<Rightarrow> None)
      else Some None)"

definition run_proxy_server_async :: "tls_config option \<Rightarrow> async_proxy_server" where
  "run_proxy_server_async tls_offload =
     (let config = with_routing async_usage_table (with_guards usage_guards (with_buffer_size 8192
            (with_auth admin (proxy_config_new (localhost 0) (localhost 3000)))));
          config = (case tls_offload of Some tls \<Rightarrow> with_tls_offload tls config | None \<Rightarrow> config) in
      async_with_metrics metrics_new (async_with_auth_handle (handle_new admin) (async_proxy_server_new config)))"

definition usage_client :: "u16 \<Rightarrow> proxy_client" where
  "usage_client proxy_port = client_with_auth admin (proxy_client_new (localhost proxy_port) (localhost 3000))"

definition bad_client :: "u16 \<Rightarrow> proxy_client" where
  "bad_client proxy_port =
     client_with_auth (auth_basic ''admin'' ''wrong-password'') (proxy_client_new (localhost proxy_port) (localhost 3000))"

definition client_payload :: "string option \<Rightarrow> string" where
  "client_payload payload = (case payload of Some p \<Rightarrow> p | None \<Rightarrow> ''hello from proxy client'')"

text \<open>What the client with the wrong password prints.\<close>

datatype verdict = UnexpectedSuccess string | ExpectedFailure syn_error

definition bad_client_verdict :: "string outcome \<Rightarrow> verdict outcome" where
  "bad_client_verdict r =
     (case r of
        Ok response \<Rightarrow> Ok (UnexpectedSuccess response)
      | Err e \<Rightarrow> Ok (ExpectedFailure e)
      | Panic msg \<Rightarrow> Panic msg)"

text \<open>
  \<open>run_demo\<close>: the ports of the backend and of the proxy, then one exchange of the client, with what it
  received; the second component says whether the backend is asked to shut down.
\<close>

definition usage_run_demo :: "u16 io \<Rightarrow> u16 io \<Rightarrow> (string \<Rightarrow> proxy_client \<Rightarrow> string outcome) \<Rightarrow> string outcome \<times> bool" where
  "usage_run_demo backend_port proxy_port exchange =
     (case backend_port of
        IoErr msg \<Rightarrow> (Err (Io msg), False)
      | IoOk backend_port \<Rightarrow>
          (case proxy_port of
             IoErr msg \<Rightarrow> (Err (Io msg), False)
           | IoOk proxy_port \<Rightarrow>
               (case exchange ''hello via proxy'' (run_demo_client proxy_port backend_port) of
                  Ok response \<Rightarrow> (Ok response, True)
                | r \<Rightarrow> (r, False))))"

section \<open>Where the peers go\<close>

definition is_loopback :: "ip_addr \<Rightarrow> bool" where
  "is_loopback ip \<longleftrightarrow> (case ip of V4 a \<Rightarrow> unat a div 2 ^ 24 = 127 | V6 _ \<Rightarrow> False)"

definition is_internal :: "ip_addr \<Rightarrow> bool" where
  "is_internal ip \<longleftrightarrow> (case ip of V4 a \<Rightarrow> unat a div 2 ^ 8 = 10 * 2 ^ 16 | V6 _ \<Rightarrow> False)"

lemma loopback_prefix: "prefix_contains (prefix_v4 127 0 0 0 8) ip = is_loopback ip"
  using mask_eq_iff [of 8 "ipv4_new 127 0 0 0"]
  by (auto simp: prefix_contains_def prefix_v4_def is_loopback_def ipv4_new_def Let_def split: ip_addr.splits)

lemma internal_prefix: "prefix_contains (prefix_v4 10 0 0 0 24) ip = is_internal ip"
  using mask_eq_iff [of 24 "ipv4_new 10 0 0 0"]
  by (auto simp: prefix_contains_def prefix_v4_def is_internal_def ipv4_new_def Let_def split: ip_addr.splits)

lemma group_rule:
  "rule_matches peer m (from_group g (rule_new name action)) =
     (case fmlookup m g of None \<Rightarrow> False | Some grp \<Rightarrow> group_contains grp (sa_ip peer))"
  by (simp add: rule_matches_def from_group_def rule_new_def Let_def split: option.split)

lemma group_of_prefix: "group_contains (add_prefix p group_new) ip = prefix_contains p ip"
  by (simp add: group_contains_def add_prefix_def group_new_def)

lemma loopback_rule:
  "rule_matches peer (fmupd ''loopback'' loopback_group m) (from_group ''loopback'' (rule_new name action)) =
     is_loopback (sa_ip peer)"
  by (simp add: group_rule loopback_group_def group_of_prefix loopback_prefix)

lemma rule_action [simp]:
  "rr_action (from_group g r) = rr_action r" "rr_action (from_ip ip r) = rr_action r" "rr_action (rule_new name action) = action"
  by (simp_all add: from_group_def from_ip_def rule_new_def)

lemmas table_defs = add_rule_def add_group_def table_new_def

lemma demo_table_resolves:
  "resolve peer (demo_table b) = (if is_loopback (sa_ip peer) then Forward b else Reject)"
  "resolve peer async_usage_table = (if is_loopback (sa_ip peer) then Forward (localhost 3000) else Reject)"
  by (simp_all add: resolve_def demo_table_def async_usage_table_def table_defs loopback_rule)

lemma usage_table_resolves:
  "resolve peer (usage_table port) =
     (if is_loopback (sa_ip peer) then Forward (localhost port)
      else if sa_ip peer = V4 (ipv4_new 192 168 1 100) then Forward (localhost 3001) else Reject)"
proof -
  have "rule_matches peer m (from_ip ip (rule_new name action)) = (sa_ip peer = ip)" for m ip name action
    by (simp add: rule_matches_def from_ip_def rule_new_def Let_def)
  then show ?thesis
    by (simp add: resolve_def usage_table_def table_defs loopback_rule Let_def)
qed

lemma lb_table_resolves: "resolve peer lb_table = (if is_internal (sa_ip peer) then Pool 1 else Pool 0)"
  by (simp add: resolve_def lb_table_def table_defs group_rule group_of_prefix internal_prefix)

lemma usage_configs [simp]:
  "pc_routing (run_demo_config pp bp) = Some (demo_table (localhost bp))"
  "pc_routing (pxs_config (run_proxy_server bp)) = Some (usage_table bp)"
  "pc_routing (aps_config (run_proxy_server_async tls)) = Some async_usage_table"
  "pc_routing lb_config = Some lb_table"
  by (simp_all add: run_demo_config_def run_proxy_server_def run_proxy_server_async_def lb_config_def Let_def
      with_routing_def with_guards_def with_tls_offload_def server_with_metrics_def server_with_auth_handle_def
      proxy_server_new_def async_with_metrics_def async_with_auth_handle_def async_proxy_server_new_def split: option.split)

section \<open>The load-balancing proxy\<close>

text \<open>
  What happens to the pools: the turns of the accept loop, one for each connection, and the thread
  that adds a backend after a minute. It takes the lock of the pool, so it comes between two turns.
\<close>

datatype lb_event = Caller socket_addr | ScalesOut

fun lb_run :: "sorter \<Rightarrow> lb_event list \<Rightarrow> (pool_ref \<Rightarrow> backend_pool) \<Rightarrow>
    (socket_addr \<times> routed) list \<times> (pool_ref \<Rightarrow> backend_pool)" where
  "lb_run srt [] pools = ([], pools)"
| "lb_run srt (Caller peer # evs) pools =
     (let (r, pools) = route_peer lb_config peer pools; (rs, pools) = lb_run srt evs pools in ((peer, r) # rs, pools))"
| "lb_run srt (ScalesOut # evs) pools = lb_run srt evs (scale_out srt pools)"

text \<open>The pools when the API cluster has the backends on \<open>ports\<close> and has been asked \<open>k\<close> times.\<close>

definition lb_after :: "sorter \<Rightarrow> u16 list \<Rightarrow> nat \<Rightarrow> pool_ref \<Rightarrow> backend_pool" where
  "lb_after srt ports k =
     (lb_pools srt)(0 := (round_robin (map (\<lambda>port. backend_new (localhost port)) ports))\<lparr>bp_counter := of_nat k\<rparr>)"

definition session_backend :: "sorter \<Rightarrow> socket_addr \<Rightarrow> routed" where
  "session_backend srt peer = fst (route_peer lb_config peer (lb_pools srt))"

lemma lb_after_0: "lb_pools srt = lb_after srt [9001, 9002, 9003] 0"
  by (auto simp: lb_after_def lb_pools_def api_cluster_def round_robin_def)

lemma lb_scale_out: "scale_out srt (lb_after srt ports k) = lb_after srt (ports @ [9004]) k"
  by (simp add: scale_out_def lb_after_def add_backend_def rebuild_ring_def round_robin_def)

lemma consistent_select_keeps: "bp_strategy p = ConsistentHash replicas sticky \<Longrightarrow> snd (select peer p) = p"
  by (simp add: select_def Let_def)

lemma session_cluster_strategy: "bp_strategy (session_cluster srt) = ConsistentHash 150 StickyIp"
  by (simp add: session_cluster_def consistent_hash_def rebuild_ring_def)

lemma lb_internal:
  assumes "is_internal (sa_ip peer)"
  shows "route_peer lb_config peer (lb_after srt ports k) = (session_backend srt peer, lb_after srt ports k)"
proof -
  have pools: "lb_after srt ports k (Suc 0) = session_cluster srt" "lb_pools srt (Suc 0) = session_cluster srt"
    by (simp_all add: lb_after_def lb_pools_def)
  have "snd (select peer (session_cluster srt)) = session_cluster srt"
    by (rule consistent_select_keeps [OF session_cluster_strategy])
  moreover have "(lb_after srt ports k)(Suc 0 := session_cluster srt) = lb_after srt ports k"
    using pools(1) by (rule fun_upd_idem)
  ultimately show ?thesis
    using assms by (simp add: session_backend_def route_peer_def lb_table_resolves from_pool_def pools split_beta
        split: selection.split)
qed

lemma lb_external:
  assumes "\<not> is_internal (sa_ip peer)" "k < 2 ^ 64" "ports \<noteq> []"
  shows "route_peer lb_config peer (lb_after srt ports k) =
    (RouteTo (Some (localhost (ports ! (k mod length ports)))), lb_after srt ports (Suc k))"
proof -
  have k: "unat (of_nat k :: u64) = k" using assms(2) by (simp add: unat_of_nat)
  let ?p = "(round_robin (map (\<lambda>port. backend_new (localhost port)) ports))\<lparr>bp_counter := of_nat k\<rparr>"
  have p: "bp_strategy ?p = RoundRobin" "bp_backends ?p \<noteq> []" "pool_backends ?p = map localhost ports" "pool_len ?p = length ports"
    using assms(3) by (simp_all add: round_robin_def pool_len_def pool_backends_def backend_new_def)
  have "map localhost ports ! (k mod length ports) = localhost (ports ! (k mod length ports))"
    using assms(3) by (intro nth_map) simp
  then have "select peer ?p = (Selected (localhost (ports ! (k mod length ports))), ?p\<lparr>bp_counter := of_nat (Suc k)\<rparr>)"
    using select_round_robin [OF p(1,2), of peer] by (simp only: p(3,4)) (simp add: k add.commute)
  then show ?thesis
    using assms(1) by (simp add: route_peer_def lb_table_resolves from_pool_def lb_after_def)
qed

definition from_outside :: "socket_addr \<Rightarrow> bool" where
  "from_outside peer \<longleftrightarrow> \<not> is_internal (sa_ip peer)"

text \<open>Connections while the pool stays as it is: what they get, and the pools after them.\<close>

lemma lb_run_callers:
  assumes "k + length callers \<le> 2 ^ 64" "ports \<noteq> []" "m = length (filter from_outside callers)"
    and "(rs, pools) = lb_run srt (map Caller callers) (lb_after srt ports k)"
  shows "map fst rs = callers \<and> pools = lb_after srt ports (k + m) \<and>
    map snd (filter (\<lambda>(p, r). from_outside p) rs) =
      map (\<lambda>i. RouteTo (Some (localhost (ports ! (i mod length ports))))) [k..<k + m] \<and>
    (\<forall>(p, r) \<in> set rs. is_internal (sa_ip p) \<longrightarrow> r = session_backend srt p)"
  using assms(1,3,4)
proof (induction callers arbitrary: k m rs pools)
  case (Cons peer callers)
  define k1 where "k1 = (if from_outside peer then Suc k else k)"
  obtain rs1 pools1 where one: "lb_run srt (map Caller callers) (lb_after srt ports k1) = (rs1, pools1)"
    by fastforce
  have "k1 + length callers \<le> 2 ^ 64" "k < 2 ^ 64" using Cons.prems(1) by (auto simp: k1_def)
  note IH = Cons.IH [OF this(1) refl one [symmetric]] and small = this(2)
  show ?case
  proof (cases "from_outside peer")
    case True
    then have "rs = (peer, RouteTo (Some (localhost (ports ! (k mod length ports))))) # rs1" "pools = pools1"
      using Cons.prems(3) one small assms(2) by (simp_all add: lb_external from_outside_def k1_def)
    then show ?thesis using IH True Cons.prems(2)
      by (simp add: upt_conv_Cons k1_def from_outside_def del: upt_Suc)
  next
    case False
    then have "rs = (peer, session_backend srt peer) # rs1" "pools = pools1"
      using Cons.prems(3) one by (simp_all add: lb_internal from_outside_def k1_def)
    then show ?thesis using IH False Cons.prems(2) by (simp add: k1_def from_outside_def)
  qed
qed simp

lemma lb_run_append:
  "lb_run srt (evs @ evs') pools =
     (let (rs, pools) = lb_run srt evs pools; (rs', pools) = lb_run srt evs' pools in (rs @ rs', pools))"
proof (induction evs arbitrary: pools)
  case (Cons ev evs)
  then show ?case by (cases ev) (simp_all add: split_beta Let_def)
qed simp

lemma session_backend_member:
  assumes "ring_sorter srt" "is_internal (sa_ip peer)"
  shows "session_backend srt peer \<in> {RouteTo (Some (localhost 9011)), RouteTo (Some (localhost 9012))}"
proof -
  let ?p = "session_cluster srt"
  have b: "bp_backends ?p = [with_weight 2 (backend_new (localhost 9011)), with_weight 1 (backend_new (localhost 9012))]"
    by (simp add: session_cluster_def consistent_hash_def rebuild_ring_def)
  have "pool_ok ?p" unfolding session_cluster_def by (rule ring_sorter.consistent_hash_ok [OF assms(1)])
  then obtain a where "a \<in> set (pool_backends ?p)" "fst (select peer ?p) = Selected a"
    using select_member [of ?p peer] b by auto
  then show ?thesis
    using assms(2) b by (auto simp: session_backend_def route_peer_def lb_table_resolves from_pool_def lb_pools_def
        pool_backends_def with_weight_def backend_new_def split_beta)
qed

lemma session_backend_by_address:
  assumes "is_internal (sa_ip peer)" "sa_ip peer = sa_ip peer'"
  shows "session_backend srt peer = session_backend srt peer'"
proof -
  have "hash_addr_ip peer = hash_addr_ip peer'" using assms(2) by (simp add: hash_addr_ip_def)
  then have "fst (select peer (session_cluster srt)) = fst (select peer' (session_cluster srt))"
    by (simp add: select_def session_cluster_strategy Let_def split: option.split)
  then show ?thesis
    using assms by (simp add: session_backend_def route_peer_def lb_table_resolves from_pool_def lb_pools_def split_beta
        split: selection.split)
qed

section \<open>The client at the proxy\<close>

text \<open>The proxy \<open>run\<close> starts with, its handle being what the shared cell holds.\<close>

definition proxy_of :: "proxy_server \<Rightarrow> tcp_proxy" where
  "proxy_of s =
     (case pxs_auth_handle s of
        Some handle \<Rightarrow> with_auth_handle handle (tcp_proxy_new (pxs_config s))
      | None \<Rightarrow> tcp_proxy_new (pxs_config s))"

lemma proxy_of_run: "\<not> offloads_tls (pxs_config s) \<Longrightarrow>
    sync_run_start s (IoOk ()) now = Ok (build_guard_stack now (pc_guards (pxs_config s)), proxy_of s)"
  by (simp add: sync_run_start_def proxy_of_def Let_def)

lemma usage_auth:
  "effective_auth (proxy_of (run_proxy_server bp)) = Ok (Basic ''admin'' ''password123'')"
  "effective_auth (proxy_of (rotate_credentials (run_proxy_server bp))) = Ok (Basic ''admin'' ''rotated-secret'')"
  by (simp_all add: effective_auth_def proxy_of_def run_proxy_server_def rotate_credentials_def Let_def
      server_with_metrics_def server_with_auth_handle_def proxy_server_new_def with_auth_handle_def handle_new_def
      admin_def auth_basic_def handle_set_basic_def handle_set_def handle_current_def)

lemma client_at_proxy:
  assumes "utf8_valid (u @ CHR '':'' # q)" "encode_header (Basic u q) = Some h"
    and "length (connect_request addr h) \<le> header_cap" "concat cs = connect_request addr h @ payload"
    and "list_all (\<lambda>c. c \<noteq> []) cs"
  shows "\<exists>trailing k. validate_http_auth_stream (Basic u' q') (map IoOk cs @ rs) =
      Some (if split_once (CHR '':'') (u @ CHR '':'' # q) = Some (u', q') then Ok trailing else Err invalid_credentials,
        map IoOk (drop k cs) @ rs) \<and> trailing @ concat (drop k cs) = payload"
proof -
  let ?r = "connect_request addr h"
  have pos: "position_of blank_line (concat cs) = Some (length ?r - 4)"
    using request_position [OF own_header_text(1) [OF assms(2)], of addr payload] assms(4) by simp
  have cut: "length ?r - 4 + 4 = length ?r" using request_length [of addr h] by simp
  have block: "take (length ?r) (concat cs) = ?r" "drop (length ?r) (concat cs) = payload" using assms(4) by simp_all
  have "length ?r - 4 + 4 \<le> header_cap" using cut assms(3) by simp
  note chunks = auth_chunks [OF assms(5) pos this, where skip = "drop 1" and auth = "Basic u' q'" and io_error = read_failed
      and rs = rs, unfolded cut block]
  show ?thesis
    unfolding sync_decision using chunks unfolding request_decision [OF assms(1,2)] by blast
qed

lemma admin_text:
  "utf8_valid (''admin'' @ CHR '':'' # ''password123'')" "utf8_valid (''admin'' @ CHR '':'' # ''wrong-password'')"
  by (rule utf8_ascii, simp)+

lemma admin_splits: "split_once (CHR '':'') (''admin'' @ CHR '':'' # pw) = Some (u', q') \<longleftrightarrow> u' = ''admin'' \<and> q' = pw"
  by auto

lemma encode_chunks_length: "length (encode_chunks bs) \<le> 4 * (length bs + 2)"
  by (induction bs rule: encode_chunks.induct) (simp_all add: encode_chunk_def Let_def)

lemma base64_encode_length: "length (base64_encode input) \<le> 4 * (length input + 2)"
  using encode_chunks_length [of "as_bytes input"] by (simp add: base64_encode_def as_bytes_def)

lemma usage_requests:
  assumes "pw \<in> {''password123'', ''wrong-password''}"
  shows "\<exists>h. encode_header (Basic ''admin'' pw) = Some h \<and> length (connect_request (localhost 3000) h) \<le> header_cap"
proof -
  have "length (display_socket (localhost 3000)) = 14" by code_simp
  moreover have "length (base64_encode (''admin'' @ '':'' @ pw)) \<le> 100"
    using base64_encode_length [of "''admin'' @ '':'' @ pw"] assms by auto
  ultimately show ?thesis
    by (simp add: connect_request_def header_cap_def basic_key_def authorization_key_def blank_line_def crlf_def)
qed

lemma copy_loop_open:
  "list_all (\<lambda>c. c \<noteq> []) cs \<Longrightarrow> length cs \<le> length ws \<Longrightarrow> list_all (\<lambda>w. w = IoOk ()) ws \<Longrightarrow>
   copy_loop (map IoOk cs) ws = (cs, False)"
proof (induction cs arbitrary: ws)
  case (Cons c cs)
  then obtain w ws' where "ws = w # ws'" by (cases ws) auto
  then show ?case using Cons by auto
qed simp

section \<open>Properties\<close>

text \<open>
  The proxies of the example send every peer where they say: in the demo and in the
  asynchronous proxy a peer of 127.0.0.0/8 goes to the backend and every other peer, an IPv6 one
  included, is rejected; in \<open>proxy-server\<close> the peer 192.168.1.100 goes to port 3001 besides.
\<close>

theorem usage_routes:
  "fst (route_peer (run_demo_config pp bp) peer pools) =
     (if is_loopback (sa_ip peer) then RouteTo (Some (localhost bp)) else RouteRejected) \<and>
   fst (route_peer (aps_config (run_proxy_server_async tls)) peer pools) =
     (if is_loopback (sa_ip peer) then RouteTo (Some (localhost 3000)) else RouteRejected) \<and>
   fst (route_peer (pxs_config (run_proxy_server bp)) peer pools) =
     (if is_loopback (sa_ip peer) then RouteTo (Some (localhost bp))
      else if sa_ip peer = V4 (ipv4_new 192 168 1 100) then RouteTo (Some (localhost 3001)) else RouteRejected)"
  by (simp add: route_peer_def demo_table_resolves usage_table_resolves)

text \<open>
  C26. The load-balancing proxy of the example is fair to the world and sticky inside, in every
  sequence of at most \<open>2 ^ 64\<close> connections, with the backend that is added after a minute: the
  connections from outside 10.0.0.0/24 get the three backends of the API cluster in turn, whatever
  internal connections come in between; from the scale-out on they get the four backends in turn,
  the count going on where it was; an internal one gets one of the two session backends, always the
  same for its address, whoever else connects, before the scale-out and after it.
\<close>

theorem usage_lb_fair_and_sticky:
  assumes "ring_sorter srt" "length earlier + length later \<le> 2 ^ 64"
    and "rs = fst (lb_run srt (map Caller earlier @ ScalesOut # map Caller later) (lb_pools srt))"
  shows "map fst rs = earlier @ later \<and>
    map snd (filter (\<lambda>(p, r). from_outside p) rs) =
      map (\<lambda>i. RouteTo (Some (localhost (if i < length (filter from_outside earlier) then [9001, 9002, 9003] ! (i mod 3)
          else [9001, 9002, 9003, 9004] ! (i mod 4)))))
        [0..<length (filter from_outside (earlier @ later))] \<and>
    (\<forall>(p, r) \<in> set rs. is_internal (sa_ip p) \<longrightarrow>
      r \<in> {RouteTo (Some (localhost 9011)), RouteTo (Some (localhost 9012))} \<and>
      (\<forall>(p', r') \<in> set rs. sa_ip p' = sa_ip p \<longrightarrow> r' = r))"
proof -
  let ?m = "length (filter from_outside earlier)" and ?m' = "length (filter from_outside later)"
  obtain rs1 pools1 where one: "(rs1, pools1) = lb_run srt (map Caller earlier) (lb_after srt [9001, 9002, 9003] 0)"
    by (metis surj_pair)
  obtain rs2 pools2 where two: "(rs2, pools2) = lb_run srt (map Caller later) (lb_after srt [9001, 9002, 9003, 9004] ?m)"
    by (metis surj_pair)
  have "?m + length later \<le> 2 ^ 64" using assms(2) length_filter_le [of from_outside earlier] by linarith
  note second = lb_run_callers [OF this _ refl two]
  have "0 + length earlier \<le> 2 ^ 64" using assms(2) by simp
  note first = lb_run_callers [OF this _ refl one]
  have "pools1 = lb_after srt [9001, 9002, 9003] ?m" using first by simp
  then have rs: "rs = rs1 @ rs2"
    unfolding assms(3) lb_run_append lb_after_0 one [symmetric] using two [symmetric]
    by (simp add: lb_scale_out)
  have "map snd (filter (\<lambda>(p, r). from_outside p) rs) =
      map (\<lambda>i. RouteTo (Some (localhost (if i < ?m then [9001, 9002, 9003] ! (i mod 3)
          else [9001, 9002, 9003, 9004] ! (i mod 4))))) ([0..<?m] @ [?m..<?m + ?m'])"
    unfolding rs map_append filter_append using first second by simp
  then have turns: "map snd (filter (\<lambda>(p, r). from_outside p) rs) =
      map (\<lambda>i. RouteTo (Some (localhost (if i < ?m then [9001, 9002, 9003] ! (i mod 3)
          else [9001, 9002, 9003, 9004] ! (i mod 4))))) [0..<length (filter from_outside (earlier @ later))]"
    by (simp only: filter_append length_append upt_add_eq_append [OF le0])
  have session: "r = session_backend srt p" if "(p, r) \<in> set rs" "is_internal (sa_ip p)" for p r
    using first second that rs by auto
  have member: "r \<in> {RouteTo (Some (localhost 9011)), RouteTo (Some (localhost 9012))}"
    if "(p, r) \<in> set rs" "is_internal (sa_ip p)" for p r
    using session [OF that] session_backend_member [OF assms(1) that(2)] by simp
  have same: "r' = r" if "(p, r) \<in> set rs" "is_internal (sa_ip p)" "(p', r') \<in> set rs" "sa_ip p' = sa_ip p" for p r p' r'
    using session [OF that(1,2)] session [OF that(3)] session_backend_by_address [OF that(2), of p' srt] that(2,4) by simp
  have "map fst rs = earlier @ later" using first second rs by simp
  then show ?thesis using turns member same by blast
qed

text \<open>Five connections from outside, the scale-out after the second.\<close>

theorem usage_lb_fair_and_sticky_witness:
  "let p = SockV4 (ipv4_new 8 8 8 8) 1 in
   map snd (fst (lb_run (sort_key rn_hash) [Caller p, Caller p, ScalesOut, Caller p, Caller p, Caller p]
     (lb_pools (sort_key rn_hash)))) =
   map (\<lambda>port. RouteTo (Some (localhost port))) [9001, 9002, 9003, 9004, 9001]"
proof -
  let ?p = "SockV4 (ipv4_new 8 8 8 8) 1"
  have outside: "from_outside ?p" by (simp add: from_outside_def is_internal_def ipv4_new_def)
  define rs where "rs = fst (lb_run (sort_key rn_hash) (map Caller [?p, ?p] @ ScalesOut # map Caller [?p, ?p, ?p])
    (lb_pools (sort_key rn_hash)))"
  have "length [?p, ?p] + length [?p, ?p, ?p] \<le> 2 ^ 64" by simp
  note all = usage_lb_fair_and_sticky [OF stable.ring_sorter_axioms this rs_def]
  have fst_rs: "map fst rs = [?p, ?p, ?p, ?p, ?p]" using all by simp
  have "from_outside q" if "(q, r) \<in> set rs" for q r
  proof -
    have "q \<in> set (map fst rs)" using that by force
    then show ?thesis using outside by (simp add: fst_rs)
  qed
  then have "filter (\<lambda>(p, r). from_outside p) rs = rs" by (intro filter_True) auto
  moreover have "[0..<length (filter from_outside ([?p, ?p] @ [?p, ?p, ?p]))] = [0, 1, 2, 3, 4]"
    using outside by (simp add: upt_rec)
  ultimately have "map snd rs = map (\<lambda>port. RouteTo (Some (localhost port))) [9001, 9002, 9003, 9004, 9001]"
    using all [THEN conjunct2, THEN conjunct1] outside by simp
  then show ?thesis by (simp add: rs_def Let_def)
qed

text \<open>
  C25. Credentials at the running proxy of the example: a new connection is judged by what the shared
  handle holds then, not by the configuration. Before the rotation the client with \<open>password123\<close> is let
  through, after it is refused, and \<open>wrong-password\<close> always is; when a client is refused the backend is not
  contacted and neither side receives a byte, and the client, which reads the end of the stream,
  is told \<open>Ok\<close> with an empty response: the example prints an unexpected success.
\<close>

theorem usage_credentials:
  assumes "client = (if good then usage_client port else bad_client port)"
    and "proxy = proxy_of (if rotated then rotate_credentials (run_proxy_server bp) else run_proxy_server bp)"
    and "concat cs = snd (send_and_receive (IoOk ()) (IoOk ()) (IoOk ()) answer payload client)"
    and "list_all (\<lambda>c. c \<noteq> []) cs" "fe_reads env = map IoOk cs @ rs"
  shows "if good \<and> \<not> rotated then fw_contacted (forward_to proxy backend env) \<noteq> None
    else forward_to proxy backend env = ended (Err invalid_credentials) \<and>
      bad_client_verdict (fst (send_and_receive (IoOk ()) (IoOk ()) (IoOk ()) (IoOk []) payload client)) =
        Ok (UnexpectedSuccess [])"
proof -
  define pw where "pw = (if good then ''password123'' else ''wrong-password'')"
  define held_pw where "held_pw = (if rotated then ''rotated-secret'' else ''password123'')"
  have client: "pcl_auth client = Basic ''admin'' pw" "pcl_backend_addr client = localhost 3000"
    using assms(1) by (simp_all add: pw_def usage_client_def bad_client_def client_with_auth_def proxy_client_new_def admin_def auth_basic_def)
  obtain h where h: "encode_header (Basic ''admin'' pw) = Some h" "length (connect_request (localhost 3000) h) \<le> header_cap"
    using usage_requests [of pw] by (auto simp: pw_def)
  have sent: "concat cs = connect_request (localhost 3000) h @ payload"
    using assms(3) client h by (simp add: send_and_receive_def proxy_client_connect_def Let_def del: encode_header.simps split: io.splits)
  have auth: "effective_auth proxy = Ok (Basic ''admin'' held_pw)"
    using assms(2) usage_auth by (simp add: held_pw_def)
  have "utf8_valid (''admin'' @ CHR '':'' # pw)" unfolding pw_def using admin_text by (simp only: split: if_split) blast
  from client_at_proxy [OF this h sent assms(4), of "''admin''" held_pw rs] obtain trailing k where
    v: "validate_http_auth_stream (Basic ''admin'' held_pw) (fe_reads env) =
      Some (if held_pw = pw then Ok trailing else Err invalid_credentials, map IoOk (drop k cs) @ rs)"
    unfolding admin_splits assms(5) by auto
  have same: "held_pw = pw \<longleftrightarrow> good \<and> \<not> rotated" by (simp add: pw_def held_pw_def)
  have empty: "fst (send_and_receive (IoOk ()) (IoOk ()) (IoOk ()) (IoOk []) payload client) = Ok []"
    using client h by (simp add: send_and_receive_def proxy_client_connect_def Let_def del: encode_header.simps)
  show ?thesis
  proof (cases "held_pw = pw")
    case True
    then show ?thesis using forward_contacts [OF auth _ v [unfolded if_P [OF True]]] same by simp
  next
    case False
    then show ?thesis using v [unfolded if_not_P [OF False]] auth same empty by (auto simp: forward_to_def bad_client_verdict_def)
  qed
qed

text \<open>
  C12. The demo end to end: a client with the proxy's credentials, the blocking proxy in between, the
  echo server behind it. However the client's bytes are cut on their way to the proxy, the backend
  receives exactly the payload, the proxy goes on waiting for more, and what the client gets back, the
  proxy having forwarded what the echo handler sent and the network delivering any prefix, is a
  prefix of the payload; it is the whole payload once everything has been delivered.
\<close>

theorem usage_round_trip:
  assumes "utf8_valid (u @ CHR '':'' # q)" "CHR '':'' \<notin> set u" "encode_header (Basic u q) = Some h"
    and "pcl_auth client = Basic u q" "effective_auth proxy = Ok (Basic u q)"
    and "length (connect_request (pcl_backend_addr client) h) \<le> header_cap"
    and "send_and_receive (IoOk ()) (IoOk ()) (IoOk ()) (IoOk available) payload client = (Ok response, sent)"
    and "concat cs = sent" "list_all (\<lambda>c. c \<noteq> []) cs" "fe_reads env = map IoOk cs"
    and "fe_connect env = IoOk ()" "fe_write_trailing env = IoOk ()" "fe_clone_client env = IoOk ()" "fe_clone_backend env = IoOk ()"
    and "list_all (\<lambda>w. w = IoOk ()) (fe_backend_writes env)" "length cs \<le> length (fe_backend_writes env)"
    and "f = forward_to proxy backend env"
    and "sync_echo (\<lambda>msg. Ok ()) ts = (None, replied)"
    and "prefix (delivered (map (sync_io \<circ> fst) ts)) (as_bytes (concat (fw_to_backend f)))"
    and "fe_backend_reads env = map IoOk ds" "concat ds = of_bytes replied" "list_all (\<lambda>c. c \<noteq> []) ds"
    and "list_all (\<lambda>w. w = IoOk ()) (fe_client_writes env)" "length ds \<le> length (fe_client_writes env)"
    and "prefix available (concat (fw_to_client f))"
  shows "concat (fw_to_backend f) = payload \<and> fw_outcome f = None \<and> prefix response payload \<and>
    (delivered (map (sync_io \<circ> fst) ts) = as_bytes payload \<and> available = concat (fw_to_client f) \<longrightarrow> response = payload)"
proof -
  have sent: "concat cs = connect_request (pcl_backend_addr client) h @ payload" "response = take (max (length payload) 1 * 2) available"
    using assms(3,4,7,8) by (auto simp: send_and_receive_def proxy_client_connect_def Let_def simp del: encode_header.simps)
  have split: "split_once (CHR '':'') (u @ CHR '':'' # q) = Some (u, q)" using assms(2) split_once_some by simp
  obtain trailing k where v: "validate_http_auth_stream (Basic u q) (fe_reads env) = Some (Ok trailing, map IoOk (drop k cs))"
      "trailing @ concat (drop k cs) = payload"
    using client_at_proxy [OF assms(1,3,6) sent(1) assms(9), of u q "[]"] split assms(10) by auto
  have "list_all (\<lambda>c. c \<noteq> []) (drop k cs)" using assms(9) by (auto simp: list_all_iff dest: in_set_dropD)
  then have up: "copy_loop (map IoOk (drop k cs)) (fe_backend_writes env) = (drop k cs, False)"
    by (rule copy_loop_open) (use assms(15,16) in simp_all)
  have down: "copy_loop (fe_backend_reads env) (fe_client_writes env) = (ds, False)"
    unfolding assms(20) by (rule copy_loop_open) (use assms(22-24) in simp_all)
  have f: "concat (fw_to_backend f) = payload" "fw_outcome f = None" "concat (fw_to_client f) = of_bytes replied"
    using assms(5,11-14,17,21) v up down by (auto simp: forward_to_def forward_bidirectional_def Let_def)
  have "replied = delivered (map (sync_io \<circ> fst) ts)" using sync_echo_delivered(3) [OF assms(18)] by simp
  then have "prefix replied (as_bytes payload)" using assms(19) f(1) by simp
  then have "prefix (of_bytes replied) payload" by (auto simp: prefix_def) (metis of_bytes_as_bytes of_bytes_simps(3))
  then have "prefix available payload" using assms(25) f(3) prefix_order.trans by simp
  then have "prefix response payload" using sent(2) take_is_prefix prefix_order.trans by metis
  moreover have "response = payload" if "delivered (map (sync_io \<circ> fst) ts) = as_bytes payload" "available = concat (fw_to_client f)"
    using that sent(2) f(3) \<open>replied = delivered (map (sync_io \<circ> fst) ts)\<close> by simp
  ultimately show ?thesis using f by blast
qed

definition usage_env :: "string list \<Rightarrow> string list \<Rightarrow> forward_env" where
  "usage_env cs ds =
     \<lparr>fe_reads = map IoOk cs, fe_connect = IoOk (), fe_write_trailing = IoOk (), fe_clone_client = IoOk (),
      fe_clone_backend = IoOk (), fe_backend_writes = map (\<lambda>_. IoOk ()) cs, fe_backend_reads = map IoOk ds,
      fe_client_writes = map (\<lambda>_. IoOk ()) ds\<rparr>"

theorem usage_credentials_witness:
  "forward_to (proxy_of (run_proxy_server 3000)) None
     (usage_env [snd (send_and_receive (IoOk ()) (IoOk ()) (IoOk ()) (IoOk []) ''hi'' (bad_client 80))] []) =
   ended (Err invalid_credentials)"
proof -
  have "snd (send_and_receive (IoOk ()) (IoOk ()) (IoOk ()) (IoOk []) ''hi'' (bad_client 80)) \<noteq> []"
    by (simp add: send_and_receive_def proxy_client_connect_def bad_client_def client_with_auth_def proxy_client_new_def
        auth_basic_def Let_def)
  then show ?thesis
    using usage_credentials [of "bad_client 80" False 80 "proxy_of (run_proxy_server 3000)" False 3000
        "[snd (send_and_receive (IoOk ()) (IoOk ()) (IoOk ()) (IoOk []) ''hi'' (bad_client 80))]" "IoOk []" "''hi''"
        "usage_env [snd (send_and_receive (IoOk ()) (IoOk ()) (IoOk ()) (IoOk []) ''hi'' (bad_client 80))] []" "[]" None]
    by (simp add: usage_env_def)
qed

lemma backend_unaffected:
  "fw_to_backend (forward_to proxy backend (usage_env cs ds)) = fw_to_backend (forward_to proxy backend (usage_env cs []))"
  by (simp add: forward_to_def usage_env_def forward_bidirectional_def Let_def split_beta
      split: outcome.split option.split)

text \<open>The demo with the payload \<open>hi\<close>, cut in two behind the request.\<close>

theorem usage_round_trip_witness:
  "\<exists>h. fst (send_and_receive (IoOk ()) (IoOk ()) (IoOk ()) (IoOk ''hi'') ''hi'' (run_demo_client 80 3000)) = Ok ''hi'' \<and>
     concat (fw_to_backend (forward_to (tcp_proxy_new (run_demo_config 80 3000)) None
       (usage_env [connect_request (localhost 3000) h @ ''h'', ''i''] [''hi'']))) = ''hi''"
proof -
  let ?c = "run_demo_client 80 3000" and ?p = "tcp_proxy_new (run_demo_config 80 3000)"
  have c: "pcl_auth ?c = Basic ''admin'' ''password123''" "pcl_backend_addr ?c = localhost 3000"
    by (simp_all add: run_demo_client_def client_with_auth_def proxy_client_new_def admin_def auth_basic_def)
  have p: "effective_auth ?p = Ok (Basic ''admin'' ''password123'')"
    by (simp add: effective_auth_def tcp_proxy_new_def run_demo_config_def Let_def with_routing_def with_buffer_size_def
        with_auth_def admin_def auth_basic_def)
  obtain h where h: "encode_header (Basic ''admin'' ''password123'') = Some h"
      "length (connect_request (localhost 3000) h) \<le> header_cap"
    using usage_requests [of "''password123''"] by auto
  let ?cs = "[connect_request (localhost 3000) h @ ''h'', ''i'']"
  have sent: "send_and_receive (IoOk ()) (IoOk ()) (IoOk ()) (IoOk r) ''hi'' ?c = (Ok (take 4 r), concat ?cs)" for r
    using c h by (simp add: send_and_receive_def proxy_client_connect_def Let_def del: encode_header.simps)
  have cs: "list_all (\<lambda>c. c \<noteq> []) ?cs" by simp
  have u: "CHR '':'' \<notin> set ''admin''" by simp
  note trip = usage_round_trip [OF admin_text(1) u h(1) c(1) p h(2) [folded c(2)] sent refl cs]
  have "concat (fw_to_backend (forward_to ?p None (usage_env ?cs []))) = ''hi''"
    using trip [of "usage_env ?cs []" "forward_to ?p None (usage_env ?cs [])" None "[]" "[]" "[]" "[]"]
    by (simp add: usage_env_def)
  then have got: "concat (fw_to_backend (forward_to ?p None (usage_env ?cs [''hi'']))) = ''hi''"
    unfolding backend_unaffected [of _ _ _ "[''hi'']"] .
  then have "concat (fw_to_backend (forward_to ?p None (usage_env ?cs [''hi'']))) = ''hi''" by simp
  then show ?thesis using sent [of "''hi''"] by auto
qed

end
