(* ===== verification/Api_Examples.thy ===== *)
theory Api_Examples
  imports Std_Guards Metrics
begin


text \<open>
  The two programs that show the interfaces of the guards and of the metrics (src/examples/guard-api.rs
  and src/examples/metrics-api.rs): the guards they configure, the calls they make, the numbers they
  print, and what the guards do with the attacks the first one describes.
\<close>

section \<open>The guards\<close>

definition attacker1 :: ip_addr where
  "attacker1 = V4 (ipv4_new 192 0 2 1)"

definition attacker2 :: ip_addr where
  "attacker2 = V4 (ipv4_new 192 0 2 2)"

definition trusted_client :: ip_addr where
  "trusted_client = V4 (ipv4_new 10 0 0 1)"

text \<open>The answers \<open>demo_ip_ban\<close> prints, in the order it prints them.\<close>

definition demo_ip_ban :: "bool list" where
  "demo_ip_ban =
     (let ip_ban = ip_ban_new IpBanConfig;
          initial = [is_banned attacker1 ip_ban, is_banned trusted_client ip_ban];
          ip_ban = ban attacker1 ip_ban;
          ip_ban = ban attacker2 ip_ban;
          banned = [is_banned attacker1 ip_ban, is_banned attacker2 ip_ban, is_banned trusted_client ip_ban];
          ip_ban = unban attacker1 ip_ban in
      initial @ banned @ [is_banned attacker1 ip_ban, is_banned attacker2 ip_ban])"

definition demo_rate_limiter :: rate_limiter_config where
  "demo_rate_limiter =
     \<lparr>per_ip_capacity = 50, per_ip_refill_per_second = 10, global_capacity = 500, global_refill_per_second = 100,
      global_window = secs 10, global_window_limit = 2000, max_tracked_ips = 100000\<rparr>"

definition demo_throttle_config :: throttle_config where
  "demo_throttle_config = \<lparr>max_connections_per_ip = 32, max_connections_global = 512\<rparr>"

definition demo_syn_guard :: syn_guard_config where
  "demo_syn_guard =
     \<lparr>sg_max_half_open_per_ip = 16, sg_max_half_open_global = 256, sg_backlog_limit = 1024,
      sg_syn_timeout = secs 5, sg_max_tracked_ips = 100000\<rparr>"

definition demo_slow_loris :: slow_loris_config where
  "demo_slow_loris = \<lparr>sl_idle_timeout = secs 15, sl_grace_period = secs 3, sl_max_tracked = 100000\<rparr>"

text \<open>The stack of the last demo, with the guards of the others.\<close>

definition production_stack :: guard_stack_config where
  "production_stack =
     \<lparr>gsc_rate_limiter = Some demo_rate_limiter, gsc_ip_ban = Some IpBanConfig,
      gsc_throttle = Some demo_throttle_config, gsc_syn_guard = Some demo_syn_guard,
      gsc_slow_loris = Some demo_slow_loris, gsc_udp_amplification = None\<rparr>"

text \<open>The attacks it describes: connections of one address that all stay open, and a client that sends
  something every \<open>gap\<close>.\<close>

fun exhaust :: "ip_addr \<Rightarrow> nat \<Rightarrow> throttle \<Rightarrow> unit outcome list" where
  "exhaust ip 0 t = []"
| "exhaust ip (Suc n) t = (let (r, t) = th_acquire ip t in r # exhaust ip n t)"

fun trickle :: "guard_context \<Rightarrow> duration \<Rightarrow> nat \<Rightarrow> instant \<Rightarrow> sl_call list" where
  "trickle ctx gap 0 t = []"
| "trickle ctx gap (Suc n) t = SlActivity (t + gap) ctx # SlPayload (t + gap) ctx [0] # trickle ctx gap n (t + gap)"

section \<open>Lemmas\<close>

lemma replicate_tail: "m - k = Suc j \<Longrightarrow> m - Suc k = j" "m - k = Suc j \<Longrightarrow> Suc (n + k) - m = n - j" for m k j n :: nat
  by arith+

lemma exhaust_spec:
  assumes "th_rel t (replicate_mset k ip)" "k \<le> m" "m \<le> max_connections_global (th_config t)"
    and "m = max_connections_per_ip (th_config t)"
  shows "map is_ok (exhaust ip n t) = replicate (min n (m - k)) True @ replicate (n - (m - k)) False"
  using assms
proof (induction n arbitrary: t k)
  case (Suc n)
  obtain r t' where a: "th_acquire ip t = (r, t')" by (metis surj_pair)
  obtain r' live where s: "spec_acquire (th_config t) ip (replicate_mset k ip) = (r', live)" by (metis surj_pair)
  have t': "r = r'" "th_rel t' live" "th_config t' = th_config t" using th_acquire_refines [OF Suc.prems(1) a s] by auto
  show ?case
  proof (cases "k = m")
    case True
    then have "\<not> is_ok r" "live = replicate_mset k ip"
      using s t'(1) Suc.prems(4) by (auto simp: spec_acquire_def split: if_splits)
    then show ?thesis using Suc.IH [of t' k] t' Suc.prems True by (simp add: a)
  next
    case False
    then have "r' = Ok ()" "live = replicate_mset (Suc k) ip"
      using s Suc.prems by (auto simp: spec_acquire_def split: if_splits)
    then show ?thesis using Suc.IH [of t' "Suc k"] t' Suc.prems False
      by (cases "m - k") (auto simp: a replicate_tail)
  qed
qed simp

lemma flood_counts:
  assumes "ho_rel cfg s H" "distinct addrs" "set addrs \<inter> H = {}"
    and cfg: "sg_max_half_open_global cfg \<le> sg_max_tracked_ips cfg" "sg_max_tracked_ips cfg \<le> usize_max"
    and "ho_reserve_all cfg now (map sa_ip addrs) s = (rs, s')"
  shows "\<exists>H'. ho_rel cfg s' H' \<and> card H' = card H + length (filter is_ok rs)"
  using assms(1-3,6)
proof (induction addrs arbitrary: s H rs)
  case (Cons a addrs)
  obtain r s1 where r: "ho_reserve cfg now (sa_ip a) s = (r, s1)" by (metis surj_pair)
  obtain rs1 where rs: "ho_reserve_all cfg now (map sa_ip addrs) s1 = (rs1, s')" "rs = r # rs1"
    using Cons.prems(4) r by (auto split: prod.splits)
  show ?case
  proof (cases r)
    case (Ok u)
    then have "ho_rel cfg s1 (insert a H)" using ho_reserve_rel [OF Cons.prems(1) cfg] r Cons.prems(3) by simp
    moreover have "set addrs \<inter> insert a H = {}" "finite H" "a \<notin> H"
      using Cons.prems by (auto simp: ho_rel_def)
    ultimately show ?thesis using Cons.IH [OF _ _ _ rs(1)] Cons.prems(2) Ok by (fastforce simp: rs(2))
  next
    case (Err e)
    then have "s1 = s" using ho_reserve_refused r by blast
    then show ?thesis using Cons.IH [OF Cons.prems(1) _ _ , of rs1] Cons.prems rs Err by simp
  next
    case (Panic msg)
    then show ?thesis using ho_reserve_no_panic r by (metis fst_conv)
  qed
qed auto

lemma flood_bound:
  assumes "distinct addrs" "sg_max_half_open_global cfg \<le> sg_max_tracked_ips cfg" "sg_max_tracked_ips cfg \<le> usize_max"
  shows "length (filter is_ok (fst (ho_reserve_all cfg now (map sa_ip addrs) half_open_default))) \<le>
    sg_max_half_open_global cfg"
proof -
  obtain rs s' where run: "ho_reserve_all cfg now (map sa_ip addrs) half_open_default = (rs, s')" by (metis surj_pair)
  have "ho_rel cfg half_open_default {}"
    using ho_history_rel [OF ho_history.start assms(2,3)] by simp
  from flood_counts [OF this assms(1) _ assms(2,3) run]
  obtain H where "ho_rel cfg s' H" "card H = length (filter is_ok rs)" by auto
  then show ?thesis by (auto simp: run ho_rel_def ho_ok_def)
qed

text \<open>The activity list of a single client.\<close>

lemma lru_note_single: "1 \<le> bound \<Longrightarrow> lru_note bound now a [(a, t)] = [(a, now)]" "1 \<le> bound \<Longrightarrow> lru_note bound now a [] = [(a, now)]"
  by (simp_all add: lru_note_def lru_remove_def)

lemma trickle_lru:
  "list_all is_ok (fst (lru_run cfg (trickle ctx gap n t) [(gc_peer_addr ctx, t)])) \<longleftrightarrow>
     n = 0 \<or> gap \<le> sl_idle_timeout cfg + sl_grace_period cfg"
proof (cases "gap \<le> sl_idle_timeout cfg + sl_grace_period cfg")
  case True
  then have "list_all is_ok (fst (lru_run cfg (trickle ctx gap n t) [(gc_peer_addr ctx, t)]))"
    by (induction n arbitrary: t) (simp_all add: split_beta lru_silent_def lru_note_single)
  then show ?thesis using True by simp
next
  case False
  then show ?thesis by (cases n) (auto simp: split_beta lru_silent_def)
qed

lemma length_trickle [simp]: "length (trickle ctx gap n t) = 2 * n"
  by (induction ctx gap n t rule: trickle.induct) simp_all

lemma trickle_sl:
  assumes "sl_max_tracked cfg \<le> usize_max" "sl_idle_timeout cfg + sl_grace_period cfg \<le> duration_max"
    and "2 * n + 1 < 2 ^ 64"
  shows "list_all is_ok (fst (sl_run (SlReserve t ctx # trickle ctx gap n t) (sl_new cfg))) \<longleftrightarrow>
    n = 0 \<or> gap \<le> sl_idle_timeout cfg + sl_grace_period cfg"
proof -
  obtain rs g where run: "sl_run (SlReserve t ctx # trickle ctx gap n t) (sl_new cfg) = (rs, g)" by (metis surj_pair)
  have "rs = fst (lru_run cfg (SlReserve t ctx # trickle ctx gap n t) [])"
    using sl_run_refines [OF assms(1,2) sl_new_ok(1) _ run] assms(3) by (simp add: sl_new_ok(2,3) prod_eq_iff)
  then have "rs = Ok () # fst (lru_run cfg (trickle ctx gap n t) [(gc_peer_addr ctx, t)])"
    by (simp add: split_beta lru_note_single)
  then show ?thesis unfolding run by (simp add: trickle_lru)
qed

lemma first_late:
  assumes "sl_max_tracked cfg \<le> usize_max" "sl_idle_timeout cfg + sl_grace_period cfg \<le> duration_max"
    and "2 * n + 1 < 2 ^ 64" "0 < n" "sl_idle_timeout cfg + sl_grace_period cfg < gap"
  shows "take 2 (fst (sl_run (SlReserve t ctx # trickle ctx gap n t) (sl_new cfg))) =
    [Ok (), Err (Timeout (sl_idle_timeout cfg) ''reading from a very slow client'')]"
proof -
  obtain m where n: "n = Suc m" using assms(4) by (cases n) auto
  obtain rs g where run: "sl_run (SlReserve t ctx # trickle ctx gap n t) (sl_new cfg) = (rs, g)" by (metis surj_pair)
  have "rs = fst (lru_run cfg (SlReserve t ctx # trickle ctx gap n t) [])"
    using sl_run_refines [OF assms(1,2) sl_new_ok(1) _ run] assms(3) by (simp add: sl_new_ok(2,3) prod_eq_iff)
  then show ?thesis unfolding run using assms(5) by (simp add: n split_beta lru_note_single lru_silent_def)
qed

section \<open>The metrics\<close>

definition client_ip_1 :: ip_addr where
  "client_ip_1 = V4 (ipv4_new 192 168 1 100)"

definition client_ip_2 :: ip_addr where
  "client_ip_2 = V4 (ipv4_new 192 168 1 101)"

definition client_ip_3 :: ip_addr where
  "client_ip_3 = V6 (ipv6_new [0x2001, 0xdb8, 0, 0, 0, 0, 0, 1])"

definition recorded_connections :: "metric_op list" where
  "recorded_connections =
     [RecordTcp (Some ''api-server'') client_ip_1, RecordTcp (Some ''api-server'') client_ip_2,
      RecordTls (Some ''api-server'') client_ip_3, RecordTls (Some ''db-server'') client_ip_1,
      RecordMtls (Some ''db-server'') client_ip_2, RecordFailure (Some ''api-server'') client_ip_1,
      RecordFailure (Some ''db-server'') client_ip_3]"

definition sim_ip :: ip_addr where
  "sim_ip = V4 (ipv4_new 10 0 0 1)"

definition opened_connections :: "metric_op list" where
  "opened_connections =
     [RecordTcp (Some ''web-server'') sim_ip, RecordTcp (Some ''web-server'') sim_ip, RecordTls (Some ''web-server'') sim_ip]"

definition closed_connection :: "metric_op list" where
  "closed_connection = [RecordClose (Some ''web-server'') sim_ip]"

definition monitor_event :: "nat \<Rightarrow> metric_op list" where
  "monitor_event i =
     (let ip = V4 (ipv4_new 172 16 0 (of_nat i)) in
      if i = 0 then [RecordTcp (Some ''monitor'') ip]
      else if i = 1 then [RecordTls (Some ''monitor'') ip]
      else if i = 2 then [RecordMtls (Some ''monitor'') ip]
      else if i = 3 then [RecordFailure (Some ''monitor'') ip]
      else if i = 4 then [RecordClose (Some ''monitor'') ip]
      else [])"

text \<open>The numbers \<open>on_metrics\<close> and the events print: TCP, TLS, mutual TLS, active, failed.\<close>

definition logged :: "connection_metrics \<Rightarrow> u64 \<times> u64 \<times> u64 \<times> u64 \<times> u64" where
  "logged m =
     (cm_tcp_connections_total m, cm_tls_connections_total m, cm_mtls_connections_total m,
      cm_active_connections m, cm_failed_connections m)"

text \<open>The calls the program has made when it takes its n-th snapshot, the events of the thread one by one.\<close>

definition metrics_demo :: "nat \<Rightarrow> metric_op list" where
  "metrics_demo n =
     recorded_connections @ (if 1 \<le> n then opened_connections else []) @ (if 2 \<le> n then closed_connection else []) @
     concat (map monitor_event [0..<n - 2])"

text \<open>The printed numbers alone.\<close>

fun log_step :: "metric_op \<Rightarrow> u64 \<times> u64 \<times> u64 \<times> u64 \<times> u64 \<Rightarrow> u64 \<times> u64 \<times> u64 \<times> u64 \<times> u64" where
  "log_step (RecordTcp server ip) (tcp, tls, mtls, active, failed) = (tcp + 1, tls, mtls, active + 1, failed)"
| "log_step (RecordTls server ip) (tcp, tls, mtls, active, failed) = (tcp, tls + 1, mtls, active + 1, failed)"
| "log_step (RecordMtls server ip) (tcp, tls, mtls, active, failed) = (tcp, tls, mtls + 1, active + 1, failed)"
| "log_step (RecordFailure server ip) (tcp, tls, mtls, active, failed) = (tcp, tls, mtls, active, failed + 1)"
| "log_step (RecordClose server ip) (tcp, tls, mtls, active, failed) = (tcp, tls, mtls, saturating_dec active, failed)"
| "log_step ResetMetrics l = (0, 0, 0, 0, 0)"
| "log_step op l = l"

lemma logged_step: "logged (metrics_snapshot (metric_step op c)) = log_step op (logged (metrics_snapshot c))"
  by (cases op) (simp_all add: logged_def metrics_snapshot_def metric_defs)

lemma logged_steps: "logged (metrics_snapshot (fold metric_step ops c)) = fold log_step ops (logged (metrics_snapshot c))"
  by (induction ops arbitrary: c) (simp_all add: logged_step)

section \<open>Properties\<close>

text \<open>
  The attacks of the guard example, on the guards it configures. Connections of one address that
  all stay open: exactly the first 32 are accepted. A flood of half-open connections, whatever the
  number of addresses: at most 256 are accepted, fewer than the 16 of every address. A client that sends a byte
  every \<open>gap\<close>: it is refused if and only if \<open>gap\<close> is longer than 18 s, and then at the first byte
  that comes too late, not by a timer. A stack of all five guards asks the rate limiter first and
  the SYN guard fourth, not the SYN guard and the ban list first.
\<close>

theorem guard_api_attacks:
  assumes "distinct addrs" "0 < n" "2 * n + 1 < 2 ^ 64"
  shows "map is_ok (exhaust ip k (throttle_new demo_throttle_config)) =
      replicate (min k 32) True @ replicate (k - 32) False \<and>
    length (filter is_ok (fst (ho_reserve_all demo_syn_guard now (map sa_ip addrs) half_open_default))) \<le> 256 \<and>
    (list_all is_ok (fst (sl_run (SlReserve t ctx # trickle ctx gap n t) (sl_new demo_slow_loris))) \<longleftrightarrow> gap \<le> secs 18) \<and>
    (secs 18 < gap \<longrightarrow> take 2 (fst (sl_run (SlReserve t ctx # trickle ctx gap n t) (sl_new demo_slow_loris))) =
       [Ok (), Err (Timeout (secs 15) ''reading from a very slow client'')]) \<and>
    map std_name (gs_guards (build_guard_stack now production_stack)) =
      [''rate_limiter'', ''ip_ban'', ''throttle'', ''syn_guard'', ''slow_loris'']"
proof -
  have limits: "max_connections_global demo_throttle_config = 512" "max_connections_per_ip demo_throttle_config = 32"
      "sg_max_half_open_global demo_syn_guard = 256" "sg_max_tracked_ips demo_syn_guard = 100000"
      "sl_max_tracked demo_slow_loris \<le> usize_max"
      "sl_idle_timeout demo_slow_loris + sl_grace_period demo_slow_loris = secs 18"
      "sl_idle_timeout demo_slow_loris = secs 15" "secs 18 \<le> duration_max"
    by (simp_all add: demo_throttle_config_def demo_syn_guard_def demo_slow_loris_def usize_max_def secs_def
        nanos_per_sec_def duration_max_def)
  have idle: "sl_idle_timeout demo_slow_loris + sl_grace_period demo_slow_loris \<le> duration_max"
    by (simp only: limits(6,8))
  have "map is_ok (exhaust ip k (throttle_new demo_throttle_config)) =
      replicate (min k (32 - 0)) True @ replicate (k - (32 - 0)) False"
    by (rule exhaust_spec) (simp_all add: th_rel_new limits usize_max_def throttle_new_def [of demo_throttle_config, THEN arg_cong [of _ _ th_config]])
  then have "map is_ok (exhaust ip k (throttle_new demo_throttle_config)) = replicate (min k 32) True @ replicate (k - 32) False"
    by (simp only: diff_zero)
  moreover have "length (filter is_ok (fst (ho_reserve_all demo_syn_guard now (map sa_ip addrs) half_open_default))) \<le> 256"
    using flood_bound [OF assms(1), of demo_syn_guard now] by (simp add: limits usize_max_def)
  moreover have "list_all is_ok (fst (sl_run (SlReserve t ctx # trickle ctx gap n t) (sl_new demo_slow_loris))) \<longleftrightarrow> gap \<le> secs 18"
    using trickle_sl [OF limits(5) idle assms(3), of t ctx gap] assms(2) by (simp only: limits(6) less_not_refl2 simp_thms)
  moreover have "take 2 (fst (sl_run (SlReserve t ctx # trickle ctx gap n t) (sl_new demo_slow_loris))) =
      [Ok (), Err (Timeout (secs 15) ''reading from a very slow client'')]" if "secs 18 < gap"
    by (simp only: first_late [OF limits(5) idle assms(3,2) that [folded limits(6)]] limits(7))
  ultimately show ?thesis by (simp add: build_guard_stack_def production_stack_def gs_new_def)
qed

theorem guard_api_attacks_witness:
  "length (filter is_ok (exhaust attacker1 500 (throttle_new demo_throttle_config))) = 32 \<and>
   list_all is_ok (fst (sl_run (SlReserve 0 (demo_ctx 1) # trickle (demo_ctx 1) (secs 17) 3 0) (sl_new demo_slow_loris)))"
proof -
  have prems: "distinct ([] :: socket_addr list)" "0 < (3 :: nat)" "2 * 3 + 1 < (2 :: nat) ^ 64" by simp_all
  note p = guard_api_attacks [OF prems, where ip = attacker1 and k = 500 and t = 0 and ctx = "demo_ctx 1" and gap = "secs 17"]
  have "length (filter id (map is_ok (exhaust attacker1 500 (throttle_new demo_throttle_config)))) = 32"
    unfolding p [THEN conjunct1] by (simp add: filter_replicate)
  then have "length (filter is_ok (exhaust attacker1 500 (throttle_new demo_throttle_config))) = 32"
    by (simp only: filter_map length_map comp_def id_def)
  moreover have "list_all is_ok (fst (sl_run (SlReserve 0 (demo_ctx 1) # trickle (demo_ctx 1) (secs 17) 3 0) (sl_new demo_slow_loris)))"
    by (rule p [THEN conjunct2, THEN conjunct2, THEN conjunct1, THEN iffD2]) (simp add: secs_def nanos_per_sec_def)
  ultimately show ?thesis by (rule conjI)
qed

text \<open>
  The numbers the metrics example prints, snapshot by snapshot (TCP, TLS, mutual TLS, active,
  failed), and the answers of its ban list. The last event closes a connection of an address that never
  opened one: it is taken off the active connections all the same, which end at 9 while 10 are open.
\<close>

theorem metrics_api_prints:
  "map (\<lambda>n. logged (metrics_snapshot (fold metric_step (metrics_demo n) metrics_new))) [0..<8] =
     [(2, 2, 1, 5, 2), (4, 3, 1, 8, 2), (4, 3, 1, 7, 2), (5, 3, 1, 8, 2),
      (5, 4, 1, 9, 2), (5, 4, 2, 10, 2), (5, 4, 2, 10, 3), (5, 4, 2, 9, 3)] \<and>
   demo_ip_ban = [False, False, True, True, False, False, True]"
proof (intro conjI)
  have "logged (metrics_snapshot metrics_new) = (0, 0, 0, 0, 0)"
    by (simp add: logged_def metrics_snapshot_def metrics_new_def)
  moreover have "map (\<lambda>n. fold log_step (metrics_demo n) (0, 0, 0, 0, 0)) [0..<8] =
     [(2, 2, 1, 5, 2), (4, 3, 1, 8, 2), (4, 3, 1, 7, 2), (5, 3, 1, 8, 2),
      (5, 4, 1, 9, 2), (5, 4, 2, 10, 2), (5, 4, 2, 10, 3), (5, 4, 2, 9, 3)]"
    by (simp add: upt_rec metrics_demo_def recorded_connections_def opened_connections_def closed_connection_def
        monitor_event_def saturating_dec_def)
  ultimately show "map (\<lambda>n. logged (metrics_snapshot (fold metric_step (metrics_demo n) metrics_new))) [0..<8] =
     [(2, 2, 1, 5, 2), (4, 3, 1, 8, 2), (4, 3, 1, 7, 2), (5, 3, 1, 8, 2),
      (5, 4, 1, 9, 2), (5, 4, 2, 10, 2), (5, 4, 2, 10, 3), (5, 4, 2, 9, 3)]"
    by (simp only: logged_steps)
  show "demo_ip_ban = [False, False, True, True, False, False, True]"
    by (simp add: demo_ip_ban_def attacker1_def attacker2_def trusted_client_def ipv4_new_def)
qed

end
