(* ===== verification/Spec2Isabelle.thy ===== *)
theory Spec2Isabelle
  imports Throttle_Concurrent Rate_Concurrent Stack_Concurrent Metrics_Concurrent Live_Sessions Load_Balancer Routing
    Connection_Filter Proxy_Server Sync_Server Client Echo_Handlers Relay Example_Programs Proxy_Usage Api_Examples
begin

text \<open>
  Verification library of Synclaire, a TCP/TLS transport library in Rust (sources under src/src, its example
  programs under src/examples): connection guards, routing, load balancing, a proxy, servers and clients, in an asynchronous (tokio) and a
  blocking variant. The theories translate the Rust code definition by definition and prove what
  makes it correct; where the code does something its comments or documentation do not say, a
  theorem says what it does.

  \<^bold>\<open>How the parts interact.\<close> A server accepts a connection, takes a permit, and asks its guard stack for a
  reservation; the session it gets lives as long as the connection. The connection is handed to the
  handler of the application with the session attached, reads and writes report to the session, and
  dropping the connection closes it, which gives back what every guard had counted. A proxy does the
  same, but decides first where the connection goes (a rule of the routing table, a backend of a pool,
  or the configured backend), counts it in the metrics, authenticates the client from the header block
  it sends, and relays bytes in both directions.

  \<^bold>\<open>Conventions\<close> (theories \<open>Prelude\<close>, \<open>Syn_Error\<close>, \<open>Net_Addr\<close>, \<open>Float64\<close>, \<open>Rust_Str\<close>, \<open>Base64\<close>).
  Words are as wide as in the code and wrap (\<open>u64\<close>, \<open>u32\<close>, \<open>u8\<close>); a \<open>usize\<close> that only counts up from a bounded quantity is
  \<open>nat\<close>, an atomic counter that can be pushed past either end a 64-bit word. Time stamps are
  nanoseconds, every reading of the clock is an argument. A hash map is a finite map, a string its
  UTF-8 bytes. A fallible operation returns an \<open>outcome\<close>: the code's \<open>Ok\<close>, its \<open>Err\<close> with the error of
  error.rs, or a panic. \<open>f64\<close> values are rationals with every operation rounded to 53 bits. Mutable
  state is passed and returned; the answers of the operating system (reads, writes, accepts,
  handshakes) are arguments, a sequence of reads is a list, and \<open>None\<close> means that a routine is still
  waiting when the list is used up.

  \<^bold>\<open>Guards\<close> (src/src/guard). \<open>Guard_Types\<close>: the \<open>Guard\<close> trait as a record of methods, contexts, events, the UDP
  guard. \<open>Ip_Ban\<close>, \<open>Throttle\<close>, \<open>Rate_Limiter\<close>, \<open>Syn_Guard\<close>, \<open>Slow_Loris\<close>: one guard each, with its
  invariant, its limits, and a specification it refines (a multiset of slot holders, a set of
  half-open connections, a least-recently-active list). \<open>Guard_Stack\<close>: reservation with rollback and
  sessions, generic in the guards; its locales \<open>undoable_guards\<close> and \<open>lifecycle_guards\<close> state what a
  stack needs of a guard, and \<open>Std_Guards\<close> interprets them on the six guards of the crate: one
  session gives everything back. \<open>Live_Sessions\<close> adds the locale \<open>shared_guards\<close> for many sessions
  over one stack: under every interleaving the counters are those of the live connections.
  \<open>Stack_Concurrent\<close> continues that locale: the calls of the sessions are cut into the calls they make
  to the guards (\<open>guard_step\<close>), any number of threads interleave these, and every guard counts at
  every moment the connections that have passed it and not been taken back from it.
  \<open>Throttle_Concurrent\<close> splits the calls of the throttle, whose counter and table are updated one
  after the other, into their atomic steps, and \<open>Rate_Concurrent\<close> those of the rate limiter into its
  two critical sections: the limits hold in every interleaving of these, in the throttle at the price
  of refusals that no order of whole calls gives.

  \<^bold>\<open>Choosing a backend\<close>. \<open>Load_Balancer\<close> (load_balancer.rs): FNV-1a, the ring, round robin and consistent hashing; the
  unstable sort is a parameter known to return a sorted permutation. \<open>Routing\<close> (routing.rs): prefixes,
  groups, rules, first match. \<open>Metrics\<close> (metrics.rs): conservation and exactness of the counters, and the
  rounding of the averages. \<open>Metrics_Concurrent\<close> cuts every call of the metrics into its atomic parts
  (\<open>metric_parts\<close>) and a snapshot into its reads under the locks it holds (\<open>snapshot_reads\<close>): the
  counters stay exact in every interleaving, and a theorem says how far a snapshot can be torn.

  \<^bold>\<open>Proxy\<close> (proxy.rs). \<open>Proxy_Auth\<close>: credentials, header blocks, the blocking and the asynchronous reading routine.
  \<open>Proxy_Client\<close>: the client and the round trip with the server's parser. \<open>Proxy_Forward\<close>: forwarding one
  connection, its two copying threads one after the other. \<open>Relay\<close>: the same threads side by side, between
  two peers that send and end their streams when they like; \<open>relay_run\<close> has every interleaving, an invariant
  accounts for every byte; in front of an echo server, whose own time-out and failures are events too
  (\<open>net_step\<close>), a measure shows that the relay gets done, and an invariant what ends it. \<open>Proxy_Server\<close>: one turn of either accept loop, the end of a connection, and both servers
  as transition systems in which connections come and go.

  \<^bold>\<open>Connections, servers, clients\<close>. \<open>Connection\<close> and \<open>Connection_Filter\<close> (handler.rs, connection_filter.rs), \<open>Config\<close> (config.rs), \<open>Tls\<close>
  (tls/rustls.rs, server/tls.rs, client/tls.rs), \<open>Server_Common\<close> (server/tcp.rs and what both servers share),
  \<open>Async_Server\<close> (server/async_server.rs), \<open>Sync_Server\<close> (server/sync_server.rs), \<open>Client\<close> (client). Each server is an
  inductive relation over its phase (accepting, draining, finished), its counters or permits and
  its connections, with the shutdown signal, and the invariant proved by rule induction.

  \<^bold>\<open>Example programs\<close> (src/examples). \<open>Echo_Handlers\<close>: the handlers and clients of the echo programs over the connections of
  the library, what they send back and what the guards see of it. \<open>Example_Programs\<close>: the ten echo
  programs, their command lines, demos and configurations, and the security these ask for.
  \<open>Proxy_Usage\<close> (proxy-usage.rs): its routing tables, pools and credentials, and the demo from the
  client's request through the proxy to the echo and back, on the definitions of the parts, and the
  load-balancing proxy with the backend that is added while it runs (\<open>lb_run\<close>). \<open>Api_Examples\<close>
  (guard-api.rs, metrics-api.rs): the guards they configure against the attacks they describe.

  \<^bold>\<open>Bounds.\<close> No definition runs on fuel that could run out: \<open>trim_front\<close> takes as many steps as the string
  has bytes and every step removes one; all other loops are structural recursion or have a
  termination proof. The loops that read a header block end by the limit of 64 KiB, which is a
  theorem. Statements about 64-bit sequence numbers and counters that wrap say so (fewer than
  \<open>2 ^ 64\<close> calls, a limit under the largest \<open>usize\<close>, latency sums under \<open>2 ^ 53\<close>), as do those that need
  a buffer that is not empty, durations whose sum is one, a limit of connections that the semaphore or
  the shutdown takes, or guards that do not know a connection yet.

  \<^bold>\<open>Not modelled.\<close> Log lines other than those of the metrics callback and of the end of a proxied
  connection, and derived \<open>Debug\<close> output; \<open>TCP_NODELAY\<close>, whose failure is only logged; sockets,
  listeners, rustls, tokio and the PEM parser themselves, whose answers are arguments or a record of
  functions; interleavings inside one call of the other guards, which hold one lock while they work
  (the slow-client guard lets go of it between its test and its note, and the calls of one connection
  come one after the other); a reset of the metrics among other calls, whose parts are defined but which
  no counter survives; builds without the async, sync or TLS features, in which the functions are
  absent or return \<open>UnsupportedFeature\<close>. Unit tests and module declarations, and the lines, pauses and
  terminal sessions of the example programs, are left out.
\<close>

end
